(* ===== verification/Prelude.thy ===== *)
theory Prelude
  imports Main "HOL-Library.Word" "HOL-Library.While_Combinator"
begin

text \<open>
  What every component of the wallet shares: the fixed-width integers of C, the outcome of a
  C function that may abort or leave its memory, byte buffers with bounds, and the big- and
  little-endian readings of byte lists.

  Conventions. A C string is a HOL \<open>string\<close> without its terminating NUL, so \<open>strlen\<close> is
  \<open>length\<close>. A region of memory a pointer may be used on is a list, and an access outside it
  is the fault \<open>Out_of_bounds\<close>. A failing \<open>assert\<close> is the fault \<open>Assertion_failed\<close>; a call that
  never returns is the fault \<open>No_return\<close>, a shift C leaves undefined is \<open>Undefined\<close>. The host is little-endian (x86 and nRF52840).
\<close>

unbundle bit_operations_syntax

section \<open>Machine integers\<close>

type_synonym u8 = "8 word"
type_synonym u16 = "16 word"
type_synonym u32 = "32 word"
type_synonym u64 = "64 word"

named_theorems unat_ops "values of word operations as natural numbers"

lemma unat_push_bit_nat [unat_ops]:
  fixes w :: "'a::len word"
  shows "unat (push_bit n w) = (unat w * 2 ^ n) mod 2 ^ LENGTH('a)"
  unfolding unsigned_push_bit_eq by (simp add: take_bit_eq_mod push_bit_eq_mult)

lemma unat_drop_bit_nat [unat_ops]:
  fixes w :: "'a::len word"
  shows "unat (drop_bit n w) = unat w div 2 ^ n"
  unfolding unat_drop_bit_eq by (rule drop_bit_eq_div)

lemma unat_mask_nat [unat_ops]:
  fixes w :: "'a::len word"
  shows "unat (w AND mask n) = unat w mod 2 ^ n"
  unfolding take_bit_eq_mask [symmetric] unsigned_take_bit_eq by (rule take_bit_eq_mod)

text \<open>Counting down and up without wrap-around.\<close>

lemma unat_pred:
  fixes w :: "'a::len word"
  shows "0 < unat w \<Longrightarrow> unat (w - 1) = unat w - 1"
  by (metis unat_gt_0 unat_minus_one)

lemma unat_succ:
  fixes w v :: "'a::len word"
  assumes "unat w < unat v"
  shows "unat (w + 1) = unat w + 1"
proof -
  have "unat w + 1 < 2 ^ LENGTH('a)"
    using assms unsigned_less [of v, where ?'a = nat] by linarith
  then show ?thesis by (simp add: unat_word_ariths)
qed

lemma unat_less_2p [simp]:
  fixes w :: "'a::len word"
  shows "unat w < 2 ^ LENGTH('a)"
  by (rule unsigned_less)

lemma u64_bound: "unat (w::u64) < 18446744073709551616"
  using unsigned_less [of w, where ?'a = nat] by simp

lemma u32_bound: "unat (w::u32) < 4294967296"
  using unsigned_less [of w, where ?'a = nat] by simp

lemma u8_bound [simp]: "unat (w::u8) < 256"
  using unsigned_less [of w, where ?'a = nat] by simp

section \<open>Outcomes of C functions\<close>

datatype fault = Assertion_failed | Out_of_bounds | No_return | Undefined

type_synonym 'a outcome = "fault + 'a"

definition bindE :: "'a outcome \<Rightarrow> ('a \<Rightarrow> 'b outcome) \<Rightarrow> 'b outcome" where
  "bindE m k = (case m of Inl e \<Rightarrow> Inl e | Inr x \<Rightarrow> k x)"

lemma bindE_Inr [simp]: "bindE (Inr x) k = k x"
  by (simp add: bindE_def)

lemma bindE_Inl [simp]: "bindE (Inl e) k = Inl e"
  by (simp add: bindE_def)

lemma bindE_cong [fundef_cong]:
  "m = m' \<Longrightarrow> (\<And>x. m' = Inr x \<Longrightarrow> k x = k' x) \<Longrightarrow> bindE m k = bindE m' k'"
  by (cases m') (simp_all add: bindE_def)

lemma bindE_eq_Inr: "bindE m k = Inr y \<longleftrightarrow> (\<exists>x. m = Inr x \<and> k x = Inr y)"
  by (cases m) (auto simp: bindE_def)

lemma bindE_assoc: "bindE (bindE m k) h = bindE m (\<lambda>x. bindE (k x) h)"
  by (cases m) (simp_all add: bindE_def)

definition assertE :: "bool \<Rightarrow> unit outcome" where
  "assertE b = (if b then Inr () else Inl Assertion_failed)"

lemma assertE_True [simp]: "assertE True = Inr ()"
  by (simp add: assertE_def)

lemma assertE_False [simp]: "assertE False = Inl Assertion_failed"
  by (simp add: assertE_def)

lemma assertE_eq_Inr [simp]: "assertE b = Inr x \<longleftrightarrow> b"
  by (simp add: assertE_def)

text \<open>A property of the result, if there is one, branch by branch.\<close>

definition ensures :: "('a \<Rightarrow> bool) \<Rightarrow> 'a outcome \<Rightarrow> bool" where
  "ensures P r \<longleftrightarrow> (\<forall>x. r = Inr x \<longrightarrow> P x)"

lemma ensuresD: "ensures P r \<Longrightarrow> r = Inr x \<Longrightarrow> P x"
  by (simp add: ensures_def)

lemma ensures_bind: "(\<And>x. m = Inr x \<Longrightarrow> ensures P (k x)) \<Longrightarrow> ensures P (bindE m k)"
  by (cases m) (simp add: ensures_def, simp only: bindE_Inr)

lemma ensures_if: "(b \<Longrightarrow> ensures P r) \<Longrightarrow> (\<not> b \<Longrightarrow> ensures P r') \<Longrightarrow> ensures P (if b then r else r')"
  by (rule if_split [THEN iffD2]) blast

lemma ensures_split: "(\<And>a b. x = (a, b) \<Longrightarrow> ensures P (k a b)) \<Longrightarrow> ensures P (case x of (a, b) \<Rightarrow> k a b)"
  by (cases x) simp

lemma ensures_Inr: "P x \<Longrightarrow> ensures P (Inr x)"
  by (simp add: ensures_def)

lemma ensures_Inl: "ensures P (Inl e)"
  by (simp add: ensures_def)

lemmas ensures_rules = ensures_if ensures_bind ensures_split ensures_Inr ensures_Inl

text \<open>A loop that may run forever returns \<open>None\<close>; to its caller that is a fault.\<close>

definition returns :: "'a option \<Rightarrow> 'a outcome" where
  "returns x = (case x of None \<Rightarrow> Inl No_return | Some y \<Rightarrow> Inr y)"

lemma returns_simps [simp]:
  "returns (Some y) = Inr y" "returns None = Inl No_return"
  by (simp_all add: returns_def)

section \<open>Bounded memory\<close>

definition write_at :: "'a list \<Rightarrow> nat \<Rightarrow> 'a list \<Rightarrow> 'a list outcome" where
  "write_at mem off bs =
     (if off + length bs \<le> length mem
      then Inr (take off mem @ bs @ drop (off + length bs) mem)
      else Inl Out_of_bounds)"

definition read_at :: "'a list \<Rightarrow> nat \<Rightarrow> nat \<Rightarrow> 'a list outcome" where
  "read_at mem off n =
     (if off + n \<le> length mem then Inr (take n (drop off mem)) else Inl Out_of_bounds)"

lemma write_at_Inr:
  "off + length bs \<le> length mem \<Longrightarrow>
   write_at mem off bs = Inr (take off mem @ bs @ drop (off + length bs) mem)"
  by (simp add: write_at_def)

lemma write_at_length: "write_at mem off bs = Inr mem' \<Longrightarrow> length mem' = length mem"
  by (auto simp: write_at_def split: if_splits)

lemma read_at_length: "read_at mem off n = Inr bs \<Longrightarrow> length bs = n"
  by (auto simp: read_at_def split: if_splits)

lemma read_at_write_at:
  assumes "write_at mem off bs = Inr mem'"
  shows "read_at mem' off (length bs) = Inr bs"
  using assms by (auto simp: write_at_def read_at_def split: if_splits)

text \<open>Bytes outside the written window are those of the memory before.\<close>

lemma write_at_nth:
  assumes "write_at mem off bs = Inr mem'" and "i < length mem"
  shows "mem' ! i = (if off \<le> i \<and> i < off + length bs then bs ! (i - off) else mem ! i)"
  using assms by (auto simp: write_at_def nth_append split: if_splits)

lemma read_at_write_at_disjoint:
  assumes w: "write_at mem off bs = Inr mem'"
    and d: "i + n \<le> off \<or> off + length bs \<le> i"
  shows "read_at mem' i n = read_at mem i n"
proof (cases "i + n \<le> length mem")
  case True
  have len: "length mem' = length mem" using w by (rule write_at_length)
  have "take n (drop i mem') = take n (drop i mem)"
  proof (rule nth_equalityI)
    show "length (take n (drop i mem')) = length (take n (drop i mem))" by (simp add: len)
  next
    fix k assume "k < length (take n (drop i mem'))"
    with True len have k: "k < n" "i + k < length mem" by auto
    with w d show "take n (drop i mem') ! k = take n (drop i mem) ! k"
      by (auto simp: len write_at_nth)
  qed
  with len show ?thesis by (simp add: read_at_def)
next
  case False
  with write_at_length [OF w] show ?thesis by (simp add: read_at_def)
qed

text \<open>Reading a C string: its characters, then the terminating NUL, and nothing beyond.\<close>

definition char_at :: "string \<Rightarrow> nat \<Rightarrow> char outcome" where
  "char_at s i = (if i < length s then Inr (s ! i)
     else if i = length s then Inr (CHR 0x00) else Inl Out_of_bounds)"

text \<open>The code of a character, and the bytes of a C string as a number each.\<close>

abbreviation code :: "char \<Rightarrow> int" where
  "code c \<equiv> of_char c"

section \<open>Bytes and numbers\<close>

fun le_bytes :: "nat \<Rightarrow> nat \<Rightarrow> u8 list" where
  "le_bytes 0 v = []"
| "le_bytes (Suc n) v = of_nat v # le_bytes n (v div 256)"

lemma le_bytes_numeral:
  "le_bytes (numeral k) v = of_nat v # le_bytes (pred_numeral k) (v div 256)"
  by (simp only: numeral_eq_Suc le_bytes.simps)

definition be_bytes :: "nat \<Rightarrow> nat \<Rightarrow> u8 list" where
  "be_bytes n v = rev (le_bytes n v)"

definition be_val :: "u8 list \<Rightarrow> nat" where
  "be_val bs = foldl (\<lambda>a b. a * 256 + unat b) 0 bs"

lemma length_le_bytes [simp]: "length (le_bytes n v) = n"
  by (induction n arbitrary: v) auto

lemma length_be_bytes [simp]: "length (be_bytes n v) = n"
  by (simp add: be_bytes_def)

lemma rev_le_bytes: "rev (le_bytes n v) = be_bytes n v"
  by (simp add: be_bytes_def)

lemma rev_be_bytes [simp]: "rev (be_bytes n v) = le_bytes n v"
  by (simp add: be_bytes_def)

lemma be_val_Nil [simp]: "be_val [] = 0"
  by (simp add: be_val_def)

lemma be_val_snoc [simp]: "be_val (bs @ [b]) = be_val bs * 256 + unat b"
  by (simp add: be_val_def)

lemma be_val_append: "be_val (xs @ ys) = be_val xs * 256 ^ length ys + be_val ys"
  by (induction ys rule: rev_induct) (simp_all add: append_assoc [symmetric] algebra_simps
        del: append_assoc)

lemma be_val_Cons: "be_val (b # bs) = unat b * 256 ^ length bs + be_val bs"
  using be_val_append [of "[b]" bs] be_val_snoc [of "[]" b] by simp

lemma be_val_less: "be_val bs < 256 ^ length bs"
proof (induction bs rule: rev_induct)
  case Nil
  then show ?case by simp
next
  case (snoc b bs)
  have "unat b < 256" by (rule u8_bound)
  moreover from snoc have "be_val bs + 1 \<le> 256 ^ length bs" by simp
  then have "(be_val bs + 1) * 256 \<le> 256 ^ length bs * 256" by (rule mult_le_mono1)
  ultimately show ?case by (simp del: u8_bound)
qed

lemma be_val_replicate_0 [simp]: "be_val (replicate n 0) = 0"
  by (induction n) (simp_all add: be_val_Cons)

lemma unat_of_nat_u8: "unat (of_nat v :: u8) = v mod 256"
  by (simp add: unat_of_nat)

lemma be_bytes_0 [simp]: "be_bytes 0 v = []"
  by (simp add: be_bytes_def)

lemma be_bytes_Suc: "be_bytes (Suc n) v = be_bytes n (v div 256) @ [of_nat v]"
  by (simp add: be_bytes_def)

lemma be_val_be_bytes: "be_val (be_bytes n v) = v mod 256 ^ n"
proof (induction n arbitrary: v)
  case 0
  then show ?case by simp
next
  case (Suc n)
  have "v mod (256 * 256 ^ n) = 256 * (v div 256 mod 256 ^ n) + v mod 256"
    by (rule mod_mult2_eq)
  with Suc show ?case by (simp add: be_bytes_Suc unat_of_nat_u8)
qed

lemma be_bytes_be_val: "be_bytes (length bs) (be_val bs) = bs"
proof (induction bs rule: rev_induct)
  case Nil
  then show ?case by simp
next
  case (snoc b bs)
  have "(be_val bs * 256 + unat b) div 256 = be_val bs" by simp
  moreover have "(of_nat (be_val bs * 256 + unat b) :: u8) = b"
    by (simp only: word_unat_eq_iff unat_of_nat_u8) simp
  ultimately show ?case using snoc by (simp add: be_bytes_Suc del: of_nat_add of_nat_mult)
qed

lemma be_val_inj: "length xs = length ys \<Longrightarrow> be_val xs = be_val ys \<Longrightarrow> xs = ys"
  by (metis be_bytes_be_val)

lemma be_bytes_mod: "be_bytes n (v mod 256 ^ n) = be_bytes n v"
  by (rule be_val_inj) (simp_all add: be_val_be_bytes)

lemma be_bytes_add: "be_bytes (m + n) v = be_bytes m (v div 256 ^ n) @ be_bytes n v"
proof (rule be_val_inj)
  have "v mod (256 ^ n * 256 ^ m) = 256 ^ n * (v div 256 ^ n mod 256 ^ m) + v mod 256 ^ n"
    by (rule mod_mult2_eq)
  then show "be_val (be_bytes (m + n) v) = be_val (be_bytes m (v div 256 ^ n) @ be_bytes n v)"
    by (simp add: be_val_append be_val_be_bytes power_add mult.commute)
qed simp

lemma be_bytes_high_0: "v < 256 ^ n \<Longrightarrow> be_bytes (m + n) v = replicate m 0 @ be_bytes n v"
  by (rule be_val_inj) (simp_all add: be_val_append be_val_be_bytes power_add
        order_less_le_trans mod_less)

end
