(* ===== verification/Limbs.thy ===== *)
theory Limbs
  imports Prelude
begin

text \<open>
  Arithmetic of two-limb numbers \<open>h * B + l\<close> on natural numbers, for any base \<open>B = 2 ^ n\<close>.
  \<open>helpers/uint256.c\<close> builds 128-bit values from 64-bit limbs and 256-bit values from 128-bit
  limbs with the same formulas; each lemma here serves both levels.
\<close>

lemma limbs_less: "h < B \<Longrightarrow> l < B \<Longrightarrow> h * B + l < B * (B::nat)"
proof -
  assume "h < B" "l < B"
  then have "h * B + l < h * B + B" by simp
  also have "\<dots> = (h + 1) * B" by simp
  also have "\<dots> \<le> B * B" using \<open>h < B\<close> by (intro mult_le_mono1) simp
  finally show ?thesis .
qed

lemma limbs_inj:
  fixes B :: nat
  assumes "l < B" "l' < B" "h * B + l = h' * B + l'"
  shows "h = h' \<and> l = l'"
proof -
  have "(h * B + l) div B = (h' * B + l') div B" "(h * B + l) mod B = (h' * B + l') mod B"
    using assms(3) by simp_all
  with assms(1,2) show ?thesis by simp
qed

lemma limbs_less_iff:
  fixes B :: nat
  assumes "l < B" "l' < B"
  shows "h * B + l < h' * B + l' \<longleftrightarrow> h < h' \<or> h = h' \<and> l < l'"
proof (cases h h' rule: linorder_cases)
  case less
  then have "(h + 1) * B \<le> h' * B" by (intro mult_le_mono1) simp
  with assms less show ?thesis by simp
next
  case equal
  then show ?thesis by simp
next
  case greater
  then have "(h' + 1) * B \<le> h * B" by (intro mult_le_mono1) simp
  with assms greater show ?thesis by simp
qed

lemma limbs_mod:
  fixes B :: nat
  assumes "l < B"
  shows "(h * B + l) mod (B * B) = (h mod B) * B + l"
  using assms mod_mult2_eq [of "h * B + l" B B] by simp

text \<open>Addition: the carry out of the low limb goes into the high one.\<close>

lemma limbs_add:
  fixes B :: nat
  assumes "l < B" "l' < B"
  shows "(h + h' + of_bool (B \<le> l + l')) mod B * B + (l + l') mod B =
    (h * B + l + (h' * B + l')) mod (B * B)"
proof -
  let ?c = "of_bool (B \<le> l + l') :: nat"
  have B: "0 < B" using assms by simp
  have lo: "l + l' = ?c * B + (l + l') mod B"
    using assms by (auto simp: le_mod_geq)
  have "h * B + l + (h' * B + l') = (h + h' + ?c) * B + (l + l') mod B"
    using lo by (simp add: algebra_simps)
  with B show ?thesis by (simp add: limbs_mod)
qed

text \<open>Subtraction: a borrow from the high limb when the low limb is too small.\<close>

lemma limbs_minus:
  fixes B :: int
  assumes "0 \<le> l" "l < B" "0 \<le> l'" "l' < B"
  shows "(h - h' - of_bool (l < l')) mod B * B + (l - l') mod B =
    (h * B + l - (h' * B + l')) mod (B * B)"
proof -
  let ?b = "of_bool (l < l') :: int" and ?r = "(l - l') mod B"
  have B: "0 < B" using assms by simp
  have lo: "l - l' = ?r - ?b * B"
  proof (cases "l < l'")
    case True
    then have "?r = (l - l' + B) mod B" by simp
    also have "\<dots> = l - l' + B" using True assms by (intro mod_pos_pos_trivial) auto
    finally show ?thesis using True by simp
  next
    case False
    with assms have "?r = l - l'" by (intro mod_pos_pos_trivial) auto
    with False show ?thesis by simp
  qed
  have r: "0 \<le> ?r" "?r < B" using B by simp_all
  have e: "h * B + l - (h' * B + l') = (h - h' - ?b) * B + ?r"
    using lo by (simp add: algebra_simps)
  have "((h - h' - ?b) * B + ?r) mod (B * B) =
      B * (((h - h' - ?b) * B + ?r) div B mod B) + ((h - h' - ?b) * B + ?r) mod B"
    using B by (intro zmod_zmult2_eq) simp
  also have "((h - h' - ?b) * B + ?r) div B = h - h' - ?b"
    using r B by (simp add: div_pos_pos_trivial)
  also have "((h - h' - ?b) * B + ?r) mod B = ?r"
    using r B by (simp add: mod_pos_pos_trivial)
  finally show ?thesis unfolding e by (simp only: mult.commute)
qed

text \<open>Bitwise disjunction works limb by limb.\<close>

lemma limbs_or:
  fixes h h' l l' :: nat
  assumes "l < 2 ^ n" "l' < 2 ^ n"
  shows "(h * 2 ^ n + l) OR (h' * 2 ^ n + l') = (h OR h') * 2 ^ n + (l OR l')"
    and "l OR l' < 2 ^ n"
proof -
  have plus: "x * 2 ^ n + y = push_bit n x OR y" if "y < 2 ^ n" for x y :: nat
  proof -
    have "push_bit n x AND y = 0"
    proof (rule bit_eqI)
      fix k
      have "\<not> bit y k" if "n \<le> k"
        using that \<open>y < 2 ^ n\<close> by (simp add: bit_iff_odd)
          (metis div_less even_zero order_less_le_trans power_increasing one_le_numeral)
      then show "bit (push_bit n x AND y) k = bit (0::nat) k"
        by (auto simp: bit_simps)
    qed
    then show ?thesis by (simp add: disjunctive_add_eq_or push_bit_eq_mult mult.commute)
  qed
  have "take_bit n (l OR l') = (l OR l')"
    using assms by (simp add: take_bit_or take_bit_nat_eq_self)
  then show lt: "l OR l' < 2 ^ n" by (metis take_bit_nat_less_exp)
  show "(h * 2 ^ n + l) OR (h' * 2 ^ n + l') = (h OR h') * 2 ^ n + (l OR l')"
    by (simp only: plus [OF assms(1)] plus [OF assms(2)] plus [OF lt] push_bit_or)
      (simp add: or.assoc or.left_commute)
qed

text \<open>
  Shifts across the limb boundary. The C text adds the two parts of the crossing limb; the sum
  never overflows because the parts have no common bit.
\<close>

lemma limbs_shiftl:
  fixes h l :: nat
  assumes "l < 2 ^ n" "v \<le> n"
  shows "((h * 2 ^ v) mod 2 ^ n + l div 2 ^ (n - v)) mod 2 ^ n * 2 ^ n + (l * 2 ^ v) mod 2 ^ n =
    (h * 2 ^ n + l) * 2 ^ v mod (2 ^ n * 2 ^ n)"
proof -
  have split: "(2::nat) ^ n = 2 ^ (n - v) * 2 ^ v" using assms(2) by (simp flip: power_add)
  have "l * 2 ^ v = l div 2 ^ (n - v) * 2 ^ n + (l * 2 ^ v) mod 2 ^ n"
  proof -
    have "l * 2 ^ v div 2 ^ n = l div 2 ^ (n - v)" unfolding split by simp
    then show ?thesis by (metis div_mult_mod_eq)
  qed
  then have "(h * 2 ^ n + l) * 2 ^ v =
      (h * 2 ^ v + l div 2 ^ (n - v)) * 2 ^ n + (l * 2 ^ v) mod 2 ^ n"
    by (simp add: algebra_simps)
  then show ?thesis by (simp add: limbs_mod mod_add_left_eq)
qed

lemma limbs_shiftl_far:
  fixes h l :: nat
  assumes "n \<le> v"
  shows "(l * 2 ^ (v - n)) mod 2 ^ n * 2 ^ n = (h * 2 ^ n + l) * 2 ^ v mod (2 ^ n * 2 ^ n)"
proof -
  have split: "(2::nat) ^ v = 2 ^ (v - n) * 2 ^ n" using assms by (simp flip: power_add)
  have "(h * 2 ^ n + l) * 2 ^ v = (h * 2 ^ v + l * 2 ^ (v - n)) * 2 ^ n + 0"
    unfolding split by (simp add: algebra_simps)
  also have "\<dots> mod (2 ^ n * 2 ^ n) = (h * 2 ^ v + l * 2 ^ (v - n)) mod 2 ^ n * 2 ^ n + 0"
    by (rule limbs_mod) simp
  also have "(h * 2 ^ v + l * 2 ^ (v - n)) mod 2 ^ n = (l * 2 ^ (v - n)) mod 2 ^ n"
    unfolding split by (metis mod_mult_self3 mult.assoc)
  finally show ?thesis by simp
qed

lemma limbs_shiftr:
  fixes h l :: nat
  assumes "h < 2 ^ n" "l < 2 ^ n" "v \<le> n"
  shows "h div 2 ^ v * 2 ^ n + ((h * 2 ^ (n - v)) mod 2 ^ n + l div 2 ^ v) mod 2 ^ n =
    (h * 2 ^ n + l) div 2 ^ v"
proof -
  have split: "(2::nat) ^ n = 2 ^ (n - v) * 2 ^ v" using assms(3) by (simp flip: power_add)
  have "(h * 2 ^ n + l) div 2 ^ v = h * 2 ^ (n - v) + l div 2 ^ v"
    unfolding split by (simp add: mult.assoc [symmetric])
  moreover have "h * 2 ^ (n - v) = h div 2 ^ v * 2 ^ n + (h * 2 ^ (n - v)) mod 2 ^ n"
  proof -
    have "h * 2 ^ (n - v) div 2 ^ n = h div 2 ^ v" unfolding split by (simp add: mult.commute)
    then show ?thesis by (metis div_mult_mod_eq)
  qed
  moreover have "(h * 2 ^ (n - v)) mod 2 ^ n + l div 2 ^ v < 2 ^ n"
  proof -
    have m: "(h * 2 ^ (n - v)) mod 2 ^ n = h mod 2 ^ v * 2 ^ (n - v)"
      unfolding split by (simp add: mult.commute [of _ "2 ^ v"])
    have "l div 2 ^ v < 2 ^ (n - v)" using assms(2) by (simp add: split less_mult_imp_div_less)
    moreover have "(h mod 2 ^ v + 1) * 2 ^ (n - v) \<le> 2 ^ v * 2 ^ (n - v)"
      by (intro mult_le_mono1) (simp add: Suc_leI)
    ultimately show ?thesis unfolding m by (simp add: split mult.commute [of "2 ^ v"])
  qed
  ultimately show ?thesis by simp
qed

lemma limbs_shiftr_far:
  fixes h l :: nat
  assumes "l < 2 ^ n" "n \<le> v"
  shows "h div 2 ^ (v - n) = (h * 2 ^ n + l) div 2 ^ v"
proof -
  have "(2::nat) ^ v = 2 ^ n * 2 ^ (v - n)" using assms by (simp flip: power_add)
  then have "(h * 2 ^ n + l) div 2 ^ v = (h * 2 ^ n + l) div 2 ^ n div 2 ^ (v - n)"
    by (simp add: div_mult2_eq)
  with assms show ?thesis by simp
qed

text \<open>
  The schoolbook product of two four-limb numbers, most significant limb first, truncated to
  four limbs: each column adds the low halves of its limb products and the high halves of the
  column to its right, as \<open>mul128\<close> and \<open>mul256\<close> do.
\<close>

definition limbs4 :: "nat \<Rightarrow> nat \<Rightarrow> nat \<Rightarrow> nat \<Rightarrow> nat \<Rightarrow> nat" where
  "limbs4 B a b c d = a * B ^ 3 + b * B ^ 2 + c * B + d"

lemma limbs4_columns:
  fixes a0 a1 a2 a3 b0 b1 b2 b3 B :: nat
  shows "limbs4 B a0 a1 a2 a3 * limbs4 B b0 b1 b2 b3 =
    limbs4 B (a3 * b0 + a2 * b1 + a1 * b2 + a0 * b3) (a3 * b1 + a2 * b2 + a1 * b3)
      (a3 * b2 + a2 * b3) (a3 * b3) +
    ((a2 * b0 + a1 * b1 + a0 * b2) + (a1 * b0 + a0 * b1) * B + a0 * b0 * B ^ 2) * B ^ 4"
  unfolding limbs4_def by (simp add: algebra_simps power2_eq_square power3_eq_cube power4_eq_xxxx)

lemma schoolbook:
  fixes a0 a1 a2 a3 b0 b1 b2 b3 B :: nat
  defines "lo \<equiv> \<lambda>p. p mod B" and "hi \<equiv> \<lambda>p. p div B"
  shows "limbs4 B
      (lo (a3 * b0) + hi (a3 * b1) + (lo (a2 * b1) + hi (a2 * b2)) + (lo (a1 * b2) + hi (a1 * b3))
        + lo (a0 * b3))
      (lo (a3 * b1) + hi (a3 * b2) + (lo (a2 * b2) + hi (a2 * b3)) + lo (a1 * b3))
      (lo (a3 * b2) + hi (a3 * b3) + lo (a2 * b3)) (lo (a3 * b3)) mod B ^ 4 =
    limbs4 B a0 a1 a2 a3 * limbs4 B b0 b1 b2 b3 mod B ^ 4"
    (is "?s mod _ = _")
proof -
  have split: "p = hi p * B + lo p" for p by (simp add: lo_def hi_def)
  have collect: "limbs4 B (h1 * B + l1 + (h2 * B + l2) + (h3 * B + l3) + (h4 * B + l4))
        (h5 * B + l5 + (h6 * B + l6) + (h7 * B + l7)) (h8 * B + l8 + (h9 * B + l9)) (h0 * B + l0) =
      limbs4 B (l1 + h5 + (l2 + h6) + (l3 + h7) + l4) (l5 + h8 + (l6 + h9) + l7) (l8 + h0 + l9) l0
        + (h1 + h2 + h3 + h4) * B ^ 4"
    for h1 h2 h3 h4 h5 h6 h7 h8 h9 h0 l1 l2 l3 l4 l5 l6 l7 l8 l9 l0 :: nat
    unfolding limbs4_def by (simp add: algebra_simps power2_eq_square power3_eq_cube power4_eq_xxxx)
  have "limbs4 B (a3 * b0 + a2 * b1 + a1 * b2 + a0 * b3) (a3 * b1 + a2 * b2 + a1 * b3)
      (a3 * b2 + a2 * b3) (a3 * b3) =
      ?s + (hi (a3 * b0) + hi (a2 * b1) + hi (a1 * b2) + hi (a0 * b3)) * B ^ 4"
    by (subst (1) split [of "a3 * b0"], subst split [of "a2 * b1"], subst split [of "a1 * b2"],
        subst split [of "a0 * b3"], subst split [of "a3 * b1"], subst split [of "a2 * b2"],
        subst split [of "a1 * b3"], subst split [of "a3 * b2"], subst split [of "a2 * b3"],
        subst split [of "a3 * b3"]) (rule collect)
  then show ?thesis by (simp only: limbs4_columns add.assoc mod_mult_self1 flip: add_mult_distrib)
qed

lemma mod_add_inner: "(a + (b + (c mod m + d))) mod m = (a + (b + (c + d))) mod (m::nat)"
  using mod_add_right_eq [of "a + b + d" c m] by (simp add: ac_simps)

lemma mod_add_dvd: "(p + e) mod m = p mod m \<longleftrightarrow> m dvd e" for p e m :: nat
  by (metis add_diff_cancel_left' le_add1 mod_eq_dvd_iff_nat)

lemma dvd_less_iff_0: "e < m \<Longrightarrow> m dvd e \<longleftrightarrow> e = 0" for e m :: nat
  by (auto dest: nat_dvd_not_less)

end
