(* ===== verification/BigintContract.thy ===== *)
theory BigintContract
  imports Prelude
begin

text \<open>
  The contract of a fixed-width unsigned integer type, as the division and the printing of
  \<open>helpers/uint256.c\<close> use it. The file has every routine twice, for 128 and for 256 bits, with
  the same text; the two widths are two interpretations of this locale, and what is proved here
  holds for both. \<open>val\<close> is the number a value stands for. The operations are those the
  division calls, the in-place ones (\<open>target == number\<close>) included.
\<close>

locale bigint =
  fixes val :: "'n \<Rightarrow> nat" and width :: nat
    and clear one :: 'n
    and shiftl shiftr_self :: "'n \<Rightarrow> u32 \<Rightarrow> 'n"
    and minus_self or_self :: "'n \<Rightarrow> 'n \<Rightarrow> 'n"
    and gt gte :: "'n \<Rightarrow> 'n \<Rightarrow> bool"
    and bits :: "'n \<Rightarrow> u32"
  assumes val_less: "val x < 2 ^ width"
    and val_clear: "val clear = 0"
    and val_one: "val one = 1"
    and val_shiftl: "val (shiftl x v) = val x * 2 ^ unat v mod 2 ^ width"
    and val_shiftr1: "val (shiftr_self x 1) = val x div 2"
    and val_minus: "val y \<le> val x \<Longrightarrow> val (minus_self x y) = val x - val y"
    and val_or: "val (or_self x y) = (val x OR val y)"
    and gt_iff: "gt x y \<longleftrightarrow> val y < val x"
    and gte_iff: "gte x y \<longleftrightarrow> val y \<le> val x"
    and bits_upper: "val x < 2 ^ unat (bits x)"
    and bits_lower: "val x \<noteq> 0 \<Longrightarrow> 2 ^ unat (bits x) \<le> 2 * val x"
begin

lemma bits_mono:
  assumes "val x \<noteq> 0" and "val x \<le> val y"
  shows "unat (bits x) \<le> unat (bits y)"
proof -
  have "(2::nat) ^ unat (bits x) \<le> 2 * val x" using assms(1) by (rule bits_lower)
  also have "\<dots> \<le> 2 * val y" using assms by simp
  also have "\<dots> < 2 * 2 ^ unat (bits y)" using bits_upper [of y] by simp
  finally have "(2::nat) ^ unat (bits x) < 2 ^ Suc (unat (bits y))" by simp
  then have "unat (bits x) < Suc (unat (bits y))" by (rule power_less_imp_less_exp [rotated]) simp
  then show ?thesis by simp
qed

lemma bits_le_width: "val x \<noteq> 0 \<Longrightarrow> unat (bits x) \<le> width"
proof -
  assume "val x \<noteq> 0"
  then have "(2::nat) ^ unat (bits x) \<le> 2 * val x" by (rule bits_lower)
  also have "\<dots> < 2 ^ Suc width" using val_less [of x] by simp
  finally have "unat (bits x) < Suc width" by (rule power_less_imp_less_exp [rotated]) simp
  then show ?thesis by simp
qed

lemma or_power:
  assumes "2 ^ Suc k dvd val d" and "val a = 2 ^ k"
  shows "val (or_self d a) = val d + 2 ^ k"
proof -
  from assms(1) obtain q where q: "val d = 2 ^ Suc k * q" by (auto simp: dvd_def)
  then have "val d = push_bit (Suc k) q" by (simp add: push_bit_eq_mult mult.commute)
  then have "val d AND push_bit k 1 = 0"
    by (intro bit_eqI) (auto simp: bit_simps bit_0 simp del: push_bit_of_1)
  then have "(val d OR 2 ^ k) = val d + 2 ^ k" by (simp add: disjunctive_add_eq_or)
  with assms(2) show ?thesis by (simp add: val_or)
qed

text \<open>
  The invariant of the shift-and-subtract loop dividing \<open>l\<close> by \<open>r\<close>: the quotient so far times
  \<open>r\<close> plus the remainder is \<open>l\<close>, and until the remainder is below \<open>r\<close>, the shifted divisor is
  \<open>r\<close> times \<open>2 ^ k\<close>, the adder is \<open>2 ^ k\<close>, the quotient has no bit below \<open>k + 1\<close> and the
  remainder is below twice the shifted divisor.
\<close>

definition div_state :: "nat \<Rightarrow> nat \<Rightarrow> nat \<Rightarrow> nat \<Rightarrow> nat \<Rightarrow> nat \<Rightarrow> bool" where
  "div_state L R c a d m \<longleftrightarrow> L = d * R + m \<and>
     (m < R \<or> (\<exists>k. c = R * 2 ^ k \<and> a = 2 ^ k \<and> 2 ^ Suc k dvd d \<and> m < R * 2 ^ Suc k))"

lemma div_state_done: "div_state L R c a d m \<Longrightarrow> m < R \<Longrightarrow> d = L div R \<and> m = L mod R"
  by (auto simp: div_state_def)

text \<open>One round: \<open>d'\<close> and \<open>m'\<close> are the quotient and remainder after the conditional subtraction.\<close>

lemma div_state_step:
  assumes "div_state L R c a d m" and "R \<le> m"
    and d': "d' = (if c \<le> m then d + a else d)"
    and m': "m' = (if c \<le> m then m - c else m)"
  shows "div_state L R (c div 2) (a div 2) d' m' \<and> a div 2 < a"
proof -
  from assms(1,2) obtain k where k: "c = R * 2 ^ k" "a = 2 ^ k" "2 ^ Suc k dvd d"
      "m < R * 2 ^ Suc k" and L: "L = d * R + m"
    by (auto simp: div_state_def)
  have L': "L = d' * R + m'" using L k d' m' by (auto simp: algebra_simps)
  have m'_less: "m' < R * 2 ^ k" using k(4) m' by (auto simp: k(1))
  have dvd': "2 ^ k dvd d'" using k(2,3) d' by (auto simp: dvd_add dest: dvd_mult_right)
  show ?thesis
  proof (cases k)
    case 0
    with L' m'_less k show ?thesis by (simp add: div_state_def)
  next
    case (Suc j)
    with L' m'_less dvd' k have "c div 2 = R * 2 ^ j" "a div 2 = 2 ^ j" "m' < R * 2 ^ Suc j"
        "2 ^ Suc j dvd d'"
      by auto
    with L' k(2) Suc show ?thesis by (auto simp: div_state_def)
  qed
qed

text \<open>The loop state is the shifted divisor, the adder, the quotient and the remainder.\<close>

definition div_body :: "'n \<times> 'n \<times> 'n \<times> 'n \<Rightarrow> 'n \<times> 'n \<times> 'n \<times> 'n" where
  "div_body = (\<lambda>(c, a, d, m).
     let (d', m') = (if gte m c then (or_self d a, minus_self m c) else (d, m))
     in (shiftr_self c 1, shiftr_self a 1, d', m'))"

definition div_inv :: "'n \<Rightarrow> 'n \<Rightarrow> 'n \<times> 'n \<times> 'n \<times> 'n \<Rightarrow> bool" where
  "div_inv l r = (\<lambda>(c, a, d, m). div_state (val l) (val r) (val c) (val a) (val d) (val m))"

definition div_start :: "'n \<Rightarrow> 'n \<Rightarrow> 'n \<times> 'n" where
  "div_start l r = (let n = bits l - bits r; c = shiftl r n; a = shiftl one n
     in if gt c l then (shiftr_self c 1, shiftr_self a 1) else (c, a))"

lemma div_body_inv:
  assumes "div_inv l r s" and "(\<lambda>(c, a, d, m). gte m r) s"
  shows "div_inv l r (div_body s) \<and>
    (\<lambda>(c, a, d, m). val a) (div_body s) < (\<lambda>(c, a, d, m). val a) s"
proof -
  obtain c a d m where s: "s = (c, a, d, m)" by (cases s) auto
  from assms have inv: "div_state (val l) (val r) (val c) (val a) (val d) (val m)"
    and ge: "val r \<le> val m" by (simp_all add: s div_inv_def gte_iff)
  from inv ge obtain k where "2 ^ Suc k dvd val d" "val a = 2 ^ k"
    by (auto simp: div_state_def)
  then have "val (or_self d a) = val d + val a" using or_power by simp
  then show ?thesis
    using div_state_step [OF inv ge refl refl]
    by (auto simp: s div_body_def div_inv_def val_shiftr1 gte_iff val_minus)
qed

lemma div_start_inv:
  assumes r: "val r \<noteq> 0" and le: "val r \<le> val l" and st: "div_start l r = (c, a)"
  shows "div_inv l r (c, a, clear, l)"
proof -
  let ?n = "bits l - bits r"
  from r le have mono: "unat (bits r) \<le> unat (bits l)" by (rule bits_mono)
  then have n: "unat ?n = unat (bits l) - unat (bits r)"
    by (simp add: unat_sub word_le_nat_alt)
  have lw: "unat (bits l) \<le> width" using r le by (intro bits_le_width) simp
  have rpos: "0 < unat (bits r)" using bits_upper [of r] r by (cases "unat (bits r)") auto
  have bl: "(2::nat) ^ unat (bits l) = 2 ^ unat (bits r) * 2 ^ unat ?n"
    by (simp add: n mono flip: power_add)
  have "val r * 2 ^ unat ?n < 2 ^ unat (bits l)" unfolding bl using bits_upper by simp
  also have "\<dots> \<le> (2::nat) ^ width" using lw by simp
  finally have c: "val (shiftl r ?n) = val r * 2 ^ unat ?n" by (simp add: val_shiftl)
  have "unat ?n < width" using n lw rpos mono by linarith
  then have a: "val (shiftl one ?n) = 2 ^ unat ?n" by (simp add: val_shiftl val_one)
  have "val l < 2 ^ unat (bits l)" by (rule bits_upper)
  also have "\<dots> \<le> 2 * val r * 2 ^ unat ?n" unfolding bl using bits_lower [OF r] by simp
  finally have lt: "val l < val r * 2 ^ Suc (unat ?n)" by simp
  show ?thesis
  proof (cases "gt (shiftl r ?n) l")
    case False
    with st a c lt show ?thesis
      by (auto simp: div_start_def Let_def div_inv_def div_state_def val_clear)
  next
    case True
    then have less: "val l < val r * 2 ^ unat ?n" by (simp add: gt_iff c)
    with le obtain j where j: "unat ?n = Suc j" by (cases "unat ?n") auto
    from True st c a j have "val c = val r * 2 ^ j" "val a = 2 ^ j"
      by (auto simp: div_start_def Let_def val_shiftr1)
    with less j show ?thesis by (auto simp: div_inv_def div_state_def val_clear)
  qed
qed

text \<open>The loop stops with quotient and remainder when the divisor is not zero, and only then.\<close>

theorem div_loop:
  assumes r: "val r \<noteq> 0" and le: "val r \<le> val l" and st: "div_start l r = (c, a)"
  shows "\<exists>c' a' d m. while_option (\<lambda>(c, a, d, m). gte m r) div_body (c, a, clear, l) =
    Some (c', a', d, m) \<and> val d = val l div val r \<and> val m = val l mod val r"
proof -
  let ?s = "(c, a, clear, l)"
  from r le st have inv: "div_inv l r ?s" by (rule div_start_inv)
  then obtain t where t: "while_option (\<lambda>(c, a, d, m). gte m r) div_body ?s = Some t"
    using measure_while_option_Some [where P = "div_inv l r" and f = "\<lambda>(c, a, d, m). val a",
        OF div_body_inv] by blast
  obtain c' a' d m where tt: "t = (c', a', d, m)" by (cases t) auto
  have "div_inv l r t"
    using while_option_rule [where P = "div_inv l r", OF _ t inv] div_body_inv by blast
  moreover have "\<not> gte m r" using while_option_stop [OF t] by (simp add: tt)
  ultimately have "val d = val l div val r \<and> val m = val l mod val r"
    using div_state_done by (auto simp: tt div_inv_def gte_iff)
  with t tt show ?thesis by blast
qed

theorem div_loop_zero:
  assumes "val r = 0"
  shows "while_option (\<lambda>(c, a, d, m). gte m r) div_body s = None"
proof (rule ccontr)
  assume "\<not> ?thesis"
  then obtain t where "while_option (\<lambda>(c, a, d, m). gte m r) div_body s = Some t" by auto
  then have "\<not> (\<lambda>(c, a, d, m). gte m r) t" by (rule while_option_stop)
  with assms show False by (auto simp: gte_iff split: prod.splits)
qed

end

text \<open>
  The counting loops of \<open>bits128\<close> and \<open>bits256\<close>: halve until zero, adding one each time. Both
  widths are interpretations, by the loop's own equation.
\<close>

locale bit_counter =
  fixes val :: "'n \<Rightarrow> nat" and loop :: "'n \<Rightarrow> u32 \<Rightarrow> u32" and half :: "'n \<Rightarrow> 'n"
  assumes val_half: "val (half x) = val x div 2"
    and loop_zero: "val x = 0 \<Longrightarrow> loop x result = result"
    and loop_step: "val x \<noteq> 0 \<Longrightarrow> loop x result = loop (half x) (result + 1)"
begin

lemma loop_counts:
  assumes "unat result + k < 2 ^ 32" and "val x < 2 ^ k"
  shows "\<exists>n \<le> k. unat (loop x result) = unat result + n \<and> val x < 2 ^ n \<and>
    (val x \<noteq> 0 \<longrightarrow> 2 ^ n \<le> 2 * val x)"
  using assms
proof (induction "val x" arbitrary: x k result rule: less_induct)
  case less
  show ?case
  proof (cases "val x = 0")
    case True
    then show ?thesis by (simp add: loop_zero)
  next
    case False
    with less.prems(2) obtain j where j: "k = Suc j" by (cases k) auto
    have inc: "unat (result + 1) = unat result + 1"
      using less.prems(1) j by (simp add: unat_word_ariths)
    have "val (half x) < val x" "unat (result + 1) + j < 2 ^ 32" "val (half x) < 2 ^ j"
      using less.prems j False by (simp_all add: val_half inc)
    from less.hyps [OF this] obtain n where n: "n \<le> j"
        "unat (loop (half x) (result + 1)) = unat (result + 1) + n"
        "val x div 2 < 2 ^ n" "val x div 2 \<noteq> 0 \<longrightarrow> 2 ^ n \<le> 2 * (val x div 2)"
      unfolding val_half by blast
    have "2 ^ Suc n \<le> 2 * val x"
    proof (cases "val x div 2 = 0")
      case True
      then have "n = 0" using n(2) loop_zero [of "half x"] by (simp add: val_half)
      with False show ?thesis by simp
    next
      case False
      with n(4) have "2 ^ n \<le> 2 * (val x div 2)" by simp
      also have "\<dots> \<le> val x" by simp
      finally show ?thesis by simp
    qed
    moreover have "val x < 2 ^ Suc n" using n(3) by simp
    ultimately show ?thesis
      using n(1,2) j inc loop_step [OF False] by (intro exI [of _ "Suc n"]) simp
  qed
qed

end

end
