(* ===== verification/UInt128.thy ===== *)
theory UInt128
  imports Limbs BigintContract
begin

text \<open>
  The 128-bit half of \<open>helpers/uint256.c\<close>: the struct of two 64-bit limbs and its operations,
  each a function from the values read through the C pointers to the value written through
  \<open>target\<close>. The C calls some of them with \<open>target == number1\<close>; those calls are the \<open>_self\<close>
  definitions, which follow the order of the C assignments on the one struct. The last part
  shows that every operation computes on \<open>val128\<close> what its name says and interprets the
  division contract.
\<close>

section \<open>Definitions\<close>

text \<open>\<open>elements[0]\<close> is \<open>UPPER\<close> and \<open>elements[1]\<close> is \<open>LOWER\<close> in the macros of \<open>uint256.h\<close>.\<close>

datatype uint128_t = U128 (UPPER: u64) (LOWER: u64)

definition zero128 :: "uint128_t \<Rightarrow> bool" where
  "zero128 number \<longleftrightarrow> LOWER number = 0 \<and> UPPER number = 0"

definition copy128 :: "uint128_t \<Rightarrow> uint128_t" where
  "copy128 number = U128 (UPPER number) (LOWER number)"

definition clear128 :: uint128_t where
  "clear128 = U128 0 0"

definition shiftl128 :: "uint128_t \<Rightarrow> u32 \<Rightarrow> uint128_t" where
  "shiftl128 number value =
     (if value \<ge> 128 then clear128
      else if value = 64 then U128 (LOWER number) 0
      else if value = 0 then copy128 number
      else if value < 64 then
        U128 (push_bit (unat value) (UPPER number) + drop_bit (unat (64 - value)) (LOWER number))
          (push_bit (unat value) (LOWER number))
      else if 128 > value \<and> value > 64 then U128 (push_bit (unat (value - 64)) (LOWER number)) 0
      else clear128)"

definition shiftr128 :: "uint128_t \<Rightarrow> u32 \<Rightarrow> uint128_t" where
  "shiftr128 number value =
     (if value \<ge> 128 then clear128
      else if value = 64 then U128 0 (UPPER number)
      else if value = 0 then copy128 number
      else if value < 64 then
        U128 (drop_bit (unat value) (UPPER number))
          (push_bit (unat (64 - value)) (UPPER number) + drop_bit (unat value) (LOWER number))
      else if 128 > value \<and> value > 64 then U128 0 (drop_bit (unat (value - 64)) (UPPER number))
      else clear128)"

text \<open>
  \<open>shiftr128(&x, value, &x)\<close>: at 64 the upper limb is cleared before it is read for the lower
  one; below 64 a local \<open>result\<close> is filled first.
\<close>

definition shiftr128_self :: "uint128_t \<Rightarrow> u32 \<Rightarrow> uint128_t" where
  "shiftr128_self x value =
     (if value \<ge> 128 then clear128
      else if value = 64 then (let x = U128 0 (LOWER x) in U128 (UPPER x) (UPPER x))
      else if value = 0 then copy128 x
      else if value < 64 then
        (let result = U128 (drop_bit (unat value) (UPPER x))
           (push_bit (unat (64 - value)) (UPPER x) + drop_bit (unat value) (LOWER x))
         in copy128 result)
      else if 128 > value \<and> value > 64 then
        (let x = U128 (UPPER x) (drop_bit (unat (value - 64)) (UPPER x)) in U128 0 (LOWER x))
      else clear128)"

text \<open>The two \<open>while\<close> loops of \<open>bits128\<close>: \<open>up >>= 1; result++\<close> until \<open>up\<close> is zero.\<close>

function bits128_loop :: "u64 \<Rightarrow> u32 \<Rightarrow> u32" where
  "bits128_loop up result =
     (if up \<noteq> 0 then bits128_loop (drop_bit 1 up) (result + 1) else result)"
  by pat_completeness auto
termination
  by (relation "measure (\<lambda>(up, result). unat up)")
    (auto simp: unat_drop_bit_nat unat_gt_0 intro: div_less_dividend)

declare bits128_loop.simps [simp del]

definition bits128 :: "uint128_t \<Rightarrow> u32" where
  "bits128 number =
     (if UPPER number \<noteq> 0 then bits128_loop (UPPER number) 64
      else bits128_loop (LOWER number) 0)"

definition equal128 :: "uint128_t \<Rightarrow> uint128_t \<Rightarrow> bool" where
  "equal128 number1 number2 \<longleftrightarrow>
     UPPER number1 = UPPER number2 \<and> LOWER number1 = LOWER number2"

definition gt128 :: "uint128_t \<Rightarrow> uint128_t \<Rightarrow> bool" where
  "gt128 number1 number2 =
     (if UPPER number1 = UPPER number2 then LOWER number1 > LOWER number2
      else UPPER number1 > UPPER number2)"

definition gte128 :: "uint128_t \<Rightarrow> uint128_t \<Rightarrow> bool" where
  "gte128 number1 number2 \<longleftrightarrow> gt128 number1 number2 \<or> equal128 number1 number2"

definition add128 :: "uint128_t \<Rightarrow> uint128_t \<Rightarrow> uint128_t" where
  "add128 number1 number2 =
     U128 (UPPER number1 + UPPER number2 +
        of_bool (LOWER number1 + LOWER number2 < LOWER number1))
       (LOWER number1 + LOWER number2)"

definition minus128 :: "uint128_t \<Rightarrow> uint128_t \<Rightarrow> uint128_t" where
  "minus128 number1 number2 =
     U128 (UPPER number1 - UPPER number2 -
        of_bool (LOWER number1 - LOWER number2 > LOWER number1))
       (LOWER number1 - LOWER number2)"

definition or128 :: "uint128_t \<Rightarrow> uint128_t \<Rightarrow> uint128_t" where
  "or128 number1 number2 =
     U128 (UPPER number1 OR UPPER number2) (LOWER number1 OR LOWER number2)"

text \<open>In place on \<open>number1\<close>: the upper limb is stored before the lower limb is computed.\<close>

definition add128_self :: "uint128_t \<Rightarrow> uint128_t \<Rightarrow> uint128_t" where
  "add128_self x number2 =
     (let x = U128 (UPPER x + UPPER number2 + of_bool (LOWER x + LOWER number2 < LOWER x)) (LOWER x)
      in U128 (UPPER x) (LOWER x + LOWER number2))"

definition minus128_self :: "uint128_t \<Rightarrow> uint128_t \<Rightarrow> uint128_t" where
  "minus128_self x number2 =
     (let x = U128 (UPPER x - UPPER number2 - of_bool (LOWER x - LOWER number2 > LOWER x)) (LOWER x)
      in U128 (UPPER x) (LOWER x - LOWER number2))"

definition or128_self :: "uint128_t \<Rightarrow> uint128_t \<Rightarrow> uint128_t" where
  "or128_self x number2 =
     (let x = U128 (UPPER x OR UPPER number2) (LOWER x) in U128 (UPPER x) (LOWER x OR LOWER number2))"

text \<open>
  Schoolbook product of four 32-bit limbs, most significant first as in the C arrays; the limb
  product \<open>products[i][y]\<close> is \<open>top[3 - i] * bottom[y]\<close>.
\<close>

definition mul128 :: "uint128_t \<Rightarrow> uint128_t \<Rightarrow> uint128_t" where
  "mul128 number1 number2 =
    (let top = [drop_bit 32 (UPPER number1), UPPER number1 AND 0xffffffff,
                drop_bit 32 (LOWER number1), LOWER number1 AND 0xffffffff];
         bottom = [drop_bit 32 (UPPER number2), UPPER number2 AND 0xffffffff,
                drop_bit 32 (LOWER number2), LOWER number2 AND 0xffffffff];
         products = (\<lambda>i y. top ! (3 - i) * bottom ! y);
         fourth32 = products 0 3 AND 0xffffffff;
         third32 = (products 0 2 AND 0xffffffff) + drop_bit 32 (products 0 3);
         second32 = (products 0 1 AND 0xffffffff) + drop_bit 32 (products 0 2);
         first32 = (products 0 0 AND 0xffffffff) + drop_bit 32 (products 0 1);
         third32 = third32 + (products 1 3 AND 0xffffffff);
         second32 = second32 + ((products 1 2 AND 0xffffffff) + drop_bit 32 (products 1 3));
         first32 = first32 + ((products 1 1 AND 0xffffffff) + drop_bit 32 (products 1 2));
         second32 = second32 + (products 2 3 AND 0xffffffff);
         first32 = first32 + ((products 2 2 AND 0xffffffff) + drop_bit 32 (products 2 3));
         first32 = first32 + (products 3 3 AND 0xffffffff);
         tmp = U128 (push_bit 32 first32) 0;
         tmp2 = U128 (drop_bit 32 third32) (push_bit 32 third32);
         target = add128 tmp tmp2;
         tmp = U128 second32 0;
         tmp2 = add128 tmp target;
         tmp = U128 0 fourth32
     in add128 tmp tmp2)"

text \<open>
  \<open>divmod128\<close>: the state of the \<open>while\<close> loop is \<open>copyd\<close>, \<open>adder\<close>, \<open>resDiv\<close> and \<open>resMod\<close>. The
  loop runs while \<open>resMod >= r\<close>, forever when \<open>r\<close> is zero: \<open>None\<close>. The pair is \<open>retDiv\<close> and
  \<open>retMod\<close>.
\<close>

definition divmod128_body ::
    "uint128_t \<times> uint128_t \<times> uint128_t \<times> uint128_t \<Rightarrow>
     uint128_t \<times> uint128_t \<times> uint128_t \<times> uint128_t" where
  "divmod128_body = (\<lambda>(copyd, adder, resDiv, resMod).
     let (resDiv, resMod) =
       (if gte128 resMod copyd
        then (or128_self resDiv adder, minus128_self resMod copyd) else (resDiv, resMod))
     in (shiftr128_self copyd 1, shiftr128_self adder 1, resDiv, resMod))"

definition divmod128 :: "uint128_t \<Rightarrow> uint128_t \<Rightarrow> (uint128_t \<times> uint128_t) option" where
  "divmod128 l r =
    (let one = U128 0 1;
         diffBits = bits128 l - bits128 r;
         resDiv = clear128;
         resMod = copy128 l
     in if gt128 r l then Some (clear128, copy128 l)
        else
          let copyd = shiftl128 r diffBits;
              adder = shiftl128 one diffBits;
              (copyd, adder) =
                (if gt128 copyd resMod then (shiftr128_self copyd 1, shiftr128_self adder 1)
                 else (copyd, adder))
          in map_option (\<lambda>(copyd, adder, resDiv, resMod). (copy128 resDiv, copy128 resMod))
               (while_option (\<lambda>(copyd, adder, resDiv, resMod). gte128 resMod r) divmod128_body
                  (copyd, adder, resDiv, resMod)))"

section \<open>The value of a pair of limbs\<close>

definition val128 :: "uint128_t \<Rightarrow> nat" where
  "val128 x = unat (UPPER x) * 2 ^ 64 + unat (LOWER x)"

lemma u64_less: "unat (w::u64) < 2 ^ 64"
  using u64_bound [of w] by simp

lemma val128_U128: "val128 (U128 u l) = unat u * 2 ^ 64 + unat l"
  by (simp add: val128_def)

lemma val128_less: "val128 x < 2 ^ 128"
  using limbs_less [of "unat (UPPER x)" "2 ^ 64" "unat (LOWER x)"] u64_less [of "UPPER x"] u64_less [of "LOWER x"]
  by (simp add: val128_def)

lemma val128_inj: "val128 x = val128 y \<longleftrightarrow> x = y"
proof
  assume "val128 x = val128 y"
  then show "x = y"
    using limbs_inj [OF u64_less u64_less] unfolding val128_def
    by (metis uint128_t.expand word_unat_eq_iff)
qed simp

lemma val128_zero: "zero128 x \<longleftrightarrow> val128 x = 0"
  by (auto simp: zero128_def val128_def unat_eq_zero)

lemma val128_clear [simp]: "val128 clear128 = 0"
  by (simp add: clear128_def val128_def)

lemma copy128_id [simp]: "copy128 x = x"
  by (simp add: copy128_def)

lemma equal128_iff: "equal128 x y \<longleftrightarrow> x = y"
  by (auto simp: equal128_def uint128_t.expand)

lemma gt128_iff: "gt128 x y \<longleftrightarrow> val128 y < val128 x"
  unfolding val128_def limbs_less_iff [OF u64_less u64_less]
  by (auto simp: gt128_def word_less_nat_alt word_unat_eq_iff)

lemma gte128_iff: "gte128 x y \<longleftrightarrow> val128 y \<le> val128 x"
  using val128_inj [of x y] by (auto simp: gte128_def gt128_iff equal128_iff)

text \<open>The comparisons of the code order the values linearly.\<close>

instantiation uint128_t :: linorder
begin

definition less_eq_uint128_t :: "uint128_t \<Rightarrow> uint128_t \<Rightarrow> bool" where
  "less_eq_uint128_t x y \<longleftrightarrow> gte128 y x"

definition less_uint128_t :: "uint128_t \<Rightarrow> uint128_t \<Rightarrow> bool" where
  "less_uint128_t x y \<longleftrightarrow> gt128 y x"

instance
  by standard
    (auto simp: less_eq_uint128_t_def less_uint128_t_def gt128_iff gte128_iff val128_inj)

end

lemma carry_iff: "(a + b < (a::u64)) \<longleftrightarrow> 2 ^ 64 \<le> unat a + unat b"
  using u64_less [of a] u64_less [of b]
  by (cases "unat a + unat b < 2 ^ 64") (auto simp: word_less_nat_alt unat_plus_if_size word_size)

lemma val128_add: "val128 (add128 x y) = (val128 x + val128 y) mod 2 ^ 128"
proof -
  have "val128 (add128 x y) =
      (unat (UPPER x) + unat (UPPER y) + of_bool (2 ^ 64 \<le> unat (LOWER x) + unat (LOWER y)))
        mod 2 ^ 64 * 2 ^ 64 + (unat (LOWER x) + unat (LOWER y)) mod 2 ^ 64"
    by (simp add: add128_def val128_U128 carry_iff unat_word_ariths mod_simps)
  also have "\<dots> = (val128 x + val128 y) mod (2 ^ 64 * 2 ^ 64)"
    unfolding val128_def by (rule limbs_add) (rule u64_less)+
  finally show ?thesis by simp
qed

lemma borrow_iff: "(a - b > (a::u64)) \<longleftrightarrow> unat a < unat b"
  using u64_less [of a] u64_less [of b]
  by (cases "unat b \<le> unat a") (auto simp: word_less_nat_alt unat_sub_if_size word_size)

lemma val128_minus:
  "int (val128 (minus128 x y)) = (int (val128 x) - int (val128 y)) mod 2 ^ 128"
proof -
  have "int (val128 (minus128 x y)) =
      (uint (UPPER x) - uint (UPPER y) - of_bool (uint (LOWER x) < uint (LOWER y))) mod 2 ^ 64
        * 2 ^ 64 + (uint (LOWER x) - uint (LOWER y)) mod 2 ^ 64"
  proof -
    have b: "(LOWER x - LOWER y > LOWER x) \<longleftrightarrow> uint (LOWER x) < uint (LOWER y)"
      by (simp only: borrow_iff flip: word_less_nat_alt) (simp add: word_less_def)
    have u: "uint (UPPER x - UPPER y - of_bool (uint (LOWER x) < uint (LOWER y))) =
        (uint (UPPER x) - uint (UPPER y) - of_bool (uint (LOWER x) < uint (LOWER y))) mod 2 ^ 64"
      by (simp add: uint_word_ariths mod_simps)
    have l: "uint (LOWER x - LOWER y) = (uint (LOWER x) - uint (LOWER y)) mod 2 ^ 64"
      by (simp add: uint_word_ariths)
    have "int (val128 (minus128 x y)) =
        uint (UPPER x - UPPER y - of_bool (uint (LOWER x) < uint (LOWER y))) * 2 ^ 64
        + uint (LOWER x - LOWER y)"
      by (simp only: minus128_def val128_U128 b of_nat_add of_nat_mult of_nat_power
          of_nat_numeral of_nat_unat)
    then show ?thesis by (simp only: u l)
  qed
  also have "\<dots> = (uint (UPPER x) * 2 ^ 64 + uint (LOWER x) -
      (uint (UPPER y) * 2 ^ 64 + uint (LOWER y))) mod (2 ^ 64 * 2 ^ 64)"
    using uint_lt2p [of "LOWER x"] uint_lt2p [of "LOWER y"] by (intro limbs_minus) simp_all
  finally show ?thesis by (simp add: val128_def)
qed

lemma val128_minus_le:
  assumes "val128 y \<le> val128 x"
  shows "val128 (minus128 x y) = val128 x - val128 y"
proof -
  have "int (val128 (minus128 x y)) = int (val128 x) - int (val128 y)"
    using assms val128_less [of x] unfolding val128_minus by (intro mod_pos_pos_trivial) auto
  then show ?thesis using assms by simp
qed

lemma val128_or: "val128 (or128 x y) = (val128 x OR val128 y)"
  unfolding val128_def limbs_or(1) [OF u64_less u64_less]
  by (simp add: or128_def unsigned_or_eq)

text \<open>Shifts multiply and divide by powers of two, for every amount.\<close>

lemma u32_le_iff: "(v::u32) \<ge> 128 \<longleftrightarrow> 128 \<le> unat v" "v = 64 \<longleftrightarrow> unat v = 64"
    "v = 0 \<longleftrightarrow> unat v = 0" "v < 64 \<longleftrightarrow> unat v < 64" "128 > v \<longleftrightarrow> unat v < 128" "v > 64 \<longleftrightarrow> 64 < unat v"
  by (simp_all add: word_le_nat_alt word_less_nat_alt word_unat_eq_iff)

lemma u32_minus_unat:
  "unat v \<le> 64 \<Longrightarrow> unat (64 - v :: u32) = 64 - unat v"
  "64 \<le> unat v \<Longrightarrow> unat (v - 64 :: u32) = unat v - 64"
  by (simp_all add: unat_sub word_le_nat_alt)

lemma val128_shiftl: "val128 (shiftl128 x v) = val128 x * 2 ^ unat v mod 2 ^ 128"
proof -
  let ?h = "unat (UPPER x)" and ?l = "unat (LOWER x)"
  consider "128 \<le> unat v" | "64 \<le> unat v" "unat v < 128" | "0 < unat v" "unat v < 64" | "v = 0"
    by (metis linorder_not_less unat_eq_zero gr0I)
  then show ?thesis
  proof cases
    case 1
    then have "(2::nat) ^ 128 dvd val128 x * 2 ^ unat v" by (intro dvd_mult le_imp_power_dvd)
    with 1 show ?thesis by (simp add: shiftl128_def u32_le_iff)
  next
    case 2
    then have "val128 (shiftl128 x v) = (?l * 2 ^ (unat v - 64)) mod 2 ^ 64 * 2 ^ 64"
      using u64_bound [of "LOWER x"] by (auto simp: shiftl128_def u32_le_iff u32_minus_unat val128_U128 unat_ops)
    also have "\<dots> = val128 x * 2 ^ unat v mod (2 ^ 64 * 2 ^ 64)"
      unfolding val128_def using 2 by (intro limbs_shiftl_far)
    finally show ?thesis by simp
  next
    case 3
    then have "val128 (shiftl128 x v) =
        ((?h * 2 ^ unat v) mod 2 ^ 64 + ?l div 2 ^ (64 - unat v)) mod 2 ^ 64 * 2 ^ 64
          + (?l * 2 ^ unat v) mod 2 ^ 64"
      by (simp add: shiftl128_def u32_le_iff u32_minus_unat val128_U128 unat_ops unat_word_ariths)
    also have "\<dots> = val128 x * 2 ^ unat v mod (2 ^ 64 * 2 ^ 64)"
      unfolding val128_def using 3 u64_less by (intro limbs_shiftl) auto
    finally show ?thesis by simp
  next
    case 4
    then show ?thesis using val128_less [of x] by (simp add: shiftl128_def)
  qed
qed

lemma val128_shiftr: "val128 (shiftr128 x v) = val128 x div 2 ^ unat v"
proof -
  let ?h = "unat (UPPER x)" and ?l = "unat (LOWER x)"
  consider "128 \<le> unat v" | "64 \<le> unat v" "unat v < 128" | "0 < unat v" "unat v < 64" | "v = 0"
    by (metis linorder_not_less unat_eq_zero gr0I)
  then show ?thesis
  proof cases
    case 1
    then have "val128 x < 2 ^ unat v"
      using val128_less [of x] power_increasing [OF 1, of "2::nat"] by simp
    with 1 show ?thesis by (simp add: shiftr128_def u32_le_iff)
  next
    case 2
    then have "val128 (shiftr128 x v) = ?h div 2 ^ (unat v - 64)"
      by (auto simp: shiftr128_def u32_le_iff u32_minus_unat val128_U128 unat_ops)
    also have "\<dots> = val128 x div 2 ^ unat v"
      unfolding val128_def using 2 u64_less by (intro limbs_shiftr_far)
    finally show ?thesis .
  next
    case 3
    then have "val128 (shiftr128 x v) = ?h div 2 ^ unat v * 2 ^ 64 +
        ((?h * 2 ^ (64 - unat v)) mod 2 ^ 64 + ?l div 2 ^ unat v) mod 2 ^ 64"
      by (simp add: shiftr128_def u32_le_iff u32_minus_unat val128_U128 unat_ops unat_word_ariths)
    also have "\<dots> = val128 x div 2 ^ unat v"
      unfolding val128_def using 3 u64_less by (intro limbs_shiftr) auto
    finally show ?thesis .
  next
    case 4
    then show ?thesis by (simp add: shiftr128_def)
  qed
qed

section \<open>In-place calls\<close>

text \<open>
  Storing the upper limb first does no harm to addition, subtraction and disjunction. A right
  shift in place is right except at 64, where it loses the number; the code only shifts in
  place by 1.
\<close>

lemma add128_self_eq: "add128_self x y = add128 x y"
  by (simp add: add128_self_def add128_def Let_def)

lemma minus128_self_eq: "minus128_self x y = minus128 x y"
  by (simp add: minus128_self_def minus128_def Let_def)

lemma or128_self_eq: "or128_self x y = or128 x y"
  by (simp add: or128_self_def or128_def Let_def)

lemma shiftr128_self_eq: "v \<noteq> 64 \<Longrightarrow> shiftr128_self x v = shiftr128 x v"
  by (simp add: shiftr128_self_def shiftr128_def Let_def)

lemma shiftr128_self_64: "shiftr128_self x 64 = clear128"
  by (simp add: shiftr128_self_def clear128_def)

lemmas self128 = add128_self_eq minus128_self_eq or128_self_eq shiftr128_self_eq

section \<open>Number of bits, product, quotient\<close>

interpretation count128: bit_counter "unat :: u64 \<Rightarrow> nat" bits128_loop "drop_bit 1"
proof
  fix x :: u64 and result :: u32
  show "unat (drop_bit 1 x) = unat x div 2" by (simp add: unat_drop_bit_nat)
  show "unat x = 0 \<Longrightarrow> bits128_loop x result = result"
    by (simp add: bits128_loop.simps unat_eq_zero)
  show "unat x \<noteq> 0 \<Longrightarrow> bits128_loop x result = bits128_loop (drop_bit 1 x) (result + 1)"
    by (subst bits128_loop.simps) (auto simp: unat_eq_zero)
qed

lemma bits128_bounds:
  "val128 x < 2 ^ unat (bits128 x)"
  "val128 x \<noteq> 0 \<Longrightarrow> 2 ^ unat (bits128 x) \<le> 2 * val128 x"
proof -
  have "val128 x < 2 ^ unat (bits128 x) \<and> (val128 x \<noteq> 0 \<longrightarrow> 2 ^ unat (bits128 x) \<le> 2 * val128 x)"
  proof (cases "UPPER x = 0")
    case True
    obtain n where "unat (bits128_loop (LOWER x) 0) = n" "unat (LOWER x) < 2 ^ n"
        "unat (LOWER x) \<noteq> 0 \<longrightarrow> 2 ^ n \<le> 2 * unat (LOWER x)"
      using count128.loop_counts [of 0 64 "LOWER x"] u64_less by auto
    with True show ?thesis by (simp add: bits128_def val128_def unat_eq_zero)
  next
    case False
    obtain n where n: "unat (bits128_loop (UPPER x) 64) = 64 + n" "unat (UPPER x) < 2 ^ n"
        "2 ^ n \<le> 2 * unat (UPPER x)"
      using count128.loop_counts [of 64 64 "UPPER x"] u64_less False
      by (auto simp: unat_eq_zero)
    have "(unat (UPPER x) + 1) * 2 ^ 64 \<le> 2 ^ n * 2 ^ 64"
      using n(2) by (intro mult_le_mono1) simp
    then have "val128 x < 2 ^ (64 + n)"
      using u64_less [of "LOWER x"] by (simp add: val128_def power_add)
    moreover have "2 ^ (64 + n) \<le> 2 * val128 x"
      using n(3) by (simp add: val128_def power_add)
    ultimately show ?thesis using False n(1) by (simp add: bits128_def)
  qed
  then show "val128 x < 2 ^ unat (bits128 x)"
    and "val128 x \<noteq> 0 \<Longrightarrow> 2 ^ unat (bits128 x) \<le> 2 * val128 x" by auto
qed

interpretation n128: bigint val128 128 clear128 "U128 0 1" shiftl128 shiftr128_self
    minus128_self or128_self gt128 gte128 bits128
  by unfold_locales
    (simp_all add: val128_less [simplified] val128_U128 val128_shiftl val128_shiftr self128 val128_minus_le
      val128_or gt128_iff gte128_iff bits128_bounds)

lemma divmod128_zero:
  assumes "val128 r = 0"
  shows "divmod128 l r = None"
proof -
  have "divmod128_body = n128.div_body"
    by (simp add: divmod128_body_def n128.div_body_def fun_eq_iff)
  with assms n128.div_loop_zero show ?thesis
    by (simp add: divmod128_def gt128_iff Let_def split: prod.split)
qed

lemma divmod128_val:
  assumes "val128 r \<noteq> 0"
  shows "\<exists>q m. divmod128 l r = Some (q, m) \<and>
    val128 q = val128 l div val128 r \<and> val128 m = val128 l mod val128 r"
proof (cases "gt128 r l")
  case True
  then show ?thesis by (simp add: divmod128_def gt128_iff)
next
  case False
  have body: "divmod128_body = n128.div_body"
    by (simp add: divmod128_body_def n128.div_body_def fun_eq_iff)
  obtain c a where st: "n128.div_start l r = (c, a)" by fastforce
  from n128.div_loop [OF assms _ st] False show ?thesis
    using st by (auto simp: divmod128_def body n128.div_start_def gt128_iff Let_def
        split: if_splits prod.splits)
qed

text \<open>The product: the columns of the schoolbook lemma, computed without overflow on words.\<close>

lemma unat_low32: "unat (w AND 0xffffffff :: u64) = unat w mod 2 ^ 32"
proof -
  have "(0xffffffff :: u64) = mask 32" by (simp add: mask_eq_exp_minus_1)
  then show ?thesis by (simp only: unat_mask_nat)
qed

lemma unat_high32: "unat (drop_bit 32 w :: u64) = unat w div 2 ^ 32"
  by (rule unat_drop_bit_nat)

lemma unat_limb_product:
  assumes "unat (a::u64) < 2 ^ 32" "unat (b::u64) < 2 ^ 32"
  shows "unat (a * b) = unat a * unat b"
proof -
  have "unat a * unat b \<le> (2 ^ 32 - 1) * (2 ^ 32 - 1)"
    using assms by (intro mult_le_mono) simp_all
  then show ?thesis by (simp add: unat_word_ariths)
qed

lemma low32_less: "unat (w AND 0xffffffff :: u64) < 2 ^ 32"
  by (simp add: unat_low32)

lemma high32_less: "unat (drop_bit 32 w :: u64) < 2 ^ 32"
  using u64_bound [of w] by (simp add: unat_high32 less_mult_imp_div_less)

text \<open>The three last additions of \<open>mul128\<close>, for any column sums.\<close>

lemma mul128_assemble:
  "val128 (add128 (U128 0 fourth) (add128 (U128 second 0)
      (add128 (U128 (push_bit 32 first) 0) (U128 (drop_bit 32 third) (push_bit 32 third))))) =
   limbs4 (2 ^ 32) (unat first) (unat second) (unat third) (unat fourth) mod 2 ^ 128"
proof -
  have "(2::nat) ^ 64 = 2 ^ 32 * 2 ^ 32" by simp
  then have t: "unat third div 2 ^ 32 * 2 ^ 64 + unat third * 2 ^ 32 mod 2 ^ 64 = unat third * 2 ^ 32"
    by (metis (no_types, lifting) div_mult_mod_eq div_mult_mult2 power_not_zero zero_neq_numeral)
  have f: "unat first * 2 ^ 32 mod 2 ^ 64 * 2 ^ 64 = unat first * (2 ^ 32) ^ 3 mod (2::nat) ^ 128"
    by (simp add: mod_mult_mult2 [of _ "2 ^ 64" "2 ^ 64", simplified, symmetric] mult.assoc)
  have "val128 (add128 (U128 0 fourth) (add128 (U128 second 0)
      (add128 (U128 (push_bit 32 first) 0) (U128 (drop_bit 32 third) (push_bit 32 third))))) =
    (unat fourth + (unat second * 2 ^ 64 + (unat first * 2 ^ 32 mod 2 ^ 64 * 2 ^ 64 +
      (unat third div 2 ^ 32 * 2 ^ 64 + unat third * 2 ^ 32 mod 2 ^ 64)))) mod 2 ^ 128"
    by (simp add: val128_add val128_U128 unat_ops mod_simps)
  also have "\<dots> = (unat fourth + (unat second * 2 ^ 64 + (unat first * (2 ^ 32) ^ 3 +
      unat third * 2 ^ 32))) mod 2 ^ 128"
    unfolding t f
    by (rule mod_add_inner)
  finally show ?thesis by (simp add: limbs4_def add.commute add.left_commute)
qed

lemma val128_limbs4:
  "val128 x = limbs4 (2 ^ 32) (unat (drop_bit 32 (UPPER x))) (unat (UPPER x AND 0xffffffff))
     (unat (drop_bit 32 (LOWER x))) (unat (LOWER x AND 0xffffffff))"
proof -
  have "unat w = unat (drop_bit 32 w) * 2 ^ 32 + unat (w AND 0xffffffff)" for w :: u64
    by (simp add: unat_low32 unat_high32)
  from this [of "UPPER x"] this [of "LOWER x"] show ?thesis
    by (simp add: val128_def limbs4_def)
qed

lemma val128_mul: "val128 (mul128 x y) = val128 x * val128 y mod 2 ^ 128"
proof -
  let ?a0 = "drop_bit 32 (UPPER x)" and ?a1 = "UPPER x AND 0xffffffff"
    and ?a2 = "drop_bit 32 (LOWER x)" and ?a3 = "LOWER x AND 0xffffffff"
  let ?b0 = "drop_bit 32 (UPPER y)" and ?b1 = "UPPER y AND 0xffffffff"
    and ?b2 = "drop_bit 32 (LOWER y)" and ?b3 = "LOWER y AND 0xffffffff"
  define lo hi where "lo = (\<lambda>p::u64. p AND 0xffffffff)" and "hi = (\<lambda>p::u64. drop_bit 32 p)"
  have lo: "unat (lo w) < 4294967296" and hi: "unat (hi w) < 4294967296" for w
    using low32_less [of w] high32_less [of w] by (simp_all add: lo_def hi_def)
  have lov: "unat (lo w) = unat w mod 2 ^ 32" and hiv: "unat (hi w) = unat w div 2 ^ 32" for w
    by (simp_all add: lo_def hi_def unat_low32 unat_high32)
  let ?first = "lo (?a3 * ?b0) + hi (?a3 * ?b1) + (lo (?a2 * ?b1) + hi (?a2 * ?b2)) +
      (lo (?a1 * ?b2) + hi (?a1 * ?b3)) + lo (?a0 * ?b3)"
  let ?second = "lo (?a3 * ?b1) + hi (?a3 * ?b2) + (lo (?a2 * ?b2) + hi (?a2 * ?b3)) + lo (?a1 * ?b3)"
  let ?third = "lo (?a3 * ?b2) + hi (?a3 * ?b3) + lo (?a2 * ?b3)"
  have sum3: "unat (p + q + r) = unat p + unat q + unat r"
    if "unat p < 4294967296" "unat q < 4294967296" "unat r < 4294967296" for p q r :: u64
    using that by (simp add: unat_word_ariths mod_simps)
  have sum5: "unat (p + q + (r + s) + t) = unat p + unat q + (unat r + unat s) + unat t"
    if "unat p < 4294967296" "unat q < 4294967296" "unat r < 4294967296" "unat s < 4294967296"
      "unat t < 4294967296" for p q r s t :: u64
    using that by (simp add: unat_word_ariths mod_simps)
  have sum7: "unat (p + q + (r + s) + (t + u) + v) =
      unat p + unat q + (unat r + unat s) + (unat t + unat u) + unat v"
    if "unat p < 4294967296" "unat q < 4294967296" "unat r < 4294967296" "unat s < 4294967296"
      "unat t < 4294967296" "unat u < 4294967296" "unat v < 4294967296" for p q r s t u v :: u64
    using that by (simp add: unat_word_ariths mod_simps)
  have "mul128 x y = add128 (U128 0 (lo (?a3 * ?b3))) (add128 (U128 ?second 0)
      (add128 (U128 (push_bit 32 ?first) 0) (U128 (drop_bit 32 ?third) (push_bit 32 ?third))))"
    by (simp add: mul128_def Let_def lo_def hi_def add.assoc)
  then have "val128 (mul128 x y) =
      limbs4 (2 ^ 32) (unat ?first) (unat ?second) (unat ?third) (unat (lo (?a3 * ?b3))) mod 2 ^ 128"
    by (simp only: mul128_assemble)
  also have "\<dots> = val128 x * val128 y mod (2 ^ 32) ^ 4"
    unfolding val128_limbs4 [of x] val128_limbs4 [of y]
      sum3 [OF lo hi lo] sum5 [OF lo hi lo hi lo] sum7 [OF lo hi lo hi lo hi lo] lov hiv
    by (simp only: unat_limb_product low32_less high32_less flip: schoolbook) simp
  finally show ?thesis by simp
qed

section \<open>Properties\<close>

text \<open>
  \<open>mul128\<close> is multiplication modulo \<open>2 ^ 128\<close>, for all operands: none of the carries of its
  32-bit schoolbook columns is lost.
\<close>

lemma mul128_exact: "val128 (mul128 x y) = val128 x * val128 y mod 2 ^ 128"
  by (rule val128_mul)

text \<open>
  \<open>shiftr128\<close> with \<open>target == number\<close> computes what it computes with separate operands, except
  for a shift by 64 of a number with a non-zero upper limb: there the upper limb is cleared before
  it is copied down, and the result is zero instead of the upper limb.
\<close>

lemma shiftr128_aliased:
  "shiftr128_self x v = (if v = 64 then clear128 else shiftr128 x v) \<and>
   val128 (shiftr128 x v) = val128 x div 2 ^ unat v"
  by (simp add: shiftr128_self_eq shiftr128_self_64 val128_shiftr)

end
