(* ===== verification/UInt256.thy ===== *)
theory UInt256
  imports UInt128
begin

text \<open>
  The 256-bit half of \<open>helpers/uint256.c\<close>: two 128-bit limbs. As in \<open>UInt128\<close>, the \<open>_self\<close>
  definitions are the calls the C makes with \<open>target == number1\<close>. The product carries the one
  wrong line of the C text; what it computes is stated exactly in the last part.
\<close>

section \<open>Definitions\<close>

datatype uint256_t = U256 (UPPER256: uint128_t) (LOWER256: uint128_t)

definition zero256 :: "uint256_t \<Rightarrow> bool" where
  "zero256 number \<longleftrightarrow> zero128 (LOWER256 number) \<and> zero128 (UPPER256 number)"

definition copy256 :: "uint256_t \<Rightarrow> uint256_t" where
  "copy256 number = U256 (copy128 (UPPER256 number)) (copy128 (LOWER256 number))"

definition clear256 :: uint256_t where
  "clear256 = U256 clear128 clear128"

definition shiftl256 :: "uint256_t \<Rightarrow> u32 \<Rightarrow> uint256_t" where
  "shiftl256 number value =
     (if value \<ge> 256 then clear256
      else if value = 128 then U256 (copy128 (LOWER256 number)) clear128
      else if value = 0 then copy256 number
      else if value < 128 then
        (let tmp1 = shiftl128 (UPPER256 number) value;
             tmp2 = shiftr128 (LOWER256 number) (128 - value);
             result = U256 (add128 tmp1 tmp2) (shiftl128 (LOWER256 number) value)
         in copy256 result)
      else if 256 > value \<and> value > 128 then
        U256 (shiftl128 (LOWER256 number) (value - 128)) clear128
      else clear256)"

definition shiftr256 :: "uint256_t \<Rightarrow> u32 \<Rightarrow> uint256_t" where
  "shiftr256 number value =
     (if value \<ge> 256 then clear256
      else if value = 128 then U256 clear128 (copy128 (UPPER256 number))
      else if value = 0 then copy256 number
      else if value < 128 then
        (let tmp1 = shiftr128 (LOWER256 number) value;
             tmp2 = shiftl128 (UPPER256 number) (128 - value);
             result = U256 (shiftr128 (UPPER256 number) value) (add128 tmp1 tmp2)
         in copy256 result)
      else if 256 > value \<and> value > 128 then
        U256 clear128 (shiftr128 (UPPER256 number) (value - 128))
      else clear256)"

text \<open>
  In place. Above 128 the lower limb is stored first, from the upper one; at 128 the lower limb
  is a copy of the upper one before that is cleared; below 128 a local \<open>result\<close> is filled.
\<close>

definition shiftr256_self :: "uint256_t \<Rightarrow> u32 \<Rightarrow> uint256_t" where
  "shiftr256_self x value =
     (if value \<ge> 256 then clear256
      else if value = 128 then
        (let x = U256 (UPPER256 x) (copy128 (UPPER256 x)) in U256 clear128 (LOWER256 x))
      else if value = 0 then copy256 x
      else if value < 128 then
        (let tmp1 = shiftr128 (LOWER256 x) value;
             tmp2 = shiftl128 (UPPER256 x) (128 - value);
             result = U256 (shiftr128 (UPPER256 x) value) (add128 tmp1 tmp2)
         in copy256 result)
      else if 256 > value \<and> value > 128 then
        (let x = U256 (UPPER256 x) (shiftr128 (UPPER256 x) (value - 128)) in U256 clear128 (LOWER256 x))
      else clear256)"

function bits256_loop :: "uint128_t \<Rightarrow> u32 \<Rightarrow> u32" where
  "bits256_loop up result =
     (if \<not> zero128 up then bits256_loop (shiftr128_self up 1) (result + 1) else result)"
  by pat_completeness auto
termination
  by (relation "measure (\<lambda>(up, result). val128 up)")
    (auto simp: self128 val128_shiftr val128_zero intro: div_less_dividend)

declare bits256_loop.simps [simp del]

definition bits256 :: "uint256_t \<Rightarrow> u32" where
  "bits256 number =
     (if \<not> zero128 (UPPER256 number) then bits256_loop (copy128 (UPPER256 number)) 128
      else bits256_loop (copy128 (LOWER256 number)) 0)"

definition equal256 :: "uint256_t \<Rightarrow> uint256_t \<Rightarrow> bool" where
  "equal256 number1 number2 \<longleftrightarrow>
     equal128 (UPPER256 number1) (UPPER256 number2) \<and> equal128 (LOWER256 number1) (LOWER256 number2)"

definition gt256 :: "uint256_t \<Rightarrow> uint256_t \<Rightarrow> bool" where
  "gt256 number1 number2 =
     (if equal128 (UPPER256 number1) (UPPER256 number2)
      then gt128 (LOWER256 number1) (LOWER256 number2)
      else gt128 (UPPER256 number1) (UPPER256 number2))"

definition gte256 :: "uint256_t \<Rightarrow> uint256_t \<Rightarrow> bool" where
  "gte256 number1 number2 \<longleftrightarrow> gt256 number1 number2 \<or> equal256 number1 number2"

definition add256 :: "uint256_t \<Rightarrow> uint256_t \<Rightarrow> uint256_t" where
  "add256 number1 number2 =
     (let upper = add128 (UPPER256 number1) (UPPER256 number2);
          tmp = add128 (LOWER256 number1) (LOWER256 number2);
          one = U128 0 1;
          upper = (if gt128 (LOWER256 number1) tmp then add128_self upper one else upper)
      in U256 upper (add128 (LOWER256 number1) (LOWER256 number2)))"

definition minus256 :: "uint256_t \<Rightarrow> uint256_t \<Rightarrow> uint256_t" where
  "minus256 number1 number2 =
     (let upper = minus128 (UPPER256 number1) (UPPER256 number2);
          tmp = minus128 (LOWER256 number1) (LOWER256 number2);
          one = U128 0 1;
          upper = (if gt128 tmp (LOWER256 number1) then minus128_self upper one else upper)
      in U256 upper (minus128 (LOWER256 number1) (LOWER256 number2)))"

definition minus256_self :: "uint256_t \<Rightarrow> uint256_t \<Rightarrow> uint256_t" where
  "minus256_self x number2 =
     (let x = U256 (minus128_self (UPPER256 x) (UPPER256 number2)) (LOWER256 x);
          tmp = minus128 (LOWER256 x) (LOWER256 number2);
          one = U128 0 1;
          x = (if gt128 tmp (LOWER256 x) then U256 (minus128_self (UPPER256 x) one) (LOWER256 x)
               else x)
      in U256 (UPPER256 x) (minus128_self (LOWER256 x) (LOWER256 number2)))"

definition or256 :: "uint256_t \<Rightarrow> uint256_t \<Rightarrow> uint256_t" where
  "or256 number1 number2 =
     U256 (or128 (UPPER256 number1) (UPPER256 number2)) (or128 (LOWER256 number1) (LOWER256 number2))"

definition or256_self :: "uint256_t \<Rightarrow> uint256_t \<Rightarrow> uint256_t" where
  "or256_self x number2 =
     (let x = U256 (or128_self (UPPER256 x) (UPPER256 number2)) (LOWER256 x)
      in U256 (UPPER256 x) (or128_self (LOWER256 x) (LOWER256 number2)))"

text \<open>
  Schoolbook product of four 64-bit limbs, each in a \<open>uint128_t\<close>. The line
  \<open>UPPER(UPPER(target2)) = UPPER(third64)\<close> puts the carry of the third column one limb too high.
\<close>

definition mul256_columns ::
    "uint256_t \<Rightarrow> uint256_t \<Rightarrow> uint128_t \<times> uint128_t \<times> uint128_t \<times> uint128_t" where
  "mul256_columns number1 number2 =
    (let top = [U128 0 (UPPER (UPPER256 number1)), U128 0 (LOWER (UPPER256 number1)),
                U128 0 (UPPER (LOWER256 number1)), U128 0 (LOWER (LOWER256 number1))];
         bottom = [U128 0 (UPPER (UPPER256 number2)), U128 0 (LOWER (UPPER256 number2)),
                U128 0 (UPPER (LOWER256 number2)), U128 0 (LOWER (LOWER256 number2))];
         products = (\<lambda>i y. mul128 (top ! (3 - i)) (bottom ! y));
         fourth64 = U128 0 (LOWER (products 0 3));
         third64 = add128 (U128 0 (LOWER (products 0 2))) (U128 0 (UPPER (products 0 3)));
         second64 = add128 (U128 0 (LOWER (products 0 1))) (U128 0 (UPPER (products 0 2)));
         first64 = add128 (U128 0 (LOWER (products 0 0))) (U128 0 (UPPER (products 0 1)));
         tmp2 = add128 (U128 0 (LOWER (products 1 3))) third64;
         third64 = copy128 tmp2;
         tmp2 = add128 (U128 0 (LOWER (products 1 2))) second64;
         second64 = add128 (U128 0 (UPPER (products 1 3))) tmp2;
         tmp2 = add128 (U128 0 (LOWER (products 1 1))) first64;
         first64 = add128 (U128 0 (UPPER (products 1 2))) tmp2;
         tmp2 = add128 (U128 0 (LOWER (products 2 3))) second64;
         second64 = copy128 tmp2;
         tmp2 = add128 (U128 0 (LOWER (products 2 2))) first64;
         first64 = add128 (U128 0 (UPPER (products 2 3))) tmp2;
         tmp2 = add128 (U128 0 (LOWER (products 3 3))) first64;
         first64 = copy128 tmp2
     in (first64, second64, third64, fourth64))"

definition mul256 :: "uint256_t \<Rightarrow> uint256_t \<Rightarrow> uint256_t" where
  "mul256 number1 number2 =
    (let (first64, second64, third64, fourth64) = mul256_columns number1 number2;
         target1 = clear256;
         target1 = U256 (shiftl128 first64 64) (LOWER256 target1);
         target2 = clear256;
         target2 = U256 (U128 (UPPER third64) (LOWER (UPPER256 target2))) (LOWER256 target2);
         target2 = U256 (UPPER256 target2) (shiftl128 third64 64);
         target = add256 target1 target2;
         target1 = clear256;
         target1 = U256 (copy128 second64) (LOWER256 target1);
         target2 = add256 target1 target;
         target1 = clear256;
         target1 = U256 (UPPER256 target1) (copy128 fourth64)
     in add256 target1 target2)"

definition divmod256_body ::
    "uint256_t \<times> uint256_t \<times> uint256_t \<times> uint256_t \<Rightarrow>
     uint256_t \<times> uint256_t \<times> uint256_t \<times> uint256_t" where
  "divmod256_body = (\<lambda>(copyd, adder, resDiv, resMod).
     let (resDiv, resMod) =
       (if gte256 resMod copyd
        then (or256_self resDiv adder, minus256_self resMod copyd) else (resDiv, resMod))
     in (shiftr256_self copyd 1, shiftr256_self adder 1, resDiv, resMod))"

definition divmod256 :: "uint256_t \<Rightarrow> uint256_t \<Rightarrow> (uint256_t \<times> uint256_t) option" where
  "divmod256 l r =
    (let one = U256 clear128 (U128 0 1);
         diffBits = bits256 l - bits256 r;
         resDiv = clear256;
         resMod = copy256 l
     in if gt256 r l then Some (clear256, copy256 l)
        else
          let copyd = shiftl256 r diffBits;
              adder = shiftl256 one diffBits;
              (copyd, adder) =
                (if gt256 copyd resMod then (shiftr256_self copyd 1, shiftr256_self adder 1)
                 else (copyd, adder))
          in map_option (\<lambda>(copyd, adder, resDiv, resMod). (copy256 resDiv, copy256 resMod))
               (while_option (\<lambda>(copyd, adder, resDiv, resMod). gte256 resMod r) divmod256_body
                  (copyd, adder, resDiv, resMod)))"

text \<open>\<open>set256_uint64\<close>: all other limbs cleared.\<close>

definition set256_uint64 :: "u64 \<Rightarrow> uint256_t" where
  "set256_uint64 v = (let target = clear256
     in U256 (UPPER256 target) (U128 (UPPER (LOWER256 target)) v))"

section \<open>The value of two 128-bit limbs\<close>

definition val256 :: "uint256_t \<Rightarrow> nat" where
  "val256 x = val128 (UPPER256 x) * 2 ^ 128 + val128 (LOWER256 x)"

lemma val256_U256: "val256 (U256 u l) = val128 u * 2 ^ 128 + val128 l"
  by (simp add: val256_def)

lemma val256_less: "val256 x < 2 ^ 256"
  using limbs_less [of "val128 (UPPER256 x)" "2 ^ 128" "val128 (LOWER256 x)"]
    val128_less [of "UPPER256 x"] val128_less [of "LOWER256 x"] by (simp add: val256_def)

lemma val256_inj: "val256 x = val256 y \<longleftrightarrow> x = y"
proof
  assume "val256 x = val256 y"
  then show "x = y"
    using limbs_inj [OF val128_less val128_less] unfolding val256_def
    by (metis uint256_t.expand val128_inj)
qed simp

lemma val256_clear [simp]: "val256 clear256 = 0"
  by (simp add: clear256_def val256_def)

lemma copy256_id [simp]: "copy256 x = x"
  by (simp add: copy256_def)

lemma val256_zero: "zero256 x \<longleftrightarrow> val256 x = 0"
  by (auto simp: zero256_def val256_def val128_zero)

lemma val256_set_uint64 [simp]: "val256 (set256_uint64 v) = unat v"
  by (simp add: set256_uint64_def val256_def val128_def clear256_def clear128_def)

lemma equal256_iff: "equal256 x y \<longleftrightarrow> x = y"
  by (auto simp: equal256_def equal128_iff uint256_t.expand)

lemma gt256_iff: "gt256 x y \<longleftrightarrow> val256 y < val256 x"
  unfolding val256_def limbs_less_iff [OF val128_less val128_less]
  by (auto simp: gt256_def gt128_iff equal128_iff val128_inj)

lemma gte256_iff: "gte256 x y \<longleftrightarrow> val256 y \<le> val256 x"
  using val256_inj [of x y] by (auto simp: gte256_def gt256_iff equal256_iff)

text \<open>The comparisons of the code order the values linearly.\<close>

instantiation uint256_t :: linorder
begin

definition less_eq_uint256_t :: "uint256_t \<Rightarrow> uint256_t \<Rightarrow> bool" where
  "less_eq_uint256_t x y \<longleftrightarrow> gte256 y x"

definition less_uint256_t :: "uint256_t \<Rightarrow> uint256_t \<Rightarrow> bool" where
  "less_uint256_t x y \<longleftrightarrow> gt256 y x"

instance
  by standard
    (auto simp: less_eq_uint256_t_def less_uint256_t_def gt256_iff gte256_iff val256_inj)

end

lemma val256_add: "val256 (add256 x y) = (val256 x + val256 y) mod 2 ^ 256"
proof -
  let ?lx = "val128 (LOWER256 x)" and ?ly = "val128 (LOWER256 y)"
  have "gt128 (LOWER256 x) (add128 (LOWER256 x) (LOWER256 y)) \<longleftrightarrow> 2 ^ 128 \<le> ?lx + ?ly"
    using val128_less [of "LOWER256 x"] val128_less [of "LOWER256 y"]
    by (cases "?lx + ?ly < 2 ^ 128") (auto simp: gt128_iff val128_add le_mod_geq)
  then have "val256 (add256 x y) =
      (val128 (UPPER256 x) + val128 (UPPER256 y) + of_bool (2 ^ 128 \<le> ?lx + ?ly)) mod 2 ^ 128
        * 2 ^ 128 + (?lx + ?ly) mod 2 ^ 128"
    by (simp add: add256_def val256_U256 val128_add val128_U128 self128 mod_simps Let_def)
  also have "\<dots> = (val256 x + val256 y) mod (2 ^ 128 * 2 ^ 128)"
    unfolding val256_def by (rule limbs_add) (rule val128_less)+
  finally show ?thesis by simp
qed

lemma val256_minus:
  "int (val256 (minus256 x y)) = (int (val256 x) - int (val256 y)) mod 2 ^ 256"
proof -
  let ?ux = "int (val128 (UPPER256 x))" and ?uy = "int (val128 (UPPER256 y))"
  let ?lx = "int (val128 (LOWER256 x))" and ?ly = "int (val128 (LOWER256 y))"
  let ?tmp = "minus128 (LOWER256 x) (LOWER256 y)"
  have l: "0 \<le> ?lx" "?lx < 2 ^ 128" "0 \<le> ?ly" "?ly < 2 ^ 128"
    using val128_less [of "LOWER256 x"] val128_less [of "LOWER256 y"] by simp_all
  have "gt128 ?tmp (LOWER256 x) \<longleftrightarrow> ?lx < (?lx - ?ly) mod 2 ^ 128"
    unfolding gt128_iff val128_minus [symmetric] by simp
  also have "\<dots> \<longleftrightarrow> ?lx < ?ly"
  proof (cases "?lx < ?ly")
    case True
    have "(?lx - ?ly) mod 2 ^ 128 = (?lx - ?ly + 2 ^ 128) mod 2 ^ 128" by simp
    also have "\<dots> = ?lx - ?ly + 2 ^ 128" using True l by (intro mod_pos_pos_trivial) auto
    finally show ?thesis using True l by simp
  next
    case False
    then have "(?lx - ?ly) mod 2 ^ 128 = ?lx - ?ly" using l by (intro mod_pos_pos_trivial) auto
    then show ?thesis using False l by simp
  qed
  finally have borrow: "gt128 ?tmp (LOWER256 x) \<longleftrightarrow> ?lx < ?ly" .
  have one: "val128 (U128 0 1) = 1" by (simp add: val128_U128)
  have "int (val256 (minus256 x y)) =
      (?ux - ?uy - of_bool (?lx < ?ly)) mod 2 ^ 128 * 2 ^ 128 + (?lx - ?ly) mod 2 ^ 128"
    by (simp add: minus256_def val256_U256 val128_minus borrow self128 mod_simps one Let_def)
  also have "\<dots> = (?ux * 2 ^ 128 + ?lx - (?uy * 2 ^ 128 + ?ly)) mod (2 ^ 128 * 2 ^ 128)"
    using l by (intro limbs_minus)
  finally show ?thesis by (simp add: val256_def)
qed

lemma val256_minus_le:
  assumes "val256 y \<le> val256 x"
  shows "val256 (minus256 x y) = val256 x - val256 y"
proof -
  have "int (val256 (minus256 x y)) = int (val256 x) - int (val256 y)"
    using assms val256_less [of x] unfolding val256_minus by (intro mod_pos_pos_trivial) auto
  then show ?thesis using assms by simp
qed

lemma val256_or: "val256 (or256 x y) = (val256 x OR val256 y)"
  unfolding val256_def limbs_or(1) [OF val128_less val128_less]
  by (simp add: or256_def val128_or)

lemma u32_le_iff_256: "(v::u32) \<ge> 256 \<longleftrightarrow> 256 \<le> unat v" "v = 128 \<longleftrightarrow> unat v = 128"
    "v < 128 \<longleftrightarrow> unat v < 128" "256 > v \<longleftrightarrow> unat v < 256" "v > 128 \<longleftrightarrow> 128 < unat v"
  by (simp_all add: word_le_nat_alt word_less_nat_alt word_unat_eq_iff)

lemma u32_minus_unat_256:
  "unat v \<le> 128 \<Longrightarrow> unat (128 - v :: u32) = 128 - unat v"
  "128 \<le> unat v \<Longrightarrow> unat (v - 128 :: u32) = unat v - 128"
  by (simp_all add: unat_sub word_le_nat_alt)

lemmas u32_256 = u32_le_iff_256 u32_minus_unat_256 u32_le_iff(3)

lemma val256_shiftl: "val256 (shiftl256 x v) = val256 x * 2 ^ unat v mod 2 ^ 256"
proof -
  let ?h = "val128 (UPPER256 x)" and ?l = "val128 (LOWER256 x)"
  consider "256 \<le> unat v" | "128 \<le> unat v" "unat v < 256" | "0 < unat v" "unat v < 128" | "v = 0"
    by (metis linorder_not_less unat_eq_zero gr0I)
  then show ?thesis
  proof cases
    case 1
    then have "(2::nat) ^ 256 dvd val256 x * 2 ^ unat v" by (intro dvd_mult le_imp_power_dvd)
    with 1 show ?thesis by (simp add: shiftl256_def u32_256)
  next
    case 2
    then have "val256 (shiftl256 x v) = (?l * 2 ^ (unat v - 128)) mod 2 ^ 128 * 2 ^ 128"
      using val128_less [of "LOWER256 x"]
      by (auto simp: shiftl256_def u32_256 val256_U256 val128_shiftl)
    also have "\<dots> = val256 x * 2 ^ unat v mod (2 ^ 128 * 2 ^ 128)"
      unfolding val256_def using 2 by (intro limbs_shiftl_far)
    finally show ?thesis by simp
  next
    case 3
    then have "val256 (shiftl256 x v) =
        ((?h * 2 ^ unat v) mod 2 ^ 128 + ?l div 2 ^ (128 - unat v)) mod 2 ^ 128 * 2 ^ 128
          + (?l * 2 ^ unat v) mod 2 ^ 128"
      by (simp add: shiftl256_def u32_256 val256_U256 val128_shiftl val128_shiftr val128_add Let_def)
    also have "\<dots> = val256 x * 2 ^ unat v mod (2 ^ 128 * 2 ^ 128)"
      unfolding val256_def using 3 val128_less by (intro limbs_shiftl) auto
    finally show ?thesis by simp
  next
    case 4
    then show ?thesis using val256_less [of x] by (simp add: shiftl256_def)
  qed
qed

lemma val256_shiftr: "val256 (shiftr256 x v) = val256 x div 2 ^ unat v"
proof -
  let ?h = "val128 (UPPER256 x)" and ?l = "val128 (LOWER256 x)"
  consider "256 \<le> unat v" | "128 \<le> unat v" "unat v < 256" | "0 < unat v" "unat v < 128" | "v = 0"
    by (metis linorder_not_less unat_eq_zero gr0I)
  then show ?thesis
  proof cases
    case 1
    then have "val256 x < 2 ^ unat v"
      using val256_less [of x] power_increasing [OF 1, of "2::nat"] by simp
    with 1 show ?thesis by (simp add: shiftr256_def u32_256)
  next
    case 2
    then have "val256 (shiftr256 x v) = ?h div 2 ^ (unat v - 128)"
      by (auto simp: shiftr256_def u32_256 val256_U256 val128_shiftr)
    also have "\<dots> = val256 x div 2 ^ unat v"
      unfolding val256_def using 2 val128_less by (intro limbs_shiftr_far)
    finally show ?thesis .
  next
    case 3
    then have "val256 (shiftr256 x v) = ?h div 2 ^ unat v * 2 ^ 128 +
        ((?h * 2 ^ (128 - unat v)) mod 2 ^ 128 + ?l div 2 ^ unat v) mod 2 ^ 128"
      by (simp add: shiftr256_def u32_256 val256_U256 val128_shiftl val128_shiftr val128_add Let_def
          mod_simps add.commute)
    also have "\<dots> = val256 x div 2 ^ unat v"
      unfolding val256_def using 3 val128_less by (intro limbs_shiftr) auto
    finally show ?thesis .
  next
    case 4
    then show ?thesis by (simp add: shiftr256_def)
  qed
qed

section \<open>In-place calls\<close>

lemma shiftr256_self_eq: "shiftr256_self x v = shiftr256 x v"
  by (simp add: shiftr256_self_def shiftr256_def Let_def)

lemma minus256_self_eq: "minus256_self x y = minus256 x y"
  by (simp add: minus256_self_def minus256_def Let_def self128)

lemma or256_self_eq: "or256_self x y = or256 x y"
  by (simp add: or256_self_def or256_def Let_def self128)

lemmas self256 = shiftr256_self_eq minus256_self_eq or256_self_eq

section \<open>Number of bits and quotient\<close>

interpretation count256: bit_counter val128 bits256_loop "\<lambda>x. shiftr128_self x 1"
proof
  fix x :: uint128_t and result :: u32
  show "val128 (shiftr128_self x 1) = val128 x div 2" by (simp add: self128 val128_shiftr)
  show "val128 x = 0 \<Longrightarrow> bits256_loop x result = result"
    by (simp add: bits256_loop.simps val128_zero)
  show "val128 x \<noteq> 0 \<Longrightarrow> bits256_loop x result = bits256_loop (shiftr128_self x 1) (result + 1)"
    by (subst bits256_loop.simps) (auto simp: val128_zero)
qed

lemma bits256_bounds:
  "val256 x < 2 ^ unat (bits256 x)"
  "val256 x \<noteq> 0 \<Longrightarrow> 2 ^ unat (bits256 x) \<le> 2 * val256 x"
proof -
  have "val256 x < 2 ^ unat (bits256 x) \<and> (val256 x \<noteq> 0 \<longrightarrow> 2 ^ unat (bits256 x) \<le> 2 * val256 x)"
  proof (cases "val128 (UPPER256 x) = 0")
    case True
    obtain n where "unat (bits256_loop (LOWER256 x) 0) = n" "val128 (LOWER256 x) < 2 ^ n"
        "val128 (LOWER256 x) \<noteq> 0 \<longrightarrow> 2 ^ n \<le> 2 * val128 (LOWER256 x)"
      using count256.loop_counts [of 0 128 "LOWER256 x"] val128_less by auto
    with True show ?thesis by (simp add: bits256_def val256_def val128_zero)
  next
    case False
    obtain n where n: "unat (bits256_loop (UPPER256 x) 128) = 128 + n" "val128 (UPPER256 x) < 2 ^ n"
        "2 ^ n \<le> 2 * val128 (UPPER256 x)"
      using count256.loop_counts [of 128 128 "UPPER256 x"] val128_less False by auto
    have "(val128 (UPPER256 x) + 1) * 2 ^ 128 \<le> 2 ^ n * 2 ^ 128"
      using n(2) by (intro mult_le_mono1) simp
    then have "val256 x < 2 ^ (128 + n)"
      using val128_less [of "LOWER256 x"] by (simp add: val256_def power_add)
    moreover have "2 ^ (128 + n) \<le> 2 * val256 x"
      using n(3) by (simp add: val256_def power_add)
    ultimately show ?thesis using False n(1) by (simp add: bits256_def val128_zero)
  qed
  then show "val256 x < 2 ^ unat (bits256 x)"
    and "val256 x \<noteq> 0 \<Longrightarrow> 2 ^ unat (bits256 x) \<le> 2 * val256 x" by auto
qed

interpretation n256: bigint val256 256 clear256 "U256 clear128 (U128 0 1)" shiftl256 shiftr256_self
    minus256_self or256_self gt256 gte256 bits256
  by unfold_locales
    (simp_all add: val256_less [simplified] val256_U256 val128_U128 val256_shiftl val256_shiftr self256
      val256_minus_le val256_or gt256_iff gte256_iff bits256_bounds)

lemma divmod256_zero:
  assumes "val256 r = 0"
  shows "divmod256 l r = None"
proof -
  have "divmod256_body = n256.div_body"
    by (simp add: divmod256_body_def n256.div_body_def fun_eq_iff)
  with assms n256.div_loop_zero show ?thesis
    by (simp add: divmod256_def gt256_iff Let_def split: prod.split)
qed

lemma divmod256_val:
  assumes "val256 r \<noteq> 0"
  shows "\<exists>q m. divmod256 l r = Some (q, m) \<and>
    val256 q = val256 l div val256 r \<and> val256 m = val256 l mod val256 r"
proof (cases "gt256 r l")
  case True
  then show ?thesis by (simp add: divmod256_def gt256_iff)
next
  case False
  have body: "divmod256_body = n256.div_body"
    by (simp add: divmod256_body_def n256.div_body_def fun_eq_iff)
  obtain c a where st: "n256.div_start l r = (c, a)" by fastforce
  from n256.div_loop [OF assms _ st] False show ?thesis
    using st by (auto simp: divmod256_def body n256.div_start_def gt256_iff Let_def
        split: if_splits prod.splits)
qed

section \<open>Product\<close>

text \<open>The carry out of the third column, which \<open>mul256\<close> misplaces.\<close>

definition mul256_carry :: "uint256_t \<Rightarrow> uint256_t \<Rightarrow> nat" where
  "mul256_carry x y =
    (let a2 = unat (UPPER (LOWER256 x)); a3 = unat (LOWER (LOWER256 x));
         b2 = unat (UPPER (LOWER256 y)); b3 = unat (LOWER (LOWER256 y))
     in (a3 * b2 mod 2 ^ 64 + a3 * b3 div 2 ^ 64 + a2 * b3 mod 2 ^ 64) div 2 ^ 64)"

lemma val256_limbs4:
  "val256 x = limbs4 (2 ^ 64) (unat (UPPER (UPPER256 x))) (unat (LOWER (UPPER256 x)))
     (unat (UPPER (LOWER256 x))) (unat (LOWER (LOWER256 x)))"
  by (simp add: val256_def val128_def limbs4_def)

lemma val128_mul_limbs: "val128 (mul128 (U128 0 a) (U128 0 b)) = unat a * unat b"
proof -
  have "unat a * unat b \<le> (2 ^ 64 - 1) * (2 ^ 64 - 1)"
    using u64_bound [of a] u64_bound [of b] by (intro mult_le_mono) simp_all
  then show ?thesis by (simp add: val128_mul val128_U128)
qed

lemma limbs_of_product:
  "unat (LOWER (mul128 (U128 0 a) (U128 0 b))) = unat a * unat b mod 2 ^ 64"
  "unat (UPPER (mul128 (U128 0 a) (U128 0 b))) = unat a * unat b div 2 ^ 64"
  unfolding val128_mul_limbs [symmetric] val128_def using u64_less by simp_all

text \<open>Sums of limbs do not overflow 128 bits.\<close>

definition limb :: "uint128_t \<Rightarrow> bool" where
  "limb c \<longleftrightarrow> val128 c < 18446744073709551616"

lemma limb_U128 [simp]: "limb (U128 0 a)"
  using u64_bound [of a] by (simp add: limb_def val128_U128)

lemma add_limbs:
  "\<lbrakk>limb a; limb b; limb c\<rbrakk> \<Longrightarrow> val128 (add128 a (add128 b c)) = val128 a + (val128 b + val128 c)"
  "\<lbrakk>limb a; limb b; limb c; limb d; limb e\<rbrakk> \<Longrightarrow>
     val128 (add128 a (add128 b (add128 c (add128 d e)))) =
     val128 a + (val128 b + (val128 c + (val128 d + val128 e)))"
  "\<lbrakk>limb a; limb b; limb c; limb d; limb e; limb f; limb g\<rbrakk> \<Longrightarrow>
     val128 (add128 a (add128 b (add128 c (add128 d (add128 e (add128 f g)))))) =
     val128 a + (val128 b + (val128 c + (val128 d + (val128 e + (val128 f + val128 g)))))"
  by (simp_all add: limb_def val128_add mod_simps)

lemma mul256_columns_val:
  assumes "mul256_columns x y = (f, s, t, u)"
  shows "limbs4 (2 ^ 64) (val128 f) (val128 s) (val128 t) (val128 u) mod 2 ^ 256 =
      val256 x * val256 y mod 2 ^ 256"
    and "unat (UPPER t) = mul256_carry x y" and "val128 u < 2 ^ 64"
proof -
  let ?a0 = "UPPER (UPPER256 x)" and ?a1 = "LOWER (UPPER256 x)"
    and ?a2 = "UPPER (LOWER256 x)" and ?a3 = "LOWER (LOWER256 x)"
  let ?b0 = "UPPER (UPPER256 y)" and ?b1 = "LOWER (UPPER256 y)"
    and ?b2 = "UPPER (LOWER256 y)" and ?b3 = "LOWER (LOWER256 y)"
  define p where "p a b = mul128 (U128 0 a) (U128 0 b)" for a b
  define lo hi where "lo c = U128 0 (LOWER c)" and "hi c = U128 0 (UPPER c)" for c
  have cols: "u = lo (p ?a3 ?b3)"
    "t = add128 (lo (p ?a2 ?b3)) (add128 (lo (p ?a3 ?b2)) (hi (p ?a3 ?b3)))"
    "s = add128 (lo (p ?a1 ?b3)) (add128 (hi (p ?a2 ?b3)) (add128 (lo (p ?a2 ?b2))
          (add128 (lo (p ?a3 ?b1)) (hi (p ?a3 ?b2)))))"
    "f = add128 (lo (p ?a0 ?b3)) (add128 (hi (p ?a1 ?b3)) (add128 (lo (p ?a1 ?b2))
          (add128 (hi (p ?a2 ?b2)) (add128 (lo (p ?a2 ?b1))
          (add128 (lo (p ?a3 ?b0)) (hi (p ?a3 ?b1)))))))"
    using assms by (simp_all add: mul256_columns_def Let_def p_def lo_def hi_def)
  have lo: "val128 (lo (p a b)) = unat a * unat b mod 2 ^ 64"
    and hi: "val128 (hi (p a b)) = unat a * unat b div 2 ^ 64" for a b
    by (simp_all only: lo_def hi_def val128_U128 p_def limbs_of_product) simp_all
  have limbs: "limb (lo c)" "limb (hi c)" for c by (simp_all add: lo_def hi_def)
  have t: "val128 t = val128 (lo (p ?a2 ?b3)) + (val128 (lo (p ?a3 ?b2)) + val128 (hi (p ?a3 ?b3)))"
    unfolding cols by (rule add_limbs(1)) (rule limbs)+
  have s: "val128 s = val128 (lo (p ?a1 ?b3)) + (val128 (hi (p ?a2 ?b3)) +
      (val128 (lo (p ?a2 ?b2)) + (val128 (lo (p ?a3 ?b1)) + val128 (hi (p ?a3 ?b2)))))"
    unfolding cols by (rule add_limbs(2)) (rule limbs)+
  have f: "val128 f = val128 (lo (p ?a0 ?b3)) + (val128 (hi (p ?a1 ?b3)) +
      (val128 (lo (p ?a1 ?b2)) + (val128 (hi (p ?a2 ?b2)) + (val128 (lo (p ?a2 ?b1)) +
      (val128 (lo (p ?a3 ?b0)) + val128 (hi (p ?a3 ?b1)))))))"
    unfolding cols by (rule add_limbs(3)) (rule limbs)+
  show "val128 u < 2 ^ 64" unfolding cols using limbs [of "p ?a3 ?b3"] by (simp add: limb_def)
  show "unat (UPPER t) = mul256_carry x y"
  proof -
    have "unat (UPPER t) = val128 t div 2 ^ 64"
      using u64_less [of "LOWER t"] by (simp add: val128_def)
    then show ?thesis by (simp add: t lo hi mul256_carry_def Let_def add.commute add.left_commute)
  qed
  have "limbs4 (2 ^ 64) (val128 f) (val128 s) (val128 t) (val128 u) mod (2 ^ 64) ^ 4 =
      val256 x * val256 y mod (2 ^ 64) ^ 4"
    unfolding val256_limbs4 [of x] val256_limbs4 [of y] schoolbook [symmetric] f s t cols(1) lo hi
    by (simp only: add.commute add.left_commute add.assoc)
  then show "limbs4 (2 ^ 64) (val128 f) (val128 s) (val128 t) (val128 u) mod 2 ^ 256 =
      val256 x * val256 y mod 2 ^ 256"
    by simp
qed

lemma val256_mul:
  "val256 (mul256 x y) =
    (val256 x * val256 y + mul256_carry x y * (2 ^ 192 - 2 ^ 128)) mod 2 ^ 256"
proof -
  obtain f s t u where c: "mul256_columns x y = (f, s, t, u)" by (metis prod_cases4)
  note cv = mul256_columns_val [OF c]
  let ?lo = "unat (LOWER t)" and ?hi = "unat (UPPER t)"
  have tv: "val128 t = ?hi * 2 ^ 64 + ?lo" by (simp add: val128_def)
  have sh: "unat (64::u32) = 64" by simp
  have fm: "val128 f * 2 ^ 64 mod 2 ^ 128 * 2 ^ 128 = val128 f * 2 ^ 192 mod (2::nat) ^ 256"
    by (simp add: mod_mult_mult2 [of _ "2 ^ 128" "2 ^ 128", simplified, symmetric] mult.assoc)
  have tm: "val128 t * 2 ^ 64 mod 2 ^ 128 = ?lo * 2 ^ 64"
  proof -
    have "val128 t * 2 ^ 64 = ?lo * 2 ^ 64 + ?hi * 2 ^ 128" by (simp add: tv algebra_simps)
    moreover have "?lo * 2 ^ 64 < 2 ^ 128" using u64_bound [of "LOWER t"] by simp
    ultimately show ?thesis by simp
  qed
  have "val256 (mul256 x y) = (val128 u + (val128 s * 2 ^ 128 +
      (val128 f * 2 ^ 64 mod 2 ^ 128 * 2 ^ 128 +
        (?hi * 2 ^ 192 + val128 t * 2 ^ 64 mod 2 ^ 128)))) mod 2 ^ 256"
    by (simp add: mul256_def c val256_add val256_U256 val128_U128 val128_shiftl sh clear256_def
        clear128_def mod_simps mult.commute)
  also have "\<dots> = (limbs4 (2 ^ 64) (val128 f) (val128 s) (val128 t) (val128 u) +
      ?hi * (2 ^ 192 - 2 ^ 128)) mod 2 ^ 256"
  proof -
    have "(val128 u + (val128 s * 2 ^ 128 + (val128 f * 2 ^ 192 mod 2 ^ 256 + (?hi * 2 ^ 192 + ?lo * 2 ^ 64))))
        mod 2 ^ 256 =
      (val128 u + (val128 s * 2 ^ 128 + (val128 f * 2 ^ 192 + (?hi * 2 ^ 192 + ?lo * 2 ^ 64)))) mod 2 ^ 256"
      by (rule mod_add_inner)
    moreover have "limbs4 (2 ^ 64) (val128 f) (val128 s) (val128 t) (val128 u) +
        ?hi * (2 ^ 192 - 2 ^ 128) =
      val128 u + (val128 s * 2 ^ 128 + (val128 f * 2 ^ 192 + (?hi * 2 ^ 192 + ?lo * 2 ^ 64)))"
      by (simp add: limbs4_def tv)
    ultimately show ?thesis by (simp only: fm tm)
  qed
  also have "\<dots> = (val256 x * val256 y + ?hi * (2 ^ 192 - 2 ^ 128)) mod 2 ^ 256"
    using cv(1) by (metis (no_types, lifting) mod_add_left_eq)
  finally show ?thesis by (simp only: cv(2))
qed

lemma mul256_carry_bound: "mul256_carry x y \<le> 2"
proof -
  have less: "a mod 2 ^ 64 + b + c mod 2 ^ 64 < 3 * (2::nat) ^ 64" if "b < 2 ^ 64" for a b c :: nat
    using that mod_less_divisor [of "2 ^ 64" a] mod_less_divisor [of "2 ^ 64" c] by simp
  have prod: "unat a * unat b div 2 ^ 64 < 2 ^ 64" for a b :: u64
    using limbs_of_product(2) [of a b] u64_less by metis
  have "mul256_carry x y < 3"
    unfolding mul256_carry_def Let_def by (intro less_mult_imp_div_less less prod)
  then show ?thesis by simp
qed

lemma mul256_exact_carry:
  "val256 (mul256 x y) = val256 x * val256 y mod 2 ^ 256 \<longleftrightarrow> mul256_carry x y = 0"
proof -
  let ?p = "val256 x * val256 y" and ?e = "mul256_carry x y * (2 ^ 192 - 2 ^ 128) :: nat"
  have e: "?e < 2 ^ 256"
  proof -
    have "?e \<le> 2 * (2 ^ 192 - 2 ^ 128)" by (rule mult_le_mono1) (rule mul256_carry_bound)
    also have "\<dots> < 2 ^ 256" by simp
    finally show ?thesis .
  qed
  have "val256 (mul256 x y) = ?p mod 2 ^ 256 \<longleftrightarrow> 2 ^ 256 dvd ?e"
    unfolding val256_mul by (rule mod_add_dvd)
  also have "\<dots> \<longleftrightarrow> ?e = 0" using e by (rule dvd_less_iff_0)
  finally show ?thesis by simp
qed

lemma mul256_carry_small:
  assumes "val256 x < 2 ^ 64" "val256 y < 2 ^ 64"
  shows "mul256_carry x y = 0"
proof -
  have "unat (UPPER (LOWER256 z)) = 0" if "val256 z < 2 ^ 64" for z
  proof -
    have "unat (UPPER (LOWER256 z)) * 2 ^ 64 \<le> val256 z" by (simp add: val256_def val128_def)
    with that show ?thesis by simp
  qed
  with assms have h: "unat (UPPER (LOWER256 x)) = 0" "unat (UPPER (LOWER256 y)) = 0" by auto
  let ?a = "LOWER (LOWER256 x)" and ?b = "LOWER (LOWER256 y)"
  have "unat ?a * unat ?b div 2 ^ 64 < 2 ^ 64"
    using limbs_of_product(2) [of ?a ?b] u64_less by metis
  with h show ?thesis by (simp add: mul256_carry_def)
qed

lemma val256_mul_uint64:
  assumes "val256 x < 2 ^ 64" "val256 y < 2 ^ 64"
  shows "val256 (mul256 x y) = val256 x * val256 y"
proof -
  have "val256 x * val256 y \<le> 2 ^ 64 * 2 ^ 64" using assms by (intro mult_le_mono) simp_all
  also have "\<dots> < 2 ^ 256" by simp
  finally show ?thesis using mul256_carry_small [OF assms] by (simp add: val256_mul)
qed

section \<open>Properties\<close>

text \<open>
  Addition and subtraction of 256-bit integers, built from two 128-bit halves and a carry, are
  exact modulo \<open>2 ^ 256\<close>; so is the in-place subtraction the division uses.
\<close>

lemma add_minus_256_exact:
  "val256 (add256 x y) = (val256 x + val256 y) mod 2 ^ 256 \<and>
   int (val256 (minus256 x y)) = (int (val256 x) - int (val256 y)) mod 2 ^ 256 \<and>
   minus256_self x y = minus256 x y"
  by (simp only: val256_add val256_minus minus256_self_eq simp_thms)

text \<open>
  C24: what \<open>mul256\<close> computes, exactly: the product modulo \<open>2 ^ 256\<close>, with the carry out of the
  third 64-bit column (0, 1 or 2) counted at \<open>2 ^ 192\<close> instead of \<open>2 ^ 128\<close>. It is the product if and
  only if that carry is zero.
\<close>

theorem mul256_value:
  "val256 (mul256 x y) =
     (val256 x * val256 y + mul256_carry x y * (2 ^ 192 - 2 ^ 128)) mod 2 ^ 256 \<and>
   mul256_carry x y \<le> 2 \<and>
   (val256 (mul256 x y) = val256 x * val256 y mod 2 ^ 256 \<longleftrightarrow> mul256_carry x y = 0)"
  using val256_mul [of x y] mul256_carry_bound [of x y] mul256_exact_carry [of x y] by blast

text \<open>
  The product of two numbers that fit 64 bits (a token amount and a decimals factor) is
  exact, the misplaced carry notwithstanding.
\<close>

lemma mul256_uint64_exact:
  assumes "val256 x < 2 ^ 64" "val256 y < 2 ^ 64"
  shows "val256 (mul256 x y) = val256 x * val256 y"
  using assms by (rule val256_mul_uint64)

lemma mul256_uint64_exact_witness:
  "val256 (mul256 (set256_uint64 1500000000) (set256_uint64 1000000000000000000)) =
     1500000000000000000000000000"
  using mul256_uint64_exact [of "set256_uint64 1500000000" "set256_uint64 1000000000000000000"]
  by (simp add: set256_uint64_def val256_def val128_def clear256_def clear128_def)

text \<open>
  C23: the shift-and-subtract division of 256-bit integers terminates exactly for a non-zero
  divisor, and then returns quotient and remainder; for a zero divisor its loop runs forever.
\<close>

theorem divmod256_correct:
  "case divmod256 l r of None \<Rightarrow> val256 r = 0
   | Some (q, m) \<Rightarrow> val256 r \<noteq> 0 \<and> val256 q = val256 l div val256 r \<and>
       val256 m = val256 l mod val256 r"
proof (cases "val256 r = 0")
  case True
  then show ?thesis by (simp add: divmod256_zero)
next
  case False
  with divmod256_val [OF this, of l] show ?thesis by (auto split: option.splits)
qed

text \<open>
  The 256-bit shifts multiply and divide by a power of two, for every 32-bit shift amount,
  and shifting right in place is safe.
\<close>

lemma shift256_exact:
  "val256 (shiftl256 x v) = val256 x * 2 ^ unat v mod 2 ^ 256 \<and>
   val256 (shiftr256 x v) = val256 x div 2 ^ unat v \<and>
   shiftr256_self x v = shiftr256 x v"
  by (simp only: val256_shiftl val256_shiftr shiftr256_self_eq simp_thms)

text \<open>\<open>bits256\<close> is the length of the number in binary, zero for zero.\<close>

lemma bits256_length:
  assumes "x \<noteq> clear256"
  shows "2 ^ (unat (bits256 x) - 1) \<le> val256 x \<and> val256 x < 2 ^ unat (bits256 x) \<and>
    bits256 clear256 = 0"
proof -
  have nz: "val256 x \<noteq> 0" using assms val256_inj [of x clear256] by simp
  then have "unat (bits256 x) \<noteq> 0" using bits256_bounds(1) [of x] by (cases "unat (bits256 x)") auto
  then obtain n where "unat (bits256 x) = Suc n" by (cases "unat (bits256 x)") auto
  moreover have "bits256 clear256 = 0"
    by (simp add: bits256_def clear256_def zero128_def clear128_def bits256_loop.simps)
  ultimately show ?thesis using bits256_bounds [of x] nz by simp
qed

lemma bits256_length_witness:
  "2 ^ (unat (bits256 (set256_uint64 5)) - 1) \<le> (5::nat)"
  using bits256_length [of "set256_uint64 5"]
  by (simp add: set256_uint64_def clear256_def clear128_def val256_def val128_def)

end
