(* ===== verification/UIntBytes.thy ===== *)
theory UIntBytes
  imports UInt256
begin

text \<open>
  Wide integers in memory: the big-endian readers and writers of \<open>helpers/uint256.c\<close>, the
  byte-swap macro of \<open>uint256.h\<close>, and the bytes of the structs themselves on a little-endian
  host, which the C code copies with \<open>memcpy\<close> and casts.
\<close>

section \<open>Definitions\<close>

definition ENDIAN_SWAP_U64 :: "u64 \<Rightarrow> u64" where
  "ENDIAN_SWAP_U64 v =
     (push_bit 56 (v AND 0x00000000000000ff) OR
      push_bit 40 (v AND 0x000000000000ff00) OR
      push_bit 24 (v AND 0x0000000000ff0000) OR
      push_bit 8 (v AND 0x00000000ff000000) OR
      drop_bit 8 (v AND 0x000000ff00000000) OR
      drop_bit 24 (v AND 0x0000ff0000000000) OR
      drop_bit 40 (v AND 0x00ff000000000000) OR
      drop_bit 56 (v AND 0xff00000000000000))"

text \<open>A \<open>uint64_t\<close> stored through a pointer on the host, and loaded from one.\<close>

definition store_u64 :: "u64 \<Rightarrow> u8 list" where
  "store_u64 v = le_bytes 8 (unat v)"

definition load_u64 :: "u8 list \<Rightarrow> u64" where
  "load_u64 bs = of_nat (be_val (rev bs))"

text \<open>\<open>htobe64\<close> on a little-endian host.\<close>

definition htobe64 :: "u64 \<Rightarrow> u64" where
  "htobe64 v = load_u64 (rev (store_u64 v))"

definition readUint64BE :: "u8 list \<Rightarrow> u64 outcome" where
  "readUint64BE buffer = bindE (read_at buffer 0 8) (\<lambda>b. Inr
     (push_bit 56 (ucast (b ! 0)) OR push_bit 48 (ucast (b ! 1)) OR
      push_bit 40 (ucast (b ! 2)) OR push_bit 32 (ucast (b ! 3)) OR
      push_bit 24 (ucast (b ! 4)) OR push_bit 16 (ucast (b ! 5)) OR
      push_bit 8 (ucast (b ! 6)) OR ucast (b ! 7)))"

text \<open>Both read the host's byte order, whatever their names say.\<close>

definition readu64BE :: "u8 list \<Rightarrow> uint128_t outcome" where
  "readu64BE buffer = bindE (read_at buffer 0 8) (\<lambda>b. Inr (U128 0 (load_u64 b)))"

definition readu64LE :: "u8 list \<Rightarrow> uint128_t outcome" where
  "readu64LE buffer = bindE (read_at buffer 0 8) (\<lambda>b. Inr (U128 0 (load_u64 b)))"

definition readu128BE :: "u8 list \<Rightarrow> uint128_t outcome" where
  "readu128BE buffer =
     bindE (readUint64BE buffer) (\<lambda>upper.
     bindE (readUint64BE (drop 8 buffer)) (\<lambda>lower. Inr (U128 upper lower)))"

definition readu256BE :: "u8 list \<Rightarrow> uint256_t outcome" where
  "readu256BE buffer =
     bindE (readu128BE buffer) (\<lambda>upper.
     bindE (readu128BE (drop 16 buffer)) (\<lambda>lower. Inr (U256 upper lower)))"

definition writeu128BE :: "uint128_t \<Rightarrow> u8 list \<Rightarrow> nat \<Rightarrow> u8 list outcome" where
  "writeu128BE number mem off =
     bindE (write_at mem off (store_u64 (ENDIAN_SWAP_U64 (UPPER number)))) (\<lambda>mem.
     write_at mem (off + 8) (store_u64 (ENDIAN_SWAP_U64 (LOWER number))))"

definition writeu256BE :: "uint256_t \<Rightarrow> u8 list \<Rightarrow> nat \<Rightarrow> u8 list outcome" where
  "writeu256BE number mem off =
     bindE (writeu128BE (UPPER256 number) mem off) (\<lambda>mem.
     writeu128BE (LOWER256 number) mem (off + 16))"

definition set256_uint64BE :: "u64 \<Rightarrow> uint256_t" where
  "set256_uint64BE v = (let target = clear256
     in U256 (UPPER256 target) (U128 (UPPER (LOWER256 target)) (htobe64 v)))"

text \<open>The 32 bytes of a \<open>uint256_t\<close> in memory, and the struct that 32 bytes make.\<close>

definition bytes_of_uint128 :: "uint128_t \<Rightarrow> u8 list" where
  "bytes_of_uint128 x = store_u64 (UPPER x) @ store_u64 (LOWER x)"

definition bytes_of_uint256 :: "uint256_t \<Rightarrow> u8 list" where
  "bytes_of_uint256 x = bytes_of_uint128 (UPPER256 x) @ bytes_of_uint128 (LOWER256 x)"

definition uint128_of_bytes :: "u8 list \<Rightarrow> uint128_t" where
  "uint128_of_bytes bs = U128 (load_u64 (take 8 bs)) (load_u64 (take 8 (drop 8 bs)))"

definition uint256_of_bytes :: "u8 list \<Rightarrow> uint256_t" where
  "uint256_of_bytes bs = U256 (uint128_of_bytes bs) (uint128_of_bytes (drop 16 bs))"

section \<open>Loads, stores and byte swaps\<close>

lemma length_store_u64 [simp]: "length (store_u64 v) = 8"
  by (simp add: store_u64_def)

lemma load_store_u64 [simp]: "load_u64 (store_u64 v) = v"
  using u64_bound [of v] by (simp add: load_u64_def store_u64_def rev_le_bytes be_val_be_bytes)

lemma store_load_u64: "length bs = 8 \<Longrightarrow> store_u64 (load_u64 bs) = bs"
proof -
  assume len: "length bs = 8"
  have "be_val (rev bs) < 2 ^ 64" using be_val_less [of "rev bs"] len by simp
  then have "rev (store_u64 (load_u64 bs)) = be_bytes (length (rev bs)) (be_val (rev bs))"
    using len by (simp add: store_u64_def load_u64_def unat_of_nat rev_le_bytes)
  then show ?thesis by (metis be_bytes_be_val rev_rev_ident)
qed

lemma unat_load_rev: "length bs = 8 \<Longrightarrow> unat (load_u64 (rev bs)) = be_val bs"
  using be_val_less [of bs] by (simp add: load_u64_def unat_of_nat)

lemma store_htobe64: "store_u64 (htobe64 v) = be_bytes 8 (unat v)"
  unfolding htobe64_def by (subst store_load_u64) (simp_all add: store_u64_def rev_le_bytes)

lemma store_u64_bytes:
  "store_u64 v = [ucast v, ucast (drop_bit 8 v), ucast (drop_bit 16 v),
     ucast (drop_bit 24 v), ucast (drop_bit 32 v), ucast (drop_bit 40 v), ucast (drop_bit 48 v),
     ucast (drop_bit 56 v)]"
proof -
  have b: "(of_nat (unat v div 2 ^ n) :: u8) = ucast (drop_bit n v)" for n
    by (simp only: word_unat_eq_iff unsigned_ucast_eq take_bit_eq_mod unat_of_nat unat_drop_bit_nat)
  show ?thesis
    using b [of 0] b [of 8] b [of 16] b [of 24] b [of 32] b [of 40] b [of 48] b [of 56]
    by (simp add: store_u64_def le_bytes_numeral div_mult2_eq [symmetric])
qed

text \<open>The byte-swap macro reverses the eight bytes.\<close>

lemma swap_masks:
  "(0x00000000000000ff :: u64) = mask 8" "(0x000000000000ff00 :: u64) = push_bit 8 (mask 8)"
  "(0x0000000000ff0000 :: u64) = push_bit 16 (mask 8)"
  "(0x00000000ff000000 :: u64) = push_bit 24 (mask 8)"
  "(0x000000ff00000000 :: u64) = push_bit 32 (mask 8)"
  "(0x0000ff0000000000 :: u64) = push_bit 40 (mask 8)"
  "(0x00ff000000000000 :: u64) = push_bit 48 (mask 8)"
  "(0xff00000000000000 :: u64) = push_bit 56 (mask 8)"
  by (simp_all add: mask_eq_exp_minus_1 push_bit_eq_mult)

lemma store_endian_swap: "store_u64 (ENDIAN_SWAP_U64 v) = rev (store_u64 v)"
  unfolding store_u64_bytes ENDIAN_SWAP_U64_def swap_masks
  by (auto simp: bit_eq_iff bit_simps)

lemma store_swap_be: "store_u64 (ENDIAN_SWAP_U64 v) = be_bytes 8 (unat v)"
  by (subst store_endian_swap) (simp add: store_u64_def rev_le_bytes)

section \<open>Big-endian readers and writers\<close>

text \<open>Joining one more byte below: no carry, so disjunction is addition.\<close>

lemma readUint64BE_bytes:
  assumes "length b = 8"
  shows "push_bit 56 (ucast (b ! 0)) OR push_bit 48 (ucast (b ! 1)) OR
      push_bit 40 (ucast (b ! 2)) OR push_bit 32 (ucast (b ! 3)) OR
      push_bit 24 (ucast (b ! 4)) OR push_bit 16 (ucast (b ! 5)) OR
      push_bit 8 (ucast (b ! 6)) OR ucast (b ! 7) = load_u64 (rev b)" (is "?w = _")
proof -
  have "store_u64 ?w = [b ! 7, b ! 6, b ! 5, b ! 4, b ! 3, b ! 2, b ! 1, b ! 0]"
    unfolding store_u64_bytes by (auto simp: bit_eq_iff bit_simps dest: bit_imp_le_length)
  also have "\<dots> = rev b"
    using assms by (auto simp: numeral_eq_Suc length_Suc_conv)
  finally show ?thesis by (metis load_store_u64)
qed

lemma readUint64BE_eq:
  "readUint64BE buffer =
     (if 8 \<le> length buffer then Inr (load_u64 (rev (take 8 buffer))) else Inl Out_of_bounds)"
proof (cases "8 \<le> length buffer")
  case True
  then show ?thesis
    by (simp add: readUint64BE_def read_at_def)
      (subst readUint64BE_bytes [of "take 8 buffer", simplified], simp_all)
next
  case False
  then show ?thesis by (simp add: readUint64BE_def read_at_def)
qed

lemma readu128BE_val:
  assumes "16 \<le> length buffer"
  shows "\<exists>x. readu128BE buffer = Inr x \<and> val128 x = be_val (take 16 buffer)"
proof -
  have "take 16 buffer = take 8 buffer @ take 8 (drop 8 buffer)"
    using take_add [of 8 8 buffer] by simp
  with assms show ?thesis
    by (simp add: readu128BE_def readUint64BE_eq val128_U128 unat_load_rev be_val_append)
qed

lemma readu256BE_val:
  assumes "32 \<le> length buffer"
  shows "\<exists>x. readu256BE buffer = Inr x \<and> val256 x = be_val (take 32 buffer)"
proof -
  have split: "take 32 buffer = take 16 buffer @ take 16 (drop 16 buffer)"
    using take_add [of 16 16 buffer] by simp
  from assms obtain u l where "readu128BE buffer = Inr u" "val128 u = be_val (take 16 buffer)"
      "readu128BE (drop 16 buffer) = Inr l" "val128 l = be_val (take 16 (drop 16 buffer))"
    using readu128BE_val [of buffer] readu128BE_val [of "drop 16 buffer"] that by fastforce
  with assms show ?thesis
    by (simp add: readu256BE_def val256_U256 split be_val_append)
qed

lemma be_bytes_val128:
  "be_bytes 16 (val128 x) = be_bytes 8 (unat (UPPER x)) @ be_bytes 8 (unat (LOWER x))"
  by (rule be_val_inj)
    (use u64_less in \<open>simp_all add: be_val_append be_val_be_bytes val128_def limbs_mod [of _ "2 ^ 64", simplified]\<close>)

lemma be_bytes_val256:
  "be_bytes 32 (val256 x) = be_bytes 16 (val128 (UPPER256 x)) @ be_bytes 16 (val128 (LOWER256 x))"
  by (rule be_val_inj)
    (use val128_less val256_less [of x] in \<open>simp_all add: be_val_append be_val_be_bytes val256_def\<close>)

text \<open>The writer leaves the 32 big-endian bytes of the number at the offset, and nothing else.\<close>

lemma writeu128BE_eq:
  assumes "off + 16 \<le> length mem"
  shows "writeu128BE x mem off = Inr (take off mem @ be_bytes 16 (val128 x) @ drop (off + 16) mem)"
  using assms
  by (simp add: writeu128BE_def write_at_def store_swap_be be_bytes_val128 add.commute)

lemma writeu256BE_eq:
  assumes "off + 32 \<le> length mem"
  shows "writeu256BE x mem off = Inr (take off mem @ be_bytes 32 (val256 x) @ drop (off + 32) mem)"
  using assms by (simp add: writeu256BE_def writeu128BE_eq be_bytes_val256 add.commute)

text \<open>The struct in memory, and a struct made of bytes copied into it.\<close>

lemma length_bytes_of_uint256 [simp]: "length (bytes_of_uint256 x) = 32"
  by (simp add: bytes_of_uint256_def bytes_of_uint128_def)

lemma uint256_of_bytes_of [simp]: "uint256_of_bytes (bytes_of_uint256 x) = x"
  by (simp add: uint256_of_bytes_def bytes_of_uint256_def uint128_of_bytes_def bytes_of_uint128_def)

lemma bytes_of_uint128_of: "length bs = 16 \<Longrightarrow> bytes_of_uint128 (uint128_of_bytes bs) = bs"
  by (simp add: bytes_of_uint128_def uint128_of_bytes_def store_load_u64)

lemma bytes_of_uint256_of:
  assumes "length bs = 32"
  shows "bytes_of_uint256 (uint256_of_bytes bs) = bs"
proof -
  have "uint128_of_bytes bs = uint128_of_bytes (take 16 bs)"
    by (simp add: uint128_of_bytes_def drop_take min_def)
  with assms show ?thesis
    by (simp add: bytes_of_uint256_def uint256_of_bytes_def bytes_of_uint128_of)
qed

section \<open>Properties\<close>

text \<open>
  What \<open>writeu256BE\<close> leaves in memory, \<open>readu256BE\<close> reads back, and it is the 32-byte big-endian
  form of the number, with every other byte of the memory as before.
\<close>

lemma writeu256BE_readu256BE:
  assumes "off + 32 \<le> length mem"
  shows "\<exists>mem'. writeu256BE x mem off = Inr mem' \<and>
    mem' = take off mem @ be_bytes 32 (val256 x) @ drop (off + 32) mem \<and>
    readu256BE (drop off mem') = Inr x"
proof -
  let ?mem = "take off mem @ be_bytes 32 (val256 x) @ drop (off + 32) mem"
  have d: "drop off ?mem = be_bytes 32 (val256 x) @ drop (off + 32) mem" using assms by simp
  obtain y where "readu256BE (drop off ?mem) = Inr y" "val256 y = be_val (be_bytes 32 (val256 x))"
    using readu256BE_val [of "drop off ?mem"] unfolding d by auto
  moreover from this have "y = x"
    using val256_less [of x] by (simp add: be_val_be_bytes flip: val256_inj)
  ultimately show ?thesis using writeu256BE_eq [OF assms] by blast
qed

lemma writeu256BE_readu256BE_witness:
  "\<exists>mem'. writeu256BE (set256_uint64 0x1234) (replicate 40 7) 4 = Inr mem' \<and>
    readu256BE (drop 4 mem') = Inr (set256_uint64 0x1234)"
  using writeu256BE_readu256BE [of 4 "replicate 40 7" "set256_uint64 0x1234"] by auto

end
