(* ===== verification/Rlp.thy ===== *)
theory Rlp
  imports UIntBytes
begin

text \<open>
  \<open>helpers/rlp_encoder.c\<close>: the RLP encoding of byte strings, integers and list headers. An output
  pointer is a memory and an offset in it; the value returned is the C return value with the
  memory afterwards. The encoders are compared with the RLP of the Ethereum yellow paper, given
  as a reference encoder and a reference decoder.
\<close>

section \<open>Definitions\<close>

definition HEADER_LEN :: nat where
  "HEADER_LEN = 4 + 1"

definition HEADER_DATA_MAXLEN :: u32 where
  "HEADER_DATA_MAXLEN = push_bit ((HEADER_LEN - 1) * 8 - 1) 1"

function rlp_header_len_loop :: "nat \<Rightarrow> u8 \<Rightarrow> u8" where
  "rlp_header_len_loop input_len bytes =
    (if input_len > 0 then rlp_header_len_loop (drop_bit 8 input_len) (bytes + 1) else bytes)"
  by pat_completeness auto
termination
  by (relation "measure fst") (auto simp: drop_bit_eq_div intro: div_less_dividend)

declare rlp_header_len_loop.simps [simp del]

definition rlp_header_len :: "nat \<Rightarrow> u8" where
  "rlp_header_len input_len =
    (if input_len \<le> 55 then 1 else rlp_header_len_loop input_len 0 + 1)"

function val_size_bytes_loop :: "u32 \<Rightarrow> u8 \<Rightarrow> u8" where
  "val_size_bytes_loop val shifts =
    (if val > 0 then val_size_bytes_loop (drop_bit 8 val) (shifts + 1) else shifts)"
  by pat_completeness auto
termination
  by (relation "measure (unat \<circ> fst)")
    (auto simp: unat_ops word_less_nat_alt intro: div_less_dividend)

declare val_size_bytes_loop.simps [simp del]

definition val_size_bytes :: "u32 \<Rightarrow> u32" where
  "val_size_bytes val = ucast (val_size_bytes_loop val 0)"

function encode_int_loop :: "u32 \<Rightarrow> u8 \<Rightarrow> u8 list \<Rightarrow> nat \<Rightarrow> u8 list outcome" where
  "encode_int_loop val size_tmp mem off =
    (if val > 0 then
       (let size_tmp = size_tmp - 1 in
        bindE (write_at mem (off + unat size_tmp) [ucast (val AND 0xff)]) (\<lambda>mem.
        encode_int_loop (drop_bit 8 val) size_tmp mem off))
     else Inr mem)"
  by pat_completeness auto
termination
  by (relation "measure (unat \<circ> fst)")
    (auto simp: unat_ops word_less_nat_alt intro: div_less_dividend)

declare encode_int_loop.simps [simp del]

definition encode_int_to_bytes ::
    "u32 \<Rightarrow> u8 list \<Rightarrow> nat \<Rightarrow> nat \<Rightarrow> (u8 \<times> u8 list) outcome" where
  "encode_int_to_bytes val mem off output_max =
    (let size_bytes = val_size_bytes val; size_tmp = ucast size_bytes
     in bindE (assertE (output_max \<ge> unat size_bytes)) (\<lambda>_.
        bindE (encode_int_loop val size_tmp mem off) (\<lambda>mem. Inr (ucast size_bytes, mem))))"

text \<open>\<open>input_len == 1 && P(input[0])\<close>: the byte is only read when the length is one.\<close>

definition single_byte :: "(u8 \<Rightarrow> bool) \<Rightarrow> u8 list \<Rightarrow> u32 \<Rightarrow> bool outcome" where
  "single_byte P input input_len =
    (if input_len = 1 then bindE (read_at input 0 1) (\<lambda>b. Inr (P (b ! 0))) else Inr False)"

definition rlp_encode_item :: "u8 list \<Rightarrow> nat \<Rightarrow> u8 list \<Rightarrow> u32 \<Rightarrow> (u32 \<times> u8 list) outcome" where
  "rlp_encode_item mem off input input_len =
    bindE (single_byte (\<lambda>b. b = 0x00) input input_len) (\<lambda>empty.
    if empty then bindE (write_at mem off [0x80]) (\<lambda>mem. Inr (1, mem))
    else bindE (single_byte (\<lambda>b. b < 128) input input_len) (\<lambda>single.
    if single then
      bindE (read_at input 0 1) (\<lambda>b. bindE (write_at mem off b) (\<lambda>mem. Inr (1, mem)))
    else if input_len \<le> 55 then
      (let header = 0x80 + ucast input_len in
       bindE (write_at mem off [header]) (\<lambda>mem.
       bindE (read_at input 0 (unat input_len)) (\<lambda>data.
       bindE (write_at mem (off + 1) data) (\<lambda>mem. Inr (input_len + 1, mem)))))
    else
      bindE (encode_int_to_bytes input_len mem (off + 1) 4) (\<lambda>(n, mem).
      let input_len_bytes = ucast n :: u32 in
      bindE (write_at mem off [0xb7 + ucast input_len_bytes]) (\<lambda>mem.
      bindE (read_at input 0 (unat input_len)) (\<lambda>data.
      bindE (write_at mem (off + unat input_len_bytes + 1) data) (\<lambda>mem.
      Inr (input_len + input_len_bytes + 1, mem)))))))"

definition rlp_encode_array_header :: "u8 list \<Rightarrow> nat \<Rightarrow> u32 \<Rightarrow> (u32 \<times> u8 list) outcome" where
  "rlp_encode_array_header mem off total_len =
    bindE (assertE (total_len \<le> HEADER_DATA_MAXLEN)) (\<lambda>_.
    if total_len < 55 then
      bindE (write_at mem off [0xc0 + ucast total_len]) (\<lambda>mem. Inr (1, mem))
    else
      bindE (encode_int_to_bytes total_len mem (off + 1) 4) (\<lambda>(n, mem).
      let input_len_bytes = ucast n :: u32 in
      bindE (write_at mem off [0xf7 + ucast input_len_bytes]) (\<lambda>mem.
      Inr (input_len_bytes + 1, mem))))"

text \<open>The \<open>for\<close> loop of \<open>_prepare_integer\<close>: \<open>i\<close> and \<open>*out\<close> when it stops.\<close>

function prepare_integer_loop :: "nat \<Rightarrow> u64 \<Rightarrow> nat \<times> u64" where
  "prepare_integer_loop i out =
    (if i < 8 then
       if out AND 0xff \<noteq> 0 then (i, out) else prepare_integer_loop (i + 1) (drop_bit 8 out)
     else (i, out))"
  by pat_completeness auto
termination
  by (relation "measure (\<lambda>(i, out). 8 - i)") auto

declare prepare_integer_loop.simps [simp del]

definition prepare_integer :: "u64 \<Rightarrow> u8 \<times> u64" where
  "prepare_integer val =
    (let (i, out) = prepare_integer_loop 0 (htobe64 val) in (of_nat (8 - i), out))"

definition rlp_encode_integer :: "u8 list \<Rightarrow> nat \<Rightarrow> u64 \<Rightarrow> (u32 \<times> u8 list) outcome" where
  "rlp_encode_integer mem off val =
    (let (size, x) = prepare_integer val in rlp_encode_item mem off (store_u64 x) (ucast size))"

text \<open>
  \<open>&val + sizeof(128)\<close> is pointer arithmetic on \<open>uint256_t *\<close>: it moves by \<open>sizeof(int)\<close>, that is 4,
  times the 32 bytes of the struct, outside of it.
\<close>

definition rlp_encode_uint256 :: "u8 list \<Rightarrow> nat \<Rightarrow> uint256_t \<Rightarrow> (u32 \<times> u8 list) outcome" where
  "rlp_encode_uint256 mem off val =
    (if zero128 (UPPER256 val) then
       if UPPER (LOWER256 val) = 0 then rlp_encode_integer mem off (LOWER (LOWER256 val))
       else rlp_encode_item mem off (drop (4 * 32) (bytes_of_uint256 val)) (32 - 4)
     else rlp_encode_item mem off (bytes_of_uint256 val) 32)"

section \<open>Reference encoding and decoding\<close>

text \<open>A number in as few big-endian bytes as it takes, none for zero.\<close>

function min_bytes :: "nat \<Rightarrow> u8 list" where
  "min_bytes n = (if n = 0 then [] else min_bytes (n div 256) @ [of_nat n])"
  by pat_completeness auto
termination
  by (relation "measure (\<lambda>n. n)") auto

declare min_bytes.simps [simp del]

definition rlp_string :: "u8 list \<Rightarrow> u8 list" where
  "rlp_string bs =
    (if length bs = 1 \<and> hd bs < 128 then bs
     else if length bs \<le> 55 then (0x80 + of_nat (length bs)) # bs
     else (0xb7 + of_nat (length (min_bytes (length bs)))) # min_bytes (length bs) @ bs)"

definition rlp_list_header :: "nat \<Rightarrow> u8 list" where
  "rlp_list_header n =
    (if n \<le> 55 then [0xc0 + of_nat n] else (0xf7 + of_nat (length (min_bytes n))) # min_bytes n)"

text \<open>The decoders return what the header announces and the rest of the input.\<close>

fun rlp_decode_string :: "u8 list \<Rightarrow> (u8 list \<times> u8 list) option" where
  "rlp_decode_string [] = None"
| "rlp_decode_string (h # bs) =
    (if h < 0x80 then Some ([h], bs)
     else if h < 0xb8 then
       (let n = unat h - 0x80 in if n \<le> length bs then Some (take n bs, drop n bs) else None)
     else if h < 0xc0 then
       (let k = unat h - 0xb7; n = be_val (take k bs) in
        if k + n \<le> length bs then Some (take n (drop k bs), drop (k + n) bs) else None)
     else None)"

fun rlp_decode_list :: "u8 list \<Rightarrow> (nat \<times> u8 list) option" where
  "rlp_decode_list [] = None"
| "rlp_decode_list (h # bs) =
    (if h < 0xc0 then None
     else if h < 0xf8 then Some (unat h - 0xc0, bs)
     else (let k = unat h - 0xf7 in
       if k \<le> length bs then Some (be_val (take k bs), drop k bs) else None))"

lemma min_bytes_0 [simp]: "min_bytes 0 = []"
  by (simp add: min_bytes.simps)

lemma min_bytes_pos: "0 < n \<Longrightarrow> min_bytes n = min_bytes (n div 256) @ [of_nat n]"
  by (subst min_bytes.simps) simp

lemma be_val_min_bytes [simp]: "be_val (min_bytes n) = n"
proof (induction n rule: min_bytes.induct)
  case (1 n)
  then show ?case by (cases "n = 0") (simp_all add: min_bytes_pos unat_of_nat_u8)
qed

lemma length_min_bytes_le: "n < 256 ^ k \<Longrightarrow> length (min_bytes n) \<le> k"
proof (induction n arbitrary: k rule: min_bytes.induct)
  case (1 n)
  show ?case
  proof (cases "n = 0")
    case False
    with 1(2) obtain j where j: "k = Suc j" by (cases k) auto
    with 1(2) have "n div 256 < 256 ^ j" by (simp add: less_mult_imp_div_less mult.commute)
    with 1(1) [OF False] False j show ?thesis by (simp add: min_bytes_pos)
  qed simp
qed

lemma length_min_bytes_pos: "0 < n \<Longrightarrow> 0 < length (min_bytes n)"
  by (simp add: min_bytes_pos)

text \<open>Stripping the leading zeros of a fixed-width form.\<close>

lemma dropWhile_be_bytes: "n < 256 ^ k \<Longrightarrow> dropWhile (\<lambda>b. b = 0) (be_bytes k n) = min_bytes n"
proof (induction k arbitrary: n)
  case (Suc k)
  have IH: "dropWhile (\<lambda>b. b = 0) (be_bytes k (n div 256)) = min_bytes (n div 256)"
    using Suc by (simp add: less_mult_imp_div_less mult.commute)
  show ?case
  proof (cases "n div 256 = 0")
    case True
    then have "n < 256" by (simp add: div_eq_0_iff)
    then have "of_nat n = (0::u8) \<longleftrightarrow> n = 0"
      by (simp add: word_unat_eq_iff unat_of_nat_u8)
    moreover have "\<forall>b \<in> set (be_bytes k (n div 256)). b = 0" using IH True by simp
    ultimately show ?thesis
      by (auto simp: be_bytes_Suc dropWhile_append2 min_bytes.simps [of n] True)
  next
    case False
    then have "0 < n" by (cases n) auto
    have "dropWhile (\<lambda>b. b = 0) (be_bytes k (n div 256)) \<noteq> []"
      using IH False length_min_bytes_pos [of "n div 256"] by auto
    then have "\<exists>b \<in> set (be_bytes k (n div 256)). b \<noteq> 0" by (auto simp: dropWhile_eq_Nil_conv)
    with IH \<open>0 < n\<close> show ?thesis
      by (auto simp: be_bytes_Suc min_bytes_pos dropWhile_append1)
  qed
qed simp

text \<open>The reference decoder undoes the reference encoder, whatever follows.\<close>

lemma min_bytes_u32: "n < 2 ^ 32 \<Longrightarrow> length (min_bytes n) \<le> 4"
  using length_min_bytes_le [of n 4] by simp

lemma rlp_decode_string_string:
  assumes "length bs < 2 ^ 32"
  shows "rlp_decode_string (rlp_string bs @ rest) = Some (bs, rest)"
proof -
  consider (single) "length bs = 1" "hd bs < 128" | (short) "\<not> (length bs = 1 \<and> hd bs < 128)" "length bs \<le> 55"
    | (long) "55 < length bs"
    by linarith
  then show ?thesis
  proof cases
    case single
    then obtain b where "bs = [b]" by (cases bs) auto
    with single show ?thesis by (simp add: rlp_string_def)
  next
    case short
    have u: "unat (0x80 + of_nat (length bs) :: u8) = 0x80 + length bs"
      using short(2) by (simp add: unat_word_ariths unat_of_nat)
    with short show ?thesis by (auto simp: rlp_string_def word_less_nat_alt u)
  next
    case long
    let ?k = "length (min_bytes (length bs))"
    have k: "0 < ?k" "?k \<le> 4"
      using long min_bytes_u32 [OF assms] by (simp_all only: length_min_bytes_pos)
    then have u: "unat (0xb7 + of_nat ?k :: u8) = 0xb7 + ?k"
      by (simp add: unat_word_ariths unat_of_nat)
    with long k show ?thesis by (simp add: rlp_string_def word_less_nat_alt u)
  qed
qed

lemma rlp_decode_list_header:
  assumes "n < 2 ^ 32"
  shows "rlp_decode_list (rlp_list_header n @ rest) = Some (n, rest)"
proof (cases "n \<le> 55")
  case True
  then have u: "unat (0xc0 + of_nat n :: u8) = 0xc0 + n"
    by (simp add: unat_word_ariths unat_of_nat)
  with True show ?thesis by (simp add: rlp_list_header_def word_less_nat_alt u)
next
  case False
  let ?k = "length (min_bytes n)"
  have k: "0 < ?k" "?k \<le> 4"
    using False min_bytes_u32 [OF assms] by (simp_all only: length_min_bytes_pos)
  then have u: "unat (0xf7 + of_nat ?k :: u8) = 0xf7 + ?k"
    by (simp add: unat_word_ariths unat_of_nat)
  with False k show ?thesis by (simp add: rlp_list_header_def word_less_nat_alt u)
qed

section \<open>The encoders against the reference\<close>

lemma rlp_header_len_loop_val:
  "unat bytes + length (min_bytes n) < 256 \<Longrightarrow>
   unat (rlp_header_len_loop n bytes) = unat bytes + length (min_bytes n)"
proof (induction n bytes rule: rlp_header_len_loop.induct)
  case (1 n bytes)
  show ?case
  proof (cases "n > 0")
    case True
    then have "length (min_bytes n) = Suc (length (min_bytes (n div 256)))"
      by (simp add: min_bytes_pos)
    moreover from this 1(2) have "unat (bytes + 1) = unat bytes + 1"
      by (simp add: unat_word_ariths)
    ultimately show ?thesis using 1 True
      by (subst rlp_header_len_loop.simps) (simp add: drop_bit_eq_div)
  qed (subst rlp_header_len_loop.simps, simp)
qed

text \<open>The header length of the code is that of the reference header.\<close>

lemma rlp_header_len_val:
  assumes "n < 2 ^ 32"
  shows "unat (rlp_header_len n) = length (rlp_list_header n)"
proof -
  have "length (min_bytes n) \<le> 4" using assms by (rule min_bytes_u32)
  then have "unat (rlp_header_len_loop n 0 + 1) = length (min_bytes n) + 1"
    using rlp_header_len_loop_val [of 0 n] by (simp add: unat_word_ariths)
  then show ?thesis by (simp add: rlp_header_len_def rlp_list_header_def)
qed

lemma val_size_bytes_loop_val:
  "unat shifts + length (min_bytes (unat val)) < 256 \<Longrightarrow>
   unat (val_size_bytes_loop val shifts) = unat shifts + length (min_bytes (unat val))"
proof (induction val shifts rule: val_size_bytes_loop.induct)
  case (1 val shifts)
  show ?case
  proof (cases "val > 0")
    case True
    then have "length (min_bytes (unat val)) = Suc (length (min_bytes (unat val div 256)))"
      by (simp add: min_bytes_pos unat_gt_0 word_gt_0)
    moreover from this 1(2) have "unat (shifts + 1) = unat shifts + 1"
      by (simp add: unat_word_ariths)
    ultimately show ?thesis using 1 True
      by (subst val_size_bytes_loop.simps) (simp add: unat_ops)
  qed (subst val_size_bytes_loop.simps, simp add: word_gt_0)
qed

lemma u32_min_bytes: "length (min_bytes (unat (v::u32))) \<le> 4"
  using u32_bound [of v] by (intro min_bytes_u32) simp

lemma val_size_bytes_val: "unat (val_size_bytes v) = length (min_bytes (unat v))"
proof -
  have "unat (val_size_bytes_loop v 0) = length (min_bytes (unat v))"
    using val_size_bytes_loop_val [of 0 v] u32_min_bytes [of v] by simp
  then show ?thesis
    using u32_min_bytes [of v] by (simp add: val_size_bytes_def unsigned_ucast_eq take_bit_eq_mod)
qed

lemma encode_int_loop_val:
  assumes "unat s = length (min_bytes (unat val))" "off + unat s \<le> length mem"
  shows "encode_int_loop val s mem off =
    Inr (take off mem @ min_bytes (unat val) @ drop (off + unat s) mem)"
  using assms
proof (induction val s mem off rule: encode_int_loop.induct)
  case (1 val s mem off)
  show ?case
  proof (cases "val > 0")
    case True
    then have m: "min_bytes (unat val) = min_bytes (unat val div 256) @ [of_nat (unat val)]"
      by (simp add: min_bytes_pos unat_gt_0 word_gt_0)
    have s: "unat (s - 1) = unat s - 1" and pos: "0 < unat s"
      using 1(2) m by (simp_all add: unat_pred)
    have b: "ucast (val AND 0xff) = (of_nat (unat val) :: u8)"
    proof -
      have m: "(0xff::u32) = mask 8" by (simp add: mask_eq_decr_exp)
      have "unat (val AND 0xff) = unat val mod 256" unfolding m unat_ops by simp
      then show ?thesis
        by (simp add: word_unat_eq_iff unsigned_ucast_eq take_bit_eq_mod unat_of_nat)
    qed
    let ?mem = "take (off + (unat s - 1)) mem @ [of_nat (unat val)] @ drop (off + unat s) mem"
    have w: "write_at mem (off + unat (s - 1)) [ucast (val AND 0xff)] = Inr ?mem"
      using 1(3) pos by (simp add: write_at_def s b)
    have "encode_int_loop val s mem off = encode_int_loop (drop_bit 8 val) (s - 1) ?mem off"
      using True by (subst encode_int_loop.simps) (simp only: Let_def w bindE_Inr if_True)
    also have "\<dots> = Inr (take off ?mem @ min_bytes (unat (drop_bit 8 val)) @ drop (off + unat (s - 1)) ?mem)"
      using True 1(2,3) m s pos by (intro 1(1) [OF True refl w]) (simp_all add: unat_ops)
    also have "take off ?mem = take off mem" using 1(3) pos by (cases "unat s") simp_all
    also have "drop (off + unat (s - 1)) ?mem = [of_nat (unat val)] @ drop (off + unat s) mem"
      using 1(3) pos by (simp add: s)
    finally show ?thesis by (simp add: m unat_ops)
  next
    case False
    then have "unat val = 0" by (simp add: word_gt_0)
    with False 1(2) show ?thesis by (subst encode_int_loop.simps) simp
  qed
qed

lemma encode_int_to_bytes_val:
  assumes "length (min_bytes (unat val)) \<le> output_max" "off + length (min_bytes (unat val)) \<le> length mem"
  shows "encode_int_to_bytes val mem off output_max = Inr (of_nat (length (min_bytes (unat val))),
    take off mem @ min_bytes (unat val) @ drop (off + length (min_bytes (unat val))) mem)"
proof -
  let ?k = "length (min_bytes (unat val))"
  have k: "?k \<le> 4" by (rule u32_min_bytes)
  have u: "unat (ucast (val_size_bytes val) :: u8) = ?k"
    using k by (simp add: unsigned_ucast_eq take_bit_eq_mod val_size_bytes_val)
  then have "ucast (val_size_bytes val) = (of_nat ?k :: u8)"
    using k by (simp add: word_unat_eq_iff unat_of_nat)
  with u encode_int_loop_val [of "ucast (val_size_bytes val)" val off mem] assms show ?thesis
    by (simp add: encode_int_to_bytes_def val_size_bytes_val)
qed

text \<open>
  The bytes \<open>rlp_encode_item\<close> writes: the encoding of the string, except that the one-byte string
  0 is encoded as the empty string.
\<close>

definition rlp_item :: "u8 list \<Rightarrow> u8 list" where
  "rlp_item bs = rlp_string (if bs = [0] then [] else bs)"

lemma single_byte_val:
  "unat n \<le> length input \<Longrightarrow>
   single_byte P input n = Inr (length (take (unat n) input) = 1 \<and> P (hd (take (unat n) input)))"
proof -
  assume n: "unat n \<le> length input"
  have one: "n = 1 \<longleftrightarrow> unat n = 1" by (simp add: word_unat_eq_iff)
  show ?thesis
  proof (cases "unat n = 1")
    case True
    with n obtain b bs where "input = b # bs" by (cases input) auto
    with True one show ?thesis by (simp add: single_byte_def read_at_def)
  next
    case False
    with one n show ?thesis by (simp add: single_byte_def)
  qed
qed

text \<open>The header byte goes before the bytes just written, the content behind them.\<close>

lemma write_at_before:
  "off < length mem \<Longrightarrow>
   write_at (take (Suc off) mem @ bs @ rest) off [h] = Inr (take off mem @ h # bs @ rest)"
  by (simp add: write_at_def min_def)

lemma write_at_behind:
  assumes "length pre = off" "length data \<le> length rest"
  shows "write_at (pre @ rest) off data = Inr (pre @ data @ drop (length data) rest)"
  using assms by (simp add: write_at_def)

lemma rlp_encode_item_val:
  assumes n: "unat n \<le> length input" and bs: "bs = take (unat n) input"
    and room: "off + length (rlp_item bs) \<le> length mem" and small: "unat n + 5 < 2 ^ 32"
  shows "rlp_encode_item mem off input n = Inr (of_nat (length (rlp_item bs)),
    take off mem @ rlp_item bs @ drop (off + length (rlp_item bs)) mem)"
proof -
  have len: "length bs = unat n" using n bs by simp
  note single = single_byte_val [OF n, folded bs]
  have read: "read_at input 0 (unat n) = Inr bs" using n bs by (simp add: read_at_def)
  have w: "write_at mem off (rlp_item bs) =
      Inr (take off mem @ rlp_item bs @ drop (off + length (rlp_item bs)) mem)"
    using room by (rule write_at_Inr)
  consider (zero) "bs = [0]" | (single) "length bs = 1" "hd bs \<noteq> 0" "hd bs < 128"
    | (short) "\<not> (length bs = 1 \<and> hd bs < 128)" "length bs \<le> 55"
    | (long) "55 < length bs"
    by (cases "bs = [0]"; cases "length bs = 1 \<and> hd bs < 128"; cases "length bs \<le> 55")
      ((auto simp: length_Suc_conv)[1], blast?)+
  then show ?thesis
  proof cases
    case zero
    then have "rlp_item bs = [0x80]" by (simp add: rlp_item_def rlp_string_def)
    with zero w show ?thesis by (simp add: rlp_encode_item_def single)
  next
    case single
    then obtain b where b: "bs = [b]" by (cases bs) auto
    with single have "rlp_item bs = bs" by (simp add: rlp_item_def rlp_string_def)
    moreover have "read_at input 0 (Suc 0) = Inr bs" using read len b by simp
    ultimately show ?thesis using single b w by (simp add: rlp_encode_item_def single_byte_val [OF n, folded bs])
  next
    case short
    then have nz: "bs \<noteq> [0]" by auto
    have item: "rlp_item bs = [0x80 + ucast n] @ bs"
      using short len nz by (auto simp: rlp_item_def rlp_string_def)
    have n1: "of_nat (length bs) + 1 = n + 1" using len by simp
    have w1: "write_at mem off [0x80 + ucast n] = Inr (take off mem @ (0x80 + ucast n) # drop (Suc off) mem)"
      using room by (simp add: item write_at_def)
    have w2: "write_at (take off mem @ (0x80 + ucast n) # drop (Suc off) mem) (off + 1) bs =
        write_at mem off (rlp_item bs)"
    proof -
      have "Suc (off + length bs) \<le> length mem" using room by (simp add: item)
      then show ?thesis by (auto simp: item write_at_def min_def add.commute)
    qed
    have "n \<le> 55" using short(2) len by (simp add: word_le_nat_alt)
    with short nz w w1 w2 read show ?thesis
      by (auto simp: rlp_encode_item_def single Let_def item len)
  next
    case long
    let ?k = "length (min_bytes (length bs))"
    have k: "?k \<le> 4" using u32_min_bytes [of n] by (simp add: len)
    have item: "rlp_item bs = [0xb7 + of_nat ?k] @ min_bytes (length bs) @ bs"
      using long by (auto simp: rlp_item_def rlp_string_def)
    have e: "encode_int_to_bytes n mem (off + 1) 4 = Inr (of_nat ?k,
        take (off + 1) mem @ min_bytes (length bs) @ drop (off + 1 + ?k) mem)"
      using encode_int_to_bytes_val [of n 4 "off + 1" mem] k room by (simp add: item len)
    have uk: "(ucast (of_nat ?k :: u8) :: u32) = of_nat ?k" "unat (of_nat ?k :: u32) = ?k"
        "(ucast (of_nat ?k :: u32) :: u8) = of_nat ?k"
      using k by (simp_all add: word_unat_eq_iff unsigned_ucast_eq take_bit_eq_mod unat_of_nat)
    let ?h = "0xb7 + of_nat ?k :: u8"
    have off: "off < length mem" and d: "length bs \<le> length (drop (Suc (off + ?k)) mem)"
      using room by (simp_all add: item)
    have h: "write_at (take (Suc off) mem @ min_bytes (length bs) @ drop (Suc (off + ?k)) mem) off [?h] =
        Inr ((take off mem @ ?h # min_bytes (length bs)) @ drop (Suc (off + ?k)) mem)"
      using write_at_before [OF off] by simp
    have "write_at ((take off mem @ ?h # min_bytes (length bs)) @ drop (Suc (off + ?k)) mem)
        (off + ?k + 1) bs =
        Inr ((take off mem @ ?h # min_bytes (length bs)) @ bs @ drop (length bs) (drop (Suc (off + ?k)) mem))"
      by (rule write_at_behind) (use off d in simp_all)
    note data = this
    have "\<not> n \<le> 55" "n \<noteq> 1" using long len by (auto simp: word_le_nat_alt)
    with long e read h data len show ?thesis
      by (auto simp: rlp_encode_item_def single Let_def uk [unfolded len] item add.commute
          add.left_commute)
  qed
qed

text \<open>The list header differs from the reference only for 55 bytes of content.\<close>

definition rlp_array_header :: "nat \<Rightarrow> u8 list" where
  "rlp_array_header n = (if n = 55 then [0xf8, 55] else rlp_list_header n)"

lemma rlp_encode_array_header_val:
  assumes n: "unat n \<le> 2 ^ 31" and room: "off + length (rlp_array_header (unat n)) \<le> length mem"
  shows "rlp_encode_array_header mem off n = Inr (of_nat (length (rlp_array_header (unat n))),
    take off mem @ rlp_array_header (unat n) @ drop (off + length (rlp_array_header (unat n))) mem)"
proof -
  have max: "n \<le> HEADER_DATA_MAXLEN"
    using n by (simp add: HEADER_DATA_MAXLEN_def HEADER_LEN_def push_bit_eq_mult word_le_nat_alt)
  show ?thesis
  proof (cases "unat n < 55")
    case True
    then have "n < 55" by (simp add: word_less_nat_alt)
    with True max room show ?thesis
      by (simp add: rlp_encode_array_header_def rlp_array_header_def rlp_list_header_def write_at_def)
  next
    case False
    let ?k = "length (min_bytes (unat n))"
    have k: "?k \<le> 4" by (rule u32_min_bytes)
    have "min_bytes 55 = [55]" by (simp add: min_bytes_pos)
    with False have h: "rlp_array_header (unat n) = (0xf7 + of_nat ?k) # min_bytes (unat n)"
      by (auto simp: rlp_array_header_def rlp_list_header_def)
    have e: "encode_int_to_bytes n mem (off + 1) 4 = Inr (of_nat ?k,
        take (off + 1) mem @ min_bytes (unat n) @ drop (off + 1 + ?k) mem)"
      using encode_int_to_bytes_val [of n 4 "off + 1" mem] k room by (simp add: h)
    have uk: "(ucast (of_nat ?k :: u8) :: u32) = of_nat ?k" "(ucast (of_nat ?k :: u32) :: u8) = of_nat ?k"
      using k by (simp_all add: word_unat_eq_iff unsigned_ucast_eq take_bit_eq_mod unat_of_nat)
    have "\<not> n < 55" "off < length mem" using False room by (simp_all add: word_less_nat_alt h)
    with max e room show ?thesis
      by (simp add: rlp_encode_array_header_def Let_def uk h write_at_before)
  qed
qed

text \<open>
  \<open>_prepare_integer\<close>: each shift drops the first byte of the stored value, so the loop strips the
  leading zeros of the big-endian form.
\<close>

lemma store_shift8: "store_u64 (drop_bit 8 w) = tl (store_u64 w) @ [0]"
  unfolding store_u64_bytes by (auto simp: bit_eq_iff bit_simps dest: bit_imp_le_length)

lemma store_low_byte: "w AND 0xff = 0 \<longleftrightarrow> hd (store_u64 w) = 0"
proof -
  have m: "(0xff::u64) = mask 8" by (simp add: mask_eq_exp_minus_1)
  have "unat (w AND 0xff) = unat w mod 2 ^ 8" unfolding m by (rule unat_mask_nat)
  then have "w AND 0xff = 0 \<longleftrightarrow> unat w mod 2 ^ 8 = 0" by (simp add: word_unat_eq_iff)
  also have "\<dots> \<longleftrightarrow> ucast w = (0::u8)"
    by (simp add: word_unat_eq_iff unsigned_ucast_eq take_bit_eq_mod)
  finally show ?thesis by (simp add: store_u64_bytes)
qed

lemma store_Cons: "\<exists>b bs. store_u64 w = b # bs"
  by (simp add: store_u64_bytes)

lemma prepare_integer_loop_strip:
  assumes "i \<le> 8" "store_u64 w = bs @ replicate i 0"
  shows "\<exists>j out. prepare_integer_loop i w = (j, out) \<and> j \<le> 8 \<and>
    dropWhile (\<lambda>b. b = 0) bs = take (8 - j) (store_u64 out)"
  using assms
proof (induction i w arbitrary: bs rule: prepare_integer_loop.induct)
  case (1 i w)
  have len: "length bs + i = 8"
    using arg_cong [OF 1(3), of length] by simp
  show ?case
  proof (cases "i < 8")
    case False
    with len 1(2) have "length bs = 0" "i = 8" by linarith+
    moreover from this have "bs = []" by simp
    ultimately show ?thesis by (subst prepare_integer_loop.simps) simp
  next
    case True
    with len obtain b bs' where bs: "bs = b # bs'" by (cases bs) auto
    have b: "w AND 0xff = 0 \<longleftrightarrow> b = 0" unfolding store_low_byte 1(3) bs by simp
    show ?thesis
    proof (cases "b = 0")
      case False
      have "take (8 - i) (store_u64 w) = bs" using len by (simp add: 1(3) flip: len)
      with False True b bs show ?thesis by (subst prepare_integer_loop.simps) simp
    next
      case zero: True
      have "store_u64 (drop_bit 8 w) = bs' @ replicate (i + 1) 0"
        by (simp add: store_shift8 1(3) bs replicate_append_same)
      with True zero b have "\<exists>j out. prepare_integer_loop (i + 1) (drop_bit 8 w) = (j, out) \<and> j \<le> 8 \<and>
          dropWhile (\<lambda>b. b = 0) bs' = take (8 - j) (store_u64 out)"
        by (intro 1(1)) auto
      with True zero b bs show ?thesis by (subst prepare_integer_loop.simps) simp
    qed
  qed
qed

lemma u64_min_bytes: "length (min_bytes (unat (v::u64))) \<le> 8"
  using u64_bound [of v] by (intro length_min_bytes_le) simp

lemma prepare_integer_val:
  "\<exists>x. prepare_integer val = (of_nat (length (min_bytes (unat val))), x) \<and>
    take (length (min_bytes (unat val))) (store_u64 x) = min_bytes (unat val)"
proof -
  have "store_u64 (htobe64 val) = be_bytes 8 (unat val) @ replicate 0 0" by (simp add: store_htobe64)
  from prepare_integer_loop_strip [OF _ this] obtain j out where
    l: "prepare_integer_loop 0 (htobe64 val) = (j, out)" "j \<le> 8"
    and d: "dropWhile (\<lambda>b. b = 0) (be_bytes 8 (unat val)) = take (8 - j) (store_u64 out)"
    by auto
  have "min_bytes (unat val) = take (8 - j) (store_u64 out)"
    using d dropWhile_be_bytes [of "unat val" 8] u64_bound [of val] by simp
  moreover from this l(2) have "length (min_bytes (unat val)) = 8 - j" by simp
  ultimately show ?thesis using l(1) by (simp add: prepare_integer_def)
qed

lemma min_bytes_item: "rlp_item (min_bytes n) = rlp_string (min_bytes n)"
proof -
  have "min_bytes n \<noteq> [0]" using be_val_min_bytes [of n] by (cases "n = 0") (auto simp: be_val_def)
  then show ?thesis by (simp add: rlp_item_def)
qed

lemma rlp_encode_integer_val:
  assumes room: "off + length (rlp_string (min_bytes (unat val))) \<le> length mem"
  shows "rlp_encode_integer mem off val = Inr (of_nat (length (rlp_string (min_bytes (unat val)))),
    take off mem @ rlp_string (min_bytes (unat val)) @
      drop (off + length (rlp_string (min_bytes (unat val)))) mem)"
proof -
  let ?k = "length (min_bytes (unat val))"
  obtain x where x: "prepare_integer val = (of_nat ?k, x)" "take ?k (store_u64 x) = min_bytes (unat val)"
    using prepare_integer_val by blast
  have k: "?k \<le> 8" by (rule u64_min_bytes)
  have uk: "unat (ucast (of_nat ?k :: u8) :: u32) = ?k"
    using k by (simp add: unsigned_ucast_eq take_bit_eq_mod unat_of_nat)
  show ?thesis
    using rlp_encode_item_val [of "ucast (of_nat ?k :: u8)" "store_u64 x" "min_bytes (unat val)" off mem]
      x k uk room
    by (simp add: rlp_encode_integer_def min_bytes_item)
qed

text \<open>What \<open>rlp_encode_uint256\<close> does, in its three branches.\<close>

lemma rlp_encode_uint256_small:
  assumes "val256 x < 2 ^ 64" "off + length (rlp_string (min_bytes (val256 x))) \<le> length mem"
  shows "rlp_encode_uint256 mem off x = Inr (of_nat (length (rlp_string (min_bytes (val256 x)))),
    take off mem @ rlp_string (min_bytes (val256 x)) @
      drop (off + length (rlp_string (min_bytes (val256 x)))) mem)"
proof -
  have u: "val128 (UPPER256 x) = 0" using assms(1) by (simp add: val256_def)
  then have v: "val256 x = val128 (LOWER256 x)" by (simp add: val256_def)
  with assms(1) have "unat (UPPER (LOWER256 x)) = 0" by (simp add: val128_def)
  with v have l: "UPPER (LOWER256 x) = 0" "val256 x = unat (LOWER (LOWER256 x))"
    by (simp_all add: val128_def unat_eq_zero)
  with u rlp_encode_integer_val [of off "LOWER (LOWER256 x)" mem] assms(2) show ?thesis
    by (simp add: rlp_encode_uint256_def val128_zero)
qed

lemma rlp_encode_uint256_middle:
  assumes "2 ^ 64 \<le> val256 x" "val256 x < 2 ^ 128" "off < length mem"
  shows "rlp_encode_uint256 mem off x = Inl Out_of_bounds"
proof -
  have u: "val128 (UPPER256 x) = 0" using assms(2) by (simp add: val256_def)
  then have "2 ^ 64 \<le> val128 (LOWER256 x)" using assms(1) by (simp add: val256_def)
  then have "UPPER (LOWER256 x) \<noteq> 0" using u64_less [of "LOWER (LOWER256 x)"] by (auto simp: val128_def)
  with u assms(3) show ?thesis
    by (simp add: rlp_encode_uint256_def val128_zero rlp_encode_item_def single_byte_def read_at_def
        write_at_def)
qed

lemma rlp_encode_uint256_large:
  assumes "2 ^ 128 \<le> val256 x" "off + 33 \<le> length mem"
  shows "rlp_encode_uint256 mem off x =
    Inr (33, take off mem @ 0xa0 # bytes_of_uint256 x @ drop (off + 33) mem)"
proof -
  have "val128 (UPPER256 x) \<noteq> 0" using assms(1) val128_less [of "LOWER256 x"] by (auto simp: val256_def)
  moreover have item: "rlp_item (bytes_of_uint256 x) = 0xa0 # bytes_of_uint256 x"
  proof -
    have "bytes_of_uint256 x \<noteq> [0]" by (auto dest: arg_cong [where f = length])
    then show ?thesis by (simp add: rlp_item_def rlp_string_def)
  qed
  ultimately show ?thesis
    using rlp_encode_item_val [of 32 "bytes_of_uint256 x" "bytes_of_uint256 x" off mem] assms(2)
    by (simp add: rlp_encode_uint256_def val128_zero)
qed

lemma drop_off_append: "off \<le> length mem \<Longrightarrow> drop off (take off mem @ r) = r"
  by simp

section \<open>Properties\<close>

text \<open>
  C18: \<open>rlp_encode_item\<close> writes one RLP string at the output pointer and nothing else, returns its
  length, and a decoder of the format reads back the input; only the one-byte input 0 comes back
  as the empty string.
\<close>

theorem rlp_encode_item_decodes:
  assumes "unat n = length input" "unat n + 5 < 2 ^ 32" "off + length (rlp_item input) \<le> length mem"
  shows "\<exists>mem' len. rlp_encode_item mem off input n = Inr (len, mem') \<and>
    take off mem' = take off mem \<and> drop (off + unat len) mem' = drop (off + unat len) mem \<and>
    rlp_decode_string (drop off mem') =
      Some (if input = [0] then [] else input, drop (off + unat len) mem)"
proof -
  let ?len = "of_nat (length (rlp_item input)) :: u32"
  have "length (rlp_item input) \<le> length input + 5"
    using u32_min_bytes [of n] assms(1) by (auto simp: rlp_item_def rlp_string_def)
  then have len: "unat ?len = length (rlp_item input)" using assms(1,2) by (simp add: unat_of_nat)
  have "length (if input = [0] then [] else input) < 2 ^ 32" using assms(1,2) by auto
  then have dec: "rlp_decode_string (rlp_item input @ rest) = Some (if input = [0] then [] else input, rest)"
    for rest
    unfolding rlp_item_def by (rule rlp_decode_string_string)
  define mem' where "mem' = take off mem @ rlp_item input @ drop (off + length (rlp_item input)) mem"
  have "rlp_encode_item mem off input n = Inr (?len, mem')"
    unfolding mem'_def by (rule rlp_encode_item_val) (use assms in simp_all)
  moreover have "take off mem' = take off mem" "drop (off + unat ?len) mem' = drop (off + unat ?len) mem"
    using assms(3) by (simp_all add: mem'_def len)
  moreover have "drop off mem' = rlp_item input @ drop (off + unat ?len) mem"
    using assms(3) unfolding mem'_def len by (intro drop_off_append) simp
  ultimately show ?thesis using dec by metis
qed

theorem rlp_encode_item_decodes_witness:
  "\<exists>mem' len. rlp_encode_item (replicate 8 7) 2 [1, 2, 3] 3 = Inr (len, mem') \<and>
    rlp_decode_string (drop 2 mem') = Some ([1, 2, 3], drop (2 + unat len) (replicate 8 7))"
  using rlp_encode_item_decodes [of 3 "[1, 2, 3]" 2 "replicate 8 7"]
  by (auto simp: rlp_item_def rlp_string_def)

text \<open>
  C19: the three branches of \<open>rlp_encode_uint256\<close>. Below \<open>2 ^ 64\<close> the number is encoded in as few
  big-endian bytes as it takes. From there up to \<open>2 ^ 128\<close> the code reads outside the number, a
  pointer past the struct. Above, the 32 bytes of the struct in memory are encoded, which are
  those of a big-endian number only for a value that was copied into the struct as such bytes.
\<close>

theorem rlp_encode_uint256_cases:
  assumes "off + 33 \<le> length mem"
  shows "if val256 x < 2 ^ 64 then
      \<exists>mem' len bs. rlp_encode_uint256 mem off x = Inr (len, mem') \<and>
        rlp_decode_string (drop off mem') = Some (bs, drop (off + unat len) mem) \<and>
        be_val bs = val256 x \<and> (bs \<noteq> [] \<longrightarrow> hd bs \<noteq> 0)
    else if val256 x < 2 ^ 128 then rlp_encode_uint256 mem off x = Inl Out_of_bounds
    else \<exists>mem'. rlp_encode_uint256 mem off x = Inr (33, mem') \<and>
        rlp_decode_string (drop off mem') = Some (bytes_of_uint256 x, drop (off + 33) mem)"
proof -
  consider "val256 x < 2 ^ 64" | "2 ^ 64 \<le> val256 x" "val256 x < 2 ^ 128" | "2 ^ 128 \<le> val256 x"
    by linarith
  then show ?thesis
  proof cases
    case 1
    let ?bs = "min_bytes (val256 x)" and ?s = "rlp_string (min_bytes (val256 x))"
    have k: "length ?bs \<le> 8" using 1 by (intro length_min_bytes_le) simp
    then have s: "length ?s \<le> 9" by (auto simp: rlp_string_def)
    define mem' where "mem' = take off mem @ ?s @ drop (off + length ?s) mem"
    have e: "rlp_encode_uint256 mem off x = Inr (of_nat (length ?s), mem')"
      unfolding mem'_def by (rule rlp_encode_uint256_small) (use 1 s assms in auto)
    have d: "rlp_decode_string (?s @ rest) = Some (?bs, rest)" for rest
      by (rule rlp_decode_string_string) (use k in simp)
    have "dropWhile (\<lambda>b. b = 0) (be_bytes 8 (val256 x)) = ?bs"
      using 1 by (intro dropWhile_be_bytes) simp
    then have h: "?bs \<noteq> [] \<longrightarrow> hd ?bs \<noteq> 0"
      using hd_dropWhile [of "\<lambda>b. b = (0::u8)" "be_bytes 8 (val256 x)"] by metis
    have u: "unat (of_nat (length ?s) :: u32) = length ?s" using s by (simp add: unat_of_nat)
    have "drop off mem' = ?s @ drop (off + length ?s) mem"
      using assms unfolding mem'_def by (intro drop_off_append) simp
    with d u have "rlp_decode_string (drop off mem') =
        Some (?bs, drop (off + unat (of_nat (length ?s) :: u32)) mem)"
      by simp
    with 1 e h be_val_min_bytes [of "val256 x"] show ?thesis unfolding if_P [OF 1] by blast
  next
    case 2
    with assms show ?thesis by (simp add: rlp_encode_uint256_middle)
  next
    case 3
    have d: "rlp_decode_string (0xa0 # bytes_of_uint256 x @ rest) = Some (bytes_of_uint256 x, rest)" for rest
      by (simp add: word_less_nat_alt)
    from 3 have "\<not> val256 x < 2 ^ 64" "\<not> val256 x < 2 ^ 128" by simp_all
    with rlp_encode_uint256_large [OF 3 assms] d assms show ?thesis by (simp del: rlp_decode_string.simps)
  qed
qed

theorem rlp_encode_uint256_cases_witness:
  "rlp_encode_uint256 (replicate 40 0) 0 (U256 clear128 (U128 1 0)) = Inl Out_of_bounds"
  using rlp_encode_uint256_cases [of 0 "replicate 40 0" "U256 clear128 (U128 1 0)"]
  by (simp add: val256_def val128_def clear128_def)

text \<open>
  The list header the code writes announces the content length for every length up to
  \<open>2 ^ 31\<close>, and it is the header of the RLP specification, with the length \<open>rlp_header_len\<close> promises,
  for every length except 55, where it is one byte longer.
\<close>

lemma rlp_array_header_spec:
  assumes "unat n \<le> 2 ^ 31" "off + 5 \<le> length mem"
  shows "\<exists>h. rlp_encode_array_header mem off n =
      Inr (of_nat (length h), take off mem @ h @ drop (off + length h) mem) \<and>
    rlp_decode_list (h @ rest) = Some (unat n, rest) \<and>
    (h = rlp_list_header (unat n) \<longleftrightarrow> unat n \<noteq> 55) \<and>
    (length h = unat (rlp_header_len (unat n)) \<longleftrightarrow> unat n \<noteq> 55)"
proof -
  let ?h = "rlp_array_header (unat n)"
  have small: "unat n < 2 ^ 32" using assms(1) by simp
  have l: "length ?h \<le> 5"
    using u32_min_bytes [of n] by (simp add: rlp_array_header_def rlp_list_header_def)
  have "rlp_encode_array_header mem off n =
      Inr (of_nat (length ?h), take off mem @ ?h @ drop (off + length ?h) mem)"
    by (rule rlp_encode_array_header_val) (use assms l in auto)
  moreover have "rlp_decode_list (?h @ rest) = Some (unat n, rest)"
    using rlp_decode_list_header [OF small]
    by (simp add: rlp_array_header_def word_less_nat_alt be_val_def)
  moreover have "?h = rlp_list_header (unat n) \<longleftrightarrow> unat n \<noteq> 55"
    by (simp add: rlp_array_header_def rlp_list_header_def)
  moreover have "length ?h = unat (rlp_header_len (unat n)) \<longleftrightarrow> unat n \<noteq> 55"
    unfolding rlp_header_len_val [OF small] by (simp add: rlp_array_header_def rlp_list_header_def)
  ultimately show ?thesis by blast
qed

lemma rlp_array_header_spec_witness:
  "\<exists>h. rlp_encode_array_header (replicate 9 0) 1 300 =
      Inr (of_nat (length h), take 1 (replicate 9 0) @ h @ drop (1 + length h) (replicate 9 0)) \<and>
    rlp_decode_list (h @ [5]) = Some (unat (300::u32), [5])"
proof -
  have "unat (300::u32) \<le> 2 ^ 31" "(1::nat) + 5 \<le> length (replicate 9 (0::u8))" by simp_all
  from rlp_array_header_spec [OF this, of "[5]"] show ?thesis by blast
qed

end
