(* ===== verification/HexBin.thy ===== *)
theory HexBin
  imports Prelude
begin

text \<open>
  \<open>helpers/hextobin.c\<close>: hexadecimal text to bytes and back. The loop counter of \<open>hextobin\<close> is
  a \<open>uint8_t\<close>; a text of 256 hexadecimal digits makes it wrap and the loop run forever, which
  the model shows as \<open>No_return\<close>. A result is the C return value and the memory behind the
  output pointer afterwards.
\<close>

section \<open>Definitions\<close>

definition E_EMPTY_STRING :: int where "E_EMPTY_STRING = -1"
definition E_INVALID_STRING_LEN :: int where "E_INVALID_STRING_LEN = -2"
definition E_INVALID_CHAR :: int where "E_INVALID_CHAR = -3"

definition map_hex :: "char \<Rightarrow> int" where
  "map_hex c =
     (if code c \<ge> code CHR ''0'' \<and> code c \<le> code CHR ''9'' then code c - code CHR ''0''
      else if code c \<ge> code CHR ''A'' \<and> code c \<le> code CHR ''F'' then (code c - code CHR ''A'') + 10
      else if code c \<ge> code CHR ''a'' \<and> code c \<le> code CHR ''f'' then (code c - code CHR ''a'') + 10
      else -1)"

text \<open>\<open>strlen(str) > 2 && str[0] == '0' && str[1] == 'x'\<close>, and the string behind the prefix.\<close>

definition has_0x :: "string \<Rightarrow> bool" where
  "has_0x str \<longleftrightarrow> length str > 2 \<and> str ! 0 = CHR ''0'' \<and> str ! 1 = CHR ''x''"

definition skip_0x :: "string \<Rightarrow> string" where
  "skip_0x str = (if has_0x str then drop 2 str else str)"

text \<open>The \<open>for\<close> loop; \<open>pos\<close> is the \<open>uint8_t\<close> counter, and \<open>None\<close> is a loop that never ends.\<close>

partial_function (option) hextobin_loop ::
    "string \<Rightarrow> nat \<Rightarrow> u8 \<Rightarrow> u8 list \<Rightarrow> (int \<times> u8 list) outcome option" where
  "hextobin_loop str blen pos bytes =
    (if unat pos < blen * 2 \<and> unat pos < length str then
       case char_at str (unat pos) of Inl e \<Rightarrow> Some (Inl e) | Inr c0 \<Rightarrow>
         (let b0 = map_hex c0 in
          if \<not> (b0 \<ge> -1 \<and> b0 \<le> 15) then Some (Inl Assertion_failed)
          else if b0 < 0 then Some (Inr (E_INVALID_CHAR, bytes))
          else case char_at str (unat pos + 1) of Inl e \<Rightarrow> Some (Inl e) | Inr c1 \<Rightarrow>
            (let b1 = map_hex c1 in
             if \<not> (b1 \<ge> -1 \<and> b1 \<le> 15) then Some (Inl Assertion_failed)
             else if b1 < 0 then Some (Inr (E_INVALID_CHAR, bytes))
             else case write_at bytes (unat pos div 2)
                 [push_bit 4 (of_int b0) OR of_int b1] of Inl e \<Rightarrow> Some (Inl e)
               | Inr bytes \<Rightarrow> hextobin_loop str blen (pos + 2) bytes))
     else Some (Inr (int (length str div 2), bytes)))"

declare hextobin_loop.simps [code]

definition hextobin :: "string \<Rightarrow> u8 list \<Rightarrow> nat \<Rightarrow> (int \<times> u8 list) outcome" where
  "hextobin str bytes blen =
    (if length str = 0 then Inr (E_EMPTY_STRING, bytes)
     else if length str mod 2 \<noteq> 0 then Inr (E_INVALID_STRING_LEN, bytes)
     else let str = skip_0x str in
       bindE (assertE (length str \<le> blen * 2)) (\<lambda>_.
       bindE (write_at bytes 0 (replicate blen 0)) (\<lambda>bytes.
       bindE (returns (hextobin_loop str blen 0 bytes)) (\<lambda>r. r))))"

text \<open>
  \<open>hextobin_2\<close> takes texts of odd length: the first digit fills the first byte, and \<open>str\<close>,
  \<open>bytes\<close> and \<open>blen\<close> move by one before the rest goes to \<open>hextobin\<close>.
\<close>

definition hextobin_2 :: "string \<Rightarrow> u8 list \<Rightarrow> nat \<Rightarrow> (int \<times> u8 list) outcome" where
  "hextobin_2 str bytes blen =
    (if length str = 0 then Inr (E_EMPTY_STRING, bytes)
     else let str = skip_0x str in
       bindE (assertE (length str \<le> blen * 2)) (\<lambda>_.
       bindE (write_at bytes 0 (replicate blen 0)) (\<lambda>bytes.
       if length str mod 2 \<noteq> 0 then
         bindE (char_at str 0) (\<lambda>c.
         let b1 = map_hex c in
         bindE (assertE (b1 \<ge> -1 \<and> b1 \<le> 15)) (\<lambda>_.
         if b1 < 0 then Inr (E_INVALID_CHAR, bytes)
         else bindE (write_at bytes 0 [of_int b1]) (\<lambda>bytes.
           let str = drop 1 str in
           if length str = 0 then Inr (0, bytes)
           else bindE (hextobin str (drop 1 bytes) (blen - 1)) (\<lambda>(ret, rest).
             Inr (ret, take 1 bytes @ rest)))))
       else if length str = 0 then Inr (0, bytes)
       else hextobin str bytes blen)))"

definition HEX :: string where
  "HEX = ''0123456789abcdef''"

function bintohex_loop :: "u8 list \<Rightarrow> nat \<Rightarrow> nat \<Rightarrow> string \<Rightarrow> string outcome" where
  "bintohex_loop bytes blen i out =
    (if i < blen then
       bindE (read_at bytes i 1) (\<lambda>b.
       bindE (write_at out (i * 2) [HEX ! unat (drop_bit 4 (b ! 0))]) (\<lambda>out.
       bindE (write_at out (i * 2 + 1) [HEX ! unat ((b ! 0) AND 0x0F)]) (\<lambda>out.
       bintohex_loop bytes blen (i + 1) out)))
     else Inr out)"
  by pat_completeness auto
termination
  by (relation "measure (\<lambda>(bytes, blen, i, out). blen - i)") auto

declare bintohex_loop.simps [simp del]

text \<open>\<open>bytes\<close> is \<open>None\<close> for a NULL pointer.\<close>

definition bintohex_nonull ::
    "u8 list option \<Rightarrow> nat \<Rightarrow> string \<Rightarrow> nat \<Rightarrow> (int \<times> string) outcome" where
  "bintohex_nonull bytes blen out out_len =
    (case bytes of None \<Rightarrow> Inr (E_EMPTY_STRING, out)
     | Some bytes \<Rightarrow>
       if blen = 0 then Inr (E_EMPTY_STRING, out)
       else if out_len < 2 * blen then Inr (E_INVALID_STRING_LEN, out)
       else bindE (bintohex_loop bytes blen 0 out) (\<lambda>out. Inr (int (2 * blen), out)))"

definition bintohex ::
    "u8 list option \<Rightarrow> nat \<Rightarrow> string \<Rightarrow> nat \<Rightarrow> (int \<times> string) outcome" where
  "bintohex bytes blen out out_len =
    (if bytes = None \<or> blen = 0 then Inr (E_EMPTY_STRING, out)
     else if out_len < 2 * blen + 1 then Inr (E_INVALID_STRING_LEN, out)
     else bindE (bintohex_nonull bytes blen out out_len) (\<lambda>(ret, out).
       if ret < 0 then Inr (ret, out)
       else bindE (write_at out (blen * 2) [CHR 0x00]) (\<lambda>out. Inr (ret + 1, out))))"

section \<open>Digits\<close>

text \<open>The range the code asserts after every \<open>map_hex\<close> always holds.\<close>

lemma map_hex_range: "-1 \<le> map_hex c" "map_hex c \<le> 15"
  by (auto simp: map_hex_def Let_def)

lemma map_hex_0x: "map_hex CHR ''x'' = -1" "map_hex CHR ''0'' = 0"
  by (simp_all add: map_hex_def)

lemma hex_byte:
  assumes "0 \<le> h" "h \<le> 15" "0 \<le> l" "l \<le> 15"
  shows "(push_bit 4 (of_int h) OR of_int l :: u8) = of_int (16 * h + l)"
proof -
  from assms have "h \<in> {0..15}" "l \<in> {0..15}" by auto
  moreover have "{0..15::int} = {0, 1, 2, 3, 4, 5, 6, 7, 8, 9, 10, 11, 12, 13, 14, 15}"
    by (simp add: upto.simps flip: set_upto)
  ultimately show ?thesis by (auto simp: push_bit_eq_mult)
qed

text \<open>What a text of hexadecimal digits stands for, if it is one of even length.\<close>

fun hex_bytes :: "string \<Rightarrow> u8 list option" where
  "hex_bytes [] = Some []"
| "hex_bytes [a] = None"
| "hex_bytes (a # b # s) =
    (if map_hex a < 0 \<or> map_hex b < 0 then None
     else map_option (\<lambda>bs. of_int (16 * map_hex a + map_hex b) # bs) (hex_bytes s))"

lemma hex_bytes_length: "hex_bytes s = Some bs \<Longrightarrow> length s = 2 * length bs"
  by (induction s arbitrary: bs rule: hex_bytes.induct) (auto split: if_splits)

lemma hex_bytes_no_0x: "has_0x s \<Longrightarrow> hex_bytes s = None"
  by (cases s rule: hex_bytes.cases) (auto simp: has_0x_def map_hex_0x)

lemma hex_bytes_skip: "hex_bytes s = Some bs \<Longrightarrow> skip_0x s = s"
  by (auto simp: skip_0x_def dest: hex_bytes_no_0x)

section \<open>Correctness of \<open>hextobin\<close>\<close>

lemma hextobin_loop_end:
  "length str \<le> unat pos \<Longrightarrow>
   hextobin_loop str blen pos bytes = Some (Inr (int (length str div 2), bytes))"
  by (subst hextobin_loop.simps) simp

text \<open>One turn of the loop at an even position with two characters left.\<close>

lemma hextobin_loop_turn:
  assumes "unat pos + 1 < length str" "unat pos < blen * 2" "unat pos div 2 < length bytes"
  shows "hextobin_loop str blen pos bytes =
    (if map_hex (str ! unat pos) < 0 \<or> map_hex (str ! (unat pos + 1)) < 0
     then Some (Inr (E_INVALID_CHAR, bytes))
     else hextobin_loop str blen (pos + 2)
       (bytes[unat pos div 2 := of_int (16 * map_hex (str ! unat pos) + map_hex (str ! (unat pos + 1)))]))"
proof -
  let ?a = "str ! unat pos" and ?b = "str ! (unat pos + 1)"
  have w: "write_at bytes (unat pos div 2) [v] = Inr (bytes[unat pos div 2 := v])" for v
    using assms(3) by (simp add: write_at_def upd_conv_take_nth_drop)
  have c: "char_at str (unat pos) = Inr ?a" "char_at str (Suc (unat pos)) = Inr ?b"
    using assms(1) by (simp_all add: char_at_def)
  show ?thesis
    using assms(1,2) map_hex_range [of ?a] map_hex_range [of ?b]
    by (subst hextobin_loop.simps) (simp add: c w hex_byte Let_def)
qed

lemma hextobin_loop_correct:
  assumes "even (length str)" "length str \<le> 254" "length str \<le> 2 * blen"
    "blen \<le> length bytes" "2 * k \<le> length str"
  shows "case hex_bytes (drop (2 * k) str) of
      Some bs \<Rightarrow> hextobin_loop str blen (of_nat (2 * k)) bytes =
        Some (Inr (int (length str div 2), take k bytes @ bs @ drop (k + length bs) bytes))
    | None \<Rightarrow> \<exists>bytes'. length bytes' = length bytes \<and>
        hextobin_loop str blen (of_nat (2 * k)) bytes = Some (Inr (E_INVALID_CHAR, bytes'))"
  using assms(4,5)
proof (induction "length str div 2 - k" arbitrary: k bytes)
  case 0
  then have len: "length str = 2 * k" using assms(1) by auto
  then have "length str \<le> unat (of_nat (2 * k) :: u8)" using assms(2)
    by (simp add: unat_of_nat del: of_nat_mult)
  from hextobin_loop_end [OF this] len show ?case by (simp del: of_nat_mult)
next
  case (Suc n)
  let ?pos = "of_nat (2 * k) :: u8"
  let ?a = "str ! (2 * k)" and ?b = "str ! Suc (2 * k)"
  have less: "2 * k + 1 < length str" using Suc.hyps(2) assms(1) by presburger
  have pos: "unat ?pos = 2 * k" using less assms(2) by (simp add: unat_of_nat del: of_nat_mult)
  have next_pos: "?pos + 2 = of_nat (2 * Suc k)" by simp
  have "drop (2 * k) str = ?a # ?b # drop (2 * Suc k) str"
    using less by (simp add: Cons_nth_drop_Suc)
  note split = this
  define bytes' where "bytes' = bytes[k := of_int (16 * map_hex ?a + map_hex ?b)]"
  have turn: "hextobin_loop str blen ?pos bytes =
      (if map_hex ?a < 0 \<or> map_hex ?b < 0 then Some (Inr (E_INVALID_CHAR, bytes))
       else hextobin_loop str blen (of_nat (2 * Suc k)) bytes')"
    using hextobin_loop_turn [of ?pos str blen bytes] less assms(3) Suc.prems(1)
    by (simp add: pos next_pos bytes'_def del: of_nat_mult of_nat_Suc)
  show ?case
  proof (cases "map_hex ?a < 0 \<or> map_hex ?b < 0")
    case True
    then show ?thesis unfolding split turn by auto
  next
    case False
    have "n = length str div 2 - Suc k" "blen \<le> length bytes'" "2 * Suc k \<le> length str"
      using Suc.hyps(2) Suc.prems less by (auto simp: bytes'_def)
    note IH = Suc.hyps(1) [OF this]
    have k: "k < length bytes" using less assms(3) Suc.prems(1) by linarith
    show ?thesis
    proof (cases "hex_bytes (drop (2 * Suc k) str)")
      case None
      with IH False show ?thesis unfolding split turn by (auto simp: bytes'_def)
    next
      case (Some bs)
      have "take (Suc k) bytes' @ bs @ drop (Suc k + length bs) bytes' =
          take k bytes @ (of_int (16 * map_hex ?a + map_hex ?b) # bs) @ drop (Suc k + length bs) bytes"
        using k by (simp add: bytes'_def take_Suc_conv_app_nth)
      with IH Some False show ?thesis unfolding split turn by simp
    qed
  qed
qed

text \<open>
  A text of at most 254 digits (after an optional \<open>0x\<close>) is converted, or refused at its first
  character that is no digit; the bytes past the result are zero.
\<close>

lemma hextobin_correct:
  assumes "str \<noteq> []" "even (length str)" "length (skip_0x str) \<le> 254"
    "length (skip_0x str) \<le> 2 * blen" "blen \<le> length bytes"
  shows "case hex_bytes (skip_0x str) of
      Some bs \<Rightarrow> hextobin str bytes blen =
        Inr (int (length bs), bs @ replicate (blen - length bs) 0 @ drop blen bytes)
    | None \<Rightarrow> \<exists>bytes'. length bytes' = length bytes \<and>
        hextobin str bytes blen = Inr (E_INVALID_CHAR, bytes')"
proof -
  let ?s = "skip_0x str" and ?bytes = "replicate blen 0 @ drop blen bytes"
  have ev: "even (length ?s)" using assms(2) by (simp add: skip_0x_def)
  have h: "hextobin str bytes blen =
      bindE (returns (hextobin_loop ?s blen 0 ?bytes)) (\<lambda>r. r)"
    using assms by (simp add: hextobin_def write_at_def even_iff_mod_2_eq_zero mult.commute)
  show ?thesis
  proof (cases "hex_bytes ?s")
    case None
    then show ?thesis
      using hextobin_loop_correct [OF ev assms(3,4), of ?bytes 0] assms(5) h by auto
  next
    case (Some bs)
    then have "length ?s = 2 * length bs" by (rule hex_bytes_length)
    with Some show ?thesis
      using hextobin_loop_correct [OF ev assms(3,4), of ?bytes 0] assms(4,5) h by simp
  qed
qed

text \<open>
  At 256 digits the counter goes from 254 back to 0 and the loop never ends: no run of it can
  return, because every turn leads to another turn at an even position.
\<close>

definition endless :: "string \<Rightarrow> nat \<Rightarrow> u8 \<Rightarrow> u8 list \<Rightarrow> bool" where
  "endless str blen pos bytes \<longleftrightarrow> even (unat pos) \<and> 256 \<le> length str \<and> length str \<le> 2 * blen \<and>
     blen \<le> length bytes \<and> (\<forall>i < 256. 0 \<le> map_hex (str ! i))"

lemma endless_turn:
  assumes "endless str blen pos bytes"
  shows "unat pos + 1 < length str" "unat pos < blen * 2" "unat pos div 2 < length bytes"
    "0 \<le> map_hex (str ! unat pos)" "0 \<le> map_hex (str ! (unat pos + 1))"
    "endless str blen (pos + 2) (bytes[unat pos div 2 := v])"
proof -
  have p: "unat pos < 256" by simp
  obtain k where k: "unat pos = 2 * k" using assms by (auto simp: endless_def elim: evenE)
  with p have "k < 128" by simp
  with k have p1: "unat pos + 1 < 256" by simp
  have ev: "even (unat (pos + 2))"
    using assms by (simp add: endless_def unat_word_ariths even_mod_2_iff dvd_mod)
  show "unat pos + 1 < length str" "unat pos < blen * 2" "unat pos div 2 < length bytes"
    "0 \<le> map_hex (str ! unat pos)" "0 \<le> map_hex (str ! (unat pos + 1))"
    using assms p p1 by (auto simp: endless_def)
  show "endless str blen (pos + 2) (bytes[unat pos div 2 := v])"
    using assms ev by (simp add: endless_def)
qed

lemma hextobin_loop_not_endless:
  assumes "hextobin_loop str blen pos bytes = Some r"
  shows "\<not> endless str blen pos bytes"
proof (rule hextobin_loop.raw_induct [OF _ assms, where P = "\<lambda>str blen pos bytes r.
      \<not> endless str blen pos bytes"], goal_cases)
  case (1 f str blen pos bytes r)
  show ?case
  proof
    assume e: "endless str blen pos bytes"
    note t = endless_turn(1-5) [OF e]
    have "\<exists>v. f str blen (pos + 2) (bytes[unat pos div 2 := v]) = Some r"
      using 1(2) t map_hex_range [of "str ! unat pos"] map_hex_range [of "str ! (unat pos + 1)"]
      by (auto simp: char_at_def write_at_def upd_conv_take_nth_drop)
    with 1(1) endless_turn(6) [OF e] show False by blast
  qed
qed

lemma hextobin_diverges:
  assumes "even (length str)" "256 \<le> length (skip_0x str)" "length (skip_0x str) \<le> 2 * blen"
    "blen \<le> length bytes" "\<forall>i < 256. 0 \<le> map_hex (skip_0x str ! i)"
  shows "hextobin str bytes blen = Inl No_return"
proof -
  let ?bytes = "replicate blen 0 @ drop blen bytes"
  have "endless (skip_0x str) blen 0 ?bytes" using assms by (simp add: endless_def)
  then have "hextobin_loop (skip_0x str) blen 0 ?bytes = None"
    using hextobin_loop_not_endless by (cases "hextobin_loop (skip_0x str) blen 0 ?bytes") auto
  moreover have "str \<noteq> []" using assms(2) by (auto simp: skip_0x_def has_0x_def)
  ultimately show ?thesis
    using assms by (simp add: hextobin_def write_at_def even_iff_mod_2_eq_zero mult.commute)
qed

section \<open>Texts of odd length\<close>

text \<open>
  \<open>hextobin_2\<close> on digits only (so that no second prefix can be skipped): an odd text is read as
  if it had a leading zero. The return value counts the bytes of the rest only, so for an odd
  text it is one less than the number of bytes written.
\<close>

lemma map_hex_no_0x: "\<forall>c \<in> set s. 0 \<le> map_hex c \<Longrightarrow> \<not> has_0x s"
proof
  assume h: "\<forall>c \<in> set s. 0 \<le> map_hex c" and "has_0x s"
  then have "s ! 1 = CHR ''x''" "1 < length s" by (auto simp: has_0x_def)
  then have "CHR ''x'' \<in> set s" using nth_mem [of 1 s] by simp
  with h have "0 \<le> map_hex CHR ''x''" by blast
  then show False by (simp add: map_hex_0x)
qed

lemma hex_bytes_digits:
  "\<forall>c \<in> set s. 0 \<le> map_hex c \<Longrightarrow> even (length s) \<Longrightarrow> \<exists>bs. hex_bytes s = Some bs"
  by (induction s rule: hex_bytes.induct) (auto simp: not_less)

lemma hextobin_digits:
  assumes "str \<noteq> []" "even (length str)" "length str \<le> 254" "length str \<le> 2 * blen"
    "blen \<le> length bytes" and digits: "\<forall>c \<in> set str. 0 \<le> map_hex c"
  shows "\<exists>bs. hex_bytes str = Some bs \<and> hextobin str bytes blen =
      Inr (int (length bs), bs @ replicate (blen - length bs) 0 @ drop blen bytes)"
proof -
  have skip: "skip_0x str = str" using map_hex_no_0x [OF digits] by (simp add: skip_0x_def)
  obtain bs where "hex_bytes str = Some bs" using hex_bytes_digits [OF digits assms(2)] by auto
  with hextobin_correct [of str blen bytes] assms skip show ?thesis by auto
qed

lemma hextobin_2_digits:
  assumes "str \<noteq> []" "length str \<le> 254" "length str \<le> 2 * blen" "blen \<le> length bytes"
    and digits: "\<forall>c \<in> set str. 0 \<le> map_hex c"
  shows "\<exists>bs. hex_bytes (if even (length str) then str else CHR ''0'' # str) = Some bs \<and>
    hextobin_2 str bytes blen =
      Inr (int (length str div 2), bs @ replicate (blen - length bs) 0 @ drop blen bytes)"
proof (cases "even (length str)")
  case True
  have skip: "skip_0x str = str" using map_hex_no_0x [OF digits] by (simp add: skip_0x_def)
  obtain bs where bs: "hex_bytes str = Some bs"
      "hextobin str (replicate blen 0 @ drop blen bytes) blen =
        Inr (int (length bs), bs @ replicate (blen - length bs) 0 @ drop blen bytes)"
    using hextobin_digits [of str blen "replicate blen 0 @ drop blen bytes"] assms True by auto
  have "length str = 2 * length bs" using bs(1) by (rule hex_bytes_length)
  moreover from this assms(1) have "bs \<noteq> []" by auto
  ultimately show ?thesis using bs assms True
    by (simp add: hextobin_2_def skip write_at_def mult.commute Let_def)
next
  case False
  have skip: "skip_0x str = str" using map_hex_no_0x [OF digits] by (simp add: skip_0x_def)
  from assms(1) obtain c s where str: "str = c # s" by (cases str) auto
  have c: "0 \<le> map_hex c" "map_hex c \<le> 15" using digits map_hex_range by (auto simp: str)
  from False assms(3) obtain n where blen: "blen = Suc n" by (cases blen) auto
  let ?rest = "replicate n 0 @ drop blen bytes"
  have h2: "hextobin_2 str bytes blen =
      (if s = [] then Inr (0, of_int (map_hex c) # ?rest)
       else bindE (hextobin s ?rest n) (\<lambda>(ret, rest). Inr (ret, of_int (map_hex c) # rest)))"
    using False assms(1,3,4) c
    by (simp add: hextobin_2_def skip [unfolded str] write_at_def mult.commute Let_def str blen
        char_at_def even_iff_mod_2_eq_zero odd_iff_mod_2_eq_one)
  show ?thesis
  proof (cases "s = []")
    case True
    with h2 c False str blen show ?thesis by (simp add: map_hex_0x)
  next
    case ne: False
    have p: "even (length s)" "length s \<le> 254" "length s \<le> 2 * n" "n \<le> length ?rest"
        "\<forall>c \<in> set s. 0 \<le> map_hex c"
      using False str assms blen by auto
    obtain bs where bs: "hex_bytes s = Some bs"
        "hextobin s ?rest n = Inr (int (length bs), bs @ replicate (n - length bs) 0 @ drop n ?rest)"
      using hextobin_digits [OF ne p] by blast
    have "length s = 2 * length bs" using bs(1) by (rule hex_bytes_length)
    with h2 ne bs c False str blen show ?thesis by (simp add: map_hex_0x)
  qed
qed

section \<open>Correctness of \<open>bintohex\<close>\<close>

text \<open>The text a byte list is printed as: two lower-case digits per byte.\<close>

definition hex_text :: "u8 list \<Rightarrow> string" where
  "hex_text bs = concat (map (\<lambda>b. [HEX ! unat (drop_bit 4 b), HEX ! unat (b AND 0x0F)]) bs)"

lemma hex_text_simps [simp]:
  "hex_text [] = []"
  "hex_text (b # bs) = HEX ! unat (drop_bit 4 b) # HEX ! unat (b AND 0x0F) # hex_text bs"
  "hex_text (as @ bs) = hex_text as @ hex_text bs"
  by (simp_all add: hex_text_def)

lemma length_hex_text [simp]: "length (hex_text bs) = 2 * length bs"
  by (induction bs) simp_all

lemma map_hex_HEX: "n < 16 \<Longrightarrow> map_hex (HEX ! n) = int n"
proof -
  assume "n < 16"
  then have "n \<in> {0, 1, 2, 3, 4, 5, 6, 7, 8, 9, 10, 11, 12, 13, 14, 15}" by simp presburger
  then show ?thesis by (auto simp: HEX_def map_hex_def)
qed

lemma nibbles:
  fixes b :: u8
  shows "unat (drop_bit 4 b) < 16" "unat (b AND 0x0F) < 16"
    "16 * unat (drop_bit 4 b) + unat (b AND 0x0F) = unat b"
proof -
  have m: "(0x0F::u8) = mask 4" by (simp add: mask_eq_decr_exp)
  have "unat b < 256" by (rule u8_bound)
  then show "unat (drop_bit 4 b) < 16" by (simp add: unat_ops less_mult_imp_div_less del: u8_bound)
  show "unat (b AND 0x0F) < 16" unfolding m unat_ops by simp
  show "16 * unat (drop_bit 4 b) + unat (b AND 0x0F) = unat b" unfolding m unat_ops by simp
qed

lemma hex_bytes_hex_text: "hex_bytes (hex_text bs) = Some bs"
proof (induction bs)
  case Nil
  then show ?case by simp
next
  case (Cons b bs)
  have "(of_int (16 * int (unat (drop_bit 4 b)) + int (unat (b AND 0x0F))) :: u8)
      = of_nat (16 * unat (drop_bit 4 b) + unat (b AND 0x0F))"
    by simp
  also have "\<dots> = b" unfolding nibbles(3) by simp
  finally show ?case using Cons nibbles(1,2) [of b] by (simp add: map_hex_HEX)
qed

lemma hex_text_digits: "\<forall>c \<in> set (hex_text bs). 0 \<le> map_hex c"
  using nibbles(1,2) by (induction bs) (simp_all add: map_hex_HEX)

lemma bintohex_loop_text:
  assumes "i \<le> length bytes" "2 * length bytes \<le> length out"
  shows "bintohex_loop bytes (length bytes) i out =
    Inr (take (2 * i) out @ hex_text (drop i bytes) @ drop (2 * length bytes) out)"
  using assms
proof (induction "length bytes - i" arbitrary: i out)
  case 0
  then show ?case by (subst bintohex_loop.simps) simp
next
  case (Suc n)
  then have i: "i < length bytes" by simp
  let ?h = "HEX ! unat (drop_bit 4 (bytes ! i))" and ?l = "HEX ! unat (bytes ! i AND 0x0F)"
  define out' where "out' = out[2 * i := ?h, Suc (2 * i) := ?l]"
  have w: "write_at out (i * 2) [?h] = Inr (out[2 * i := ?h])"
    "write_at (out[2 * i := ?h]) (Suc (i * 2)) [?l] = Inr out'"
    using i Suc.prems by (simp_all add: write_at_def upd_conv_take_nth_drop mult.commute out'_def)
  have r: "read_at bytes i (Suc 0) = Inr [bytes ! i]"
    using i by (simp add: read_at_def) (metis Cons_nth_drop_Suc take0 take_Suc_Cons)
  have "bintohex_loop bytes (length bytes) i out = bintohex_loop bytes (length bytes) (Suc i) out'"
    using i by (subst bintohex_loop.simps) (simp add: r w)
  also have "\<dots> = Inr (take (2 * Suc i) out' @ hex_text (drop (Suc i) bytes) @
      drop (2 * length bytes) out')"
    by (rule Suc.hyps(1)) (use Suc.hyps(2) Suc.prems i in \<open>auto simp: out'_def\<close>)
  also have "take (2 * Suc i) out' = take (2 * i) out @ [?h, ?l]"
    using i Suc.prems by (simp add: out'_def take_Suc_conv_app_nth)
  also have "drop (2 * length bytes) out' = drop (2 * length bytes) out"
    using i by (simp add: out'_def)
  finally show ?case using i by (simp add: Cons_nth_drop_Suc [symmetric])
qed

lemma bintohex_nonull_text:
  assumes "bytes \<noteq> []" "2 * length bytes \<le> out_len" "out_len \<le> length out"
  shows "bintohex_nonull (Some bytes) (length bytes) out out_len =
    Inr (int (2 * length bytes), hex_text bytes @ drop (2 * length bytes) out)"
  using assms bintohex_loop_text [of 0 bytes out] by (simp add: bintohex_nonull_def)

text \<open>Only the first \<open>n\<close> bytes matter.\<close>

lemma bintohex_loop_take:
  "n \<le> length bytes \<Longrightarrow> bintohex_loop (take n bytes) n i out = bintohex_loop bytes n i out"
proof (induction "n - i" arbitrary: i out)
  case 0
  then show ?case by (simp add: bintohex_loop.simps)
next
  case (Suc m)
  then have i: "i < n" by simp
  have r: "read_at (take n bytes) i 1 = read_at bytes i 1"
    using i Suc.prems by (simp add: read_at_def take_Suc_conv_app_nth hd_drop_conv_nth take_Suc
        Cons_nth_drop_Suc [symmetric])
  from Suc.hyps(1) [of "Suc i"] Suc.hyps(2) Suc.prems i r show ?case
    by (simp add: bintohex_loop.simps [of _ n i] bindE_def split: sum.splits)
qed

lemma bintohex_nonull_take:
  assumes "0 < n" "n \<le> length bytes" "2 * n \<le> out_len" "out_len \<le> length out"
  shows "bintohex_nonull (Some bytes) n out out_len =
    Inr (int (2 * n), hex_text (take n bytes) @ drop (2 * n) out)"
proof -
  have "bintohex_loop bytes n 0 out = Inr (hex_text (take n bytes) @ drop (2 * n) out)"
    using bintohex_loop_text [of 0 "take n bytes" out] bintohex_loop_take [OF assms(2), of 0 out] assms
    by simp
  with assms show ?thesis by (simp add: bintohex_nonull_def)
qed

lemma bintohex_text:
  assumes "bytes \<noteq> []" "2 * length bytes + 1 \<le> out_len" "out_len \<le> length out"
  shows "bintohex (Some bytes) (length bytes) out out_len =
    Inr (int (2 * length bytes + 1), hex_text bytes @ [CHR 0x00] @ drop (2 * length bytes + 1) out)"
proof -
  have "2 * length bytes < length out" using assms by simp
  then show ?thesis
    using assms bintohex_nonull_text [of bytes out_len out]
    by (simp add: bintohex_def write_at_def)
qed

section \<open>Properties\<close>

text \<open>
  \<open>hextobin\<close> on a text of even length, at most 254 characters after an optional \<open>0x\<close>: digits are
  converted, most significant first, the rest of the \<open>blen\<close> bytes is zero and the value returned is
  the number of bytes; a text with a character that is no digit is refused with \<open>E_INVALID_CHAR\<close>.
\<close>

lemma hextobin_converts:
  assumes "str \<noteq> []" "even (length str)" "length (skip_0x str) \<le> 254"
    "length (skip_0x str) \<le> 2 * blen" "blen \<le> length bytes"
  shows "case hex_bytes (skip_0x str) of
      Some bs \<Rightarrow> hextobin str bytes blen =
        Inr (int (length bs), bs @ replicate (blen - length bs) 0 @ drop blen bytes)
    | None \<Rightarrow> \<exists>bytes'. length bytes' = length bytes \<and>
        hextobin str bytes blen = Inr (E_INVALID_CHAR, bytes')"
  using assms by (rule hextobin_correct)

lemma hextobin_converts_witness:
  "hextobin ''0x12aB'' [9, 9, 9, 9] 3 = Inr (2, [0x12, 0xab, 0, 9])"
  using hextobin_converts [of "''0x12aB''" 3 "[9, 9, 9, 9]"]
  by (simp add: skip_0x_def has_0x_def map_hex_def)

text \<open>
  A text whose first 256 characters (after an optional \<open>0x\<close>) are digits makes \<open>hextobin\<close> run
  forever when the output has room for it: the \<open>uint8_t\<close> counter wraps from 254 to 0.
\<close>

lemma hextobin_endless:
  assumes "even (length str)" "256 \<le> length (skip_0x str)" "length (skip_0x str) \<le> 2 * blen"
    "blen \<le> length bytes" "\<forall>i < 256. 0 \<le> map_hex (skip_0x str ! i)"
  shows "hextobin str bytes blen = Inl No_return"
  using assms by (rule hextobin_diverges)

lemma hextobin_endless_witness:
  "hextobin (replicate 256 CHR ''7'') (replicate 128 0) 128 = Inl No_return"
  by (rule hextobin_endless) (simp_all add: skip_0x_def has_0x_def map_hex_def)

text \<open>
  C27: hexadecimal text and bytes round trip: what \<open>bintohex\<close> prints for 1 to 127 bytes, \<open>hextobin\<close>
  and \<open>hextobin_2\<close> read back to the same bytes.
\<close>

theorem bintohex_hextobin:
  assumes "bs \<noteq> []" "length bs \<le> 127" "2 * length bs + 1 \<le> out_len" "out_len \<le> length out"
  shows "\<exists>txt. bintohex (Some bs) (length bs) out out_len =
      Inr (int (2 * length bs + 1), txt @ CHR 0x00 # drop (2 * length bs + 1) out) \<and>
    hextobin txt (replicate (length bs) 0) (length bs) = Inr (int (length bs), bs) \<and>
    hextobin_2 txt (replicate (length bs) 0) (length bs) = Inr (int (length bs), bs)"
proof -
  let ?t = "hex_text bs" and ?m = "replicate (length bs) (0::u8)"
  have t: "?t \<noteq> []" "even (length ?t)" "length ?t \<le> 254" "length ?t \<le> 2 * length bs"
      "length bs \<le> length ?m"
    using assms(1,2) by (auto dest: arg_cong [where f = length])
  from hextobin_digits [OF t hex_text_digits] hextobin_2_digits [OF t(1,3-5) hex_text_digits]
  have "hextobin ?t ?m (length bs) = Inr (int (length bs), bs)"
      "hextobin_2 ?t ?m (length bs) = Inr (int (length bs), bs)"
    by (simp_all add: hex_bytes_hex_text)
  with bintohex_text [OF assms(1,3,4)] show ?thesis by auto
qed

theorem bintohex_hextobin_witness:
  "\<exists>txt. bintohex (Some [0xde, 0xad]) 2 ''ABCDEFG'' 6 = Inr (5, txt @ [CHR 0x00, CHR ''F'', CHR ''G'']) \<and>
    hextobin txt [0, 0] 2 = Inr (2, [0xde, 0xad])"
  using bintohex_hextobin [of "[0xde, 0xad]" 6 "''ABCDEFG''"] by (auto simp: numeral_eq_Suc)

end
