(* ===== verification/UIntText.thy ===== *)
theory UIntText
  imports UIntBytes HexBin
begin

text \<open>
  Wide integers as text: \<open>reverseString\<close>, \<open>tostring128\<close>, \<open>tostring256\<close> and \<open>fromstring256\<close> of
  \<open>helpers/uint256.c\<close>. \<open>out\<close> is the memory behind the output pointer, \<open>outLength\<close> the length the
  caller claims for it. The two printing loops are two interpretations of one locale, which
  extends the contract of the division.
\<close>

section \<open>Definitions\<close>

function reverseString_loop :: "string \<Rightarrow> u32 \<Rightarrow> u32 \<Rightarrow> string outcome" where
  "reverseString_loop str i j =
    (if i < j then
       bindE (read_at str (unat i) 1) (\<lambda>c.
       bindE (read_at str (unat j) 1) (\<lambda>d.
       bindE (write_at str (unat i) d) (\<lambda>str.
       bindE (write_at str (unat j) c) (\<lambda>str.
       reverseString_loop str (i + 1) (j - 1)))))
     else Inr str)"
  by pat_completeness auto
termination
proof (relation "measure (\<lambda>(str, i, j). unat j)")
  fix str str' c d str'' :: string and i j :: u32
  assume "i < j"
  then have "0 < unat j" by (simp add: word_less_nat_alt)
  then have "unat (j - 1) < unat j" by (simp add: unat_pred)
  then show "((str, i + 1, j - 1), (str', i, j)) \<in> measure (\<lambda>(str, i, j). unat j)" by simp
qed simp

declare reverseString_loop.simps [simp del]

definition reverseString :: "string \<Rightarrow> u32 \<Rightarrow> string outcome" where
  "reverseString str len = reverseString_loop str 0 (len - 1)"

definition HEXDIGITS :: string where
  "HEXDIGITS = ''0123456789abcdef''"

text \<open>The \<open>do\<close> loops, with the terminator and the reversal behind them.\<close>

partial_function (option) tostring128_loop ::
    "uint128_t \<Rightarrow> uint128_t \<Rightarrow> u32 \<Rightarrow> string \<Rightarrow> u32 \<Rightarrow> (bool \<times> string) outcome option" where
  "tostring128_loop rDiv base offset out outLength =
    (if offset > outLength - 1 then Some (Inr (False, out))
     else case divmod128 rDiv base of None \<Rightarrow> None | Some (rDiv, rMod) \<Rightarrow>
       (case bindE (char_at HEXDIGITS (unat (ucast (LOWER rMod) :: u8)))
           (\<lambda>c. write_at out (unat offset) [c]) of Inl e \<Rightarrow> Some (Inl e)
        | Inr out \<Rightarrow>
          if \<not> zero128 rDiv then tostring128_loop rDiv base (offset + 1) out outLength
          else Some (bindE (write_at out (unat (offset + 1)) [CHR 0x00]) (\<lambda>out.
            bindE (reverseString out (offset + 1)) (\<lambda>out. Inr (True, out))))))"

declare tostring128_loop.simps [code]

definition tostring128 :: "uint128_t \<Rightarrow> u32 \<Rightarrow> string \<Rightarrow> u32 \<Rightarrow> (bool \<times> string) outcome" where
  "tostring128 number baseParam out outLength =
    (let base = U128 0 (ucast baseParam) in
     if baseParam < 2 \<or> baseParam > 16 then Inr (False, out)
     else bindE (returns (tostring128_loop (copy128 number) base 0 out outLength)) (\<lambda>r. r))"

partial_function (option) tostring256_loop ::
    "uint256_t \<Rightarrow> uint256_t \<Rightarrow> u32 \<Rightarrow> string \<Rightarrow> u32 \<Rightarrow> (bool \<times> string) outcome option" where
  "tostring256_loop rDiv base offset out outLength =
    (if offset > outLength - 1 then Some (Inr (False, out))
     else case divmod256 rDiv base of None \<Rightarrow> None | Some (rDiv, rMod) \<Rightarrow>
       (case bindE (char_at HEXDIGITS (unat (ucast (LOWER (LOWER256 rMod)) :: u8)))
           (\<lambda>c. write_at out (unat offset) [c]) of Inl e \<Rightarrow> Some (Inl e)
        | Inr out \<Rightarrow>
          if \<not> zero256 rDiv then tostring256_loop rDiv base (offset + 1) out outLength
          else Some (bindE (write_at out (unat (offset + 1)) [CHR 0x00]) (\<lambda>out.
            bindE (reverseString out (offset + 1)) (\<lambda>out. Inr (True, out))))))"

declare tostring256_loop.simps [code]

definition tostring256 :: "uint256_t \<Rightarrow> u32 \<Rightarrow> string \<Rightarrow> u32 \<Rightarrow> (bool \<times> string) outcome" where
  "tostring256 number baseParam out outLength =
    (let base = U256 clear128 (U128 0 (ucast baseParam)) in
     if baseParam < 2 \<or> baseParam > 16 then Inr (False, out)
     else bindE (returns (tostring256_loop (copy256 number) base 0 out outLength)) (\<lambda>r. r))"

text \<open>
  \<open>out\<close> is the old content of the output. The local buffer has 32 bytes; \<open>buf_p\<close> is the offset
  of the digits in it, and \<open>hextobin_2\<close> gets the rest of the buffer from there.
\<close>

definition fromstring256 :: "string \<Rightarrow> uint256_t \<Rightarrow> (int \<times> uint256_t) outcome" where
  "fromstring256 hexencoded out =
    (let hexencoded = skip_0x hexencoded in
     if length hexencoded < 1 \<or> length hexencoded > 64 then Inr (-1, out)
     else
       let out = clear256; buf = replicate 32 0;
           buf_p = 32 - length hexencoded div 2;
           buf_p = (if length hexencoded mod 2 \<noteq> 0 then buf_p - 1 else buf_p)
       in bindE (hextobin_2 hexencoded (drop buf_p buf) (32 - buf_p)) (\<lambda>(ret, tail).
          if ret < 0 then Inr (-1, out)
          else bindE (readu256BE (take buf_p buf @ tail)) (\<lambda>out. Inr (0, out))))"

section \<open>Reversal\<close>

lemma reverseString_loop_nth:
  assumes "unat j < length str" "unat i \<le> unat j + 1"
  shows "\<exists>out. reverseString_loop str i j = Inr out \<and> length out = length str \<and>
    (\<forall>k < length str. out ! k =
      (if unat i \<le> k \<and> k \<le> unat j then str ! (unat i + unat j - k) else str ! k))"
  using assms
proof (induction str i j rule: reverseString_loop.induct)
  case (1 str i j)
  show ?case
  proof (cases "i < j")
    case False
    then have "unat i + unat j - k = k" if "unat i \<le> k" "k \<le> unat j" for k
      using that by (simp add: word_less_nat_alt)
    with False show ?thesis by (subst reverseString_loop.simps) simp
  next
    case True
    then have ij: "unat i < unat j" by (simp add: word_less_nat_alt)
    then have i: "unat i < length str" and i1: "unat (i + 1) = unat i + 1"
      and j1: "unat (j - 1) = unat j - 1"
      using 1(2) by (simp_all add: unat_succ unat_pred)
    define str' where "str' = str[unat i := str ! unat j, unat j := str ! unat i]"
    have r: "read_at str k (Suc 0) = Inr [str ! k]" if "k < length str" for k
      using that by (simp add: read_at_def) (metis Cons_nth_drop_Suc take0 take_Suc_Cons)
    have w: "write_at s k [v] = Inr (s[k := v])" if "k < length s" for s k and v :: char
      using that by (simp add: write_at_def upd_conv_take_nth_drop)
    have step: "reverseString_loop str i j = reverseString_loop str' (i + 1) (j - 1)"
      using True i 1(2) by (subst reverseString_loop.simps) (simp add: r w str'_def)
    have "\<exists>out. reverseString_loop str' (i + 1) (j - 1) = Inr out \<and> length out = length str' \<and>
      (\<forall>k < length str'. out ! k =
        (if unat (i + 1) \<le> k \<and> k \<le> unat (j - 1) then str' ! (unat (i + 1) + unat (j - 1) - k)
         else str' ! k))"
      using True i 1(2) ij i1 j1
      by (intro 1(1) [OF True, of "[str ! unat i]" "[str ! unat j]" "str[unat i := str ! unat j]"])
        (simp_all add: r w str'_def)
    then obtain out where out: "reverseString_loop str i j = Inr out" "length out = length str"
      "\<And>k. k < length str \<Longrightarrow> out ! k =
        (if unat i + 1 \<le> k \<and> k \<le> unat j - 1 then str' ! (unat i + unat j - k) else str' ! k)"
      using step ij by (auto simp: str'_def i1 j1)
    moreover have "out ! k = (if unat i \<le> k \<and> k \<le> unat j then str ! (unat i + unat j - k) else str ! k)"
      if "k < length str" for k
      using out(3) [OF that] i 1(2) ij that by (auto simp: str'_def nth_list_update)
    ultimately show ?thesis by blast
  qed
qed

lemma reverseString_rev:
  assumes "0 < unat len" "unat len \<le> length str"
  shows "reverseString str len = Inr (rev (take (unat len) str) @ drop (unat len) str)"
proof -
  have l1: "unat (len - 1) = unat len - 1" using assms(1) by (rule unat_pred)
  then obtain out where out: "reverseString_loop str 0 (len - 1) = Inr out" "length out = length str"
      "\<And>k. k < length str \<Longrightarrow> out ! k = (if k \<le> unat len - 1 then str ! (unat len - 1 - k) else str ! k)"
    using reverseString_loop_nth [of "len - 1" str 0] assms by (force simp: l1)
  have "out = rev (take (unat len) str) @ drop (unat len) str"
    using assms out(2) by (intro nth_equalityI) (auto simp: out(3) nth_append rev_nth)
  with out(1) show ?thesis by (simp add: reverseString_def)
qed

section \<open>Printing\<close>

text \<open>The digits of a number in a base, most significant first; no leading zeros.\<close>

function digits :: "nat \<Rightarrow> nat \<Rightarrow> string" where
  "digits b n = (if b < 2 \<or> n < b then [HEXDIGITS ! n]
     else digits b (n div b) @ [HEXDIGITS ! (n mod b)])"
  by pat_completeness auto
termination
  by (relation "measure (\<lambda>(b, n). n)") (auto intro: div_less_dividend)

declare digits.simps [simp del]

lemma digits_less: "n < b \<Longrightarrow> digits b n = [HEXDIGITS ! n]"
  by (simp add: digits.simps)

lemma digits_ge: "2 \<le> b \<Longrightarrow> b \<le> n \<Longrightarrow> digits b n = digits b (n div b) @ [HEXDIGITS ! (n mod b)]"
  by (subst digits.simps) simp

lemma length_digits_pos: "0 < length (digits b n)"
  by (subst digits.simps) simp

lemma length_digits_le: "2 \<le> b \<Longrightarrow> 0 < k \<Longrightarrow> n < b ^ k \<Longrightarrow> length (digits b n) \<le> k"
proof (induction k arbitrary: n)
  case (Suc k)
  show ?case
  proof (cases "n < b")
    case False
    with Suc.prems have "0 < k" by (cases k) auto
    moreover have "n div b < b ^ k"
      using Suc.prems by (simp add: less_mult_imp_div_less mult.commute)
    ultimately show ?thesis using Suc False by (simp add: digits_ge)
  qed (simp add: digits_less)
qed simp

lemma length_digits_gt: "2 \<le> b \<Longrightarrow> b ^ k \<le> n \<Longrightarrow> k < length (digits b n)"
proof (induction k arbitrary: n)
  case 0
  show ?case by (rule length_digits_pos)
next
  case (Suc k)
  have "b * 1 \<le> b * b ^ k" using Suc.prems(1) by (intro mult_le_mono2) simp
  also have "\<dots> \<le> n" using Suc.prems(2) by simp
  finally have "b \<le> n" by simp
  moreover have "b ^ k \<le> n div b" using Suc.prems by (simp add: less_eq_div_iff_mult_less_eq mult.commute)
  ultimately show ?case using Suc by (simp add: digits_ge)
qed

text \<open>
  The contract of the printing loop on top of that of the division. Its last assumption is the
  text of the loop; each width satisfies it by its own definition.
\<close>

locale bigint_text =
  bigint val width clear one shiftl shiftr_self minus_self or_self gt gte bits
  for val :: "'n \<Rightarrow> nat" and width clear one shiftl shiftr_self minus_self or_self gt gte bits +
  fixes zero :: "'n \<Rightarrow> bool"
    and divmod_opt :: "'n \<Rightarrow> 'n \<Rightarrow> ('n \<times> 'n) option"
    and low :: "'n \<Rightarrow> u64"
    and loop :: "'n \<Rightarrow> 'n \<Rightarrow> u32 \<Rightarrow> string \<Rightarrow> u32 \<Rightarrow> (bool \<times> string) outcome option"
  assumes zero_iff: "zero x \<longleftrightarrow> val x = 0"
    and divmod_val: "val r \<noteq> 0 \<Longrightarrow> \<exists>q m. divmod_opt l r = Some (q, m) \<and>
      val q = val l div val r \<and> val m = val l mod val r"
    and low_val: "unat (low x) = val x mod 2 ^ 64"
    and loop_eq: "loop rDiv base offset out outLength =
     (if offset > outLength - 1 then Some (Inr (False, out))
      else case divmod_opt rDiv base of None \<Rightarrow> None | Some (rDiv, rMod) \<Rightarrow>
       (case bindE (char_at HEXDIGITS (unat (ucast (low rMod) :: u8)))
           (\<lambda>c. write_at out (unat offset) [c]) of Inl e \<Rightarrow> Some (Inl e)
        | Inr out \<Rightarrow>
          if \<not> zero rDiv then loop rDiv base (offset + 1) out outLength
          else Some (bindE (write_at out (unat (offset + 1)) [CHR 0x00]) (\<lambda>out.
            bindE (reverseString out (offset + 1)) (\<lambda>out. Inr (True, out))))))"
begin

lemma loop_turn:
  assumes base: "2 \<le> val base" "val base \<le> 16"
    and off: "unat offset < unat outLength" "unat offset < length out"
  obtains q where "val q = val n div val base"
    and "loop n base offset out outLength =
      (let out = out[unat offset := HEXDIGITS ! (val n mod val base)] in
       if val q \<noteq> 0 then loop q base (offset + 1) out outLength
       else Some (bindE (write_at out (unat offset + 1) [CHR 0x00]) (\<lambda>out.
         bindE (reverseString out (offset + 1)) (\<lambda>out. Inr (True, out)))))"
proof -
  have "val base \<noteq> 0" using base by simp
  from divmod_val [OF this, of n] obtain q m where qm: "divmod_opt n base = Some (q, m)"
      "val q = val n div val base" "val m = val n mod val base"
    by blast
  have m16: "val m < 16" using base mod_less_divisor [of "val base" "val n"] qm(3) by linarith
  then have d: "unat (ucast (low m) :: u8) = val m"
    by (simp add: unsigned_ucast_eq take_bit_eq_mod low_val)
  have "char_at HEXDIGITS (val m) = Inr (HEXDIGITS ! val m)"
    using m16 by (simp add: char_at_def HEXDIGITS_def)
  moreover have "write_at out (unat offset) [c] = Inr (out[unat offset := c])" for c
    using off(2) by (simp add: write_at_def upd_conv_take_nth_drop)
  moreover have "\<not> offset > outLength - 1"
    using off(1) by (simp add: word_less_nat_alt unat_pred)
  moreover have "unat (offset + 1) = unat offset + 1" using off(1) by (rule unat_succ)
  ultimately show ?thesis
    using that [OF qm(2)]
    by (simp add: loop_eq [of n] qm(1) d zero_iff Let_def qm(3) [symmetric])
qed

text \<open>Enough room, the terminator included: the digits, and \<open>true\<close>.\<close>

lemma loop_digits:
  assumes "2 \<le> val base" "val base \<le> 16"
    and "unat offset + length (digits (val base) (val n)) \<le> unat outLength"
    and "unat offset + length (digits (val base) (val n)) < length out"
  shows "loop n base offset out outLength = Some (Inr (True,
    digits (val base) (val n) @ rev (take (unat offset) out) @ [CHR 0x00] @
      drop (unat offset + length (digits (val base) (val n)) + 1) out))"
  using assms(3,4)
proof (induction "val n" arbitrary: n offset out rule: less_induct)
  case less
  let ?b = "val base" and ?d = "HEXDIGITS ! (val n mod val base)"
  have off: "unat offset < unat outLength" "unat offset < length out"
    using less.prems length_digits_pos [of ?b "val n"] by linarith+
  have succ: "unat (offset + 1) = unat offset + 1" using off(1) by (rule unat_succ)
  define out1 where "out1 = out[unat offset := ?d]"
  have take1: "take (Suc (unat offset)) out1 = take (unat offset) out @ [?d]"
    using off(2) by (simp add: out1_def take_Suc_conv_app_nth)
  obtain q where q: "val q = val n div ?b" and turn: "loop n base offset out outLength =
      (if val q \<noteq> 0 then loop q base (offset + 1) out1 outLength
       else Some (bindE (write_at out1 (unat offset + 1) [CHR 0x00]) (\<lambda>out.
         bindE (reverseString out (offset + 1)) (\<lambda>out. Inr (True, out)))))"
    using loop_turn [OF assms(1,2) off, of n] unfolding out1_def Let_def by blast
  show ?case
  proof (cases "val n < ?b")
    case True
    then have "write_at out1 (unat offset + 1) [CHR 0x00] =
        Inr (take (unat offset) out @ [?d, CHR 0x00] @ drop (unat offset + 2) out)"
      using less.prems by (simp add: write_at_def take1 digits_less) (simp add: out1_def)
    moreover have "reverseString (take (unat offset) out @ [?d, CHR 0x00] @ drop (unat offset + 2) out)
        (offset + 1) = Inr (?d # rev (take (unat offset) out) @ CHR 0x00 # drop (unat offset + 2) out)"
      by (subst reverseString_rev) (use off(2) succ in auto)
    ultimately show ?thesis using True by (simp add: turn q digits_less)
  next
    case False
    with assms(1) have dg: "digits ?b (val n) = digits ?b (val q) @ [?d]" by (simp add: digits_ge q)
    have "val q < val n" using False assms(1) by (simp add: q)
    moreover have "val q \<noteq> 0" using False assms(1) by (simp add: q div_eq_0_iff)
    ultimately show ?thesis
      using less.hyps [of q "offset + 1" out1] less.prems
      by (simp add: turn dg succ take1) (simp add: out1_def)
  qed
qed

text \<open>A claimed length below the number of digits is noticed.\<close>

lemma loop_too_short:
  assumes "2 \<le> val base" "val base \<le> 16" "0 < unat outLength"
    and "unat outLength < unat offset + length (digits (val base) (val n))"
    and "unat offset \<le> unat outLength" "unat outLength \<le> length out"
  shows "\<exists>out'. length out' = length out \<and>
    loop n base offset out outLength = Some (Inr (False, out'))"
  using assms(4-6)
proof (induction "val n" arbitrary: n offset out rule: less_induct)
  case less
  let ?b = "val base"
  show ?case
  proof (cases "unat offset = unat outLength")
    case True
    with assms(3) show ?thesis
      by (subst loop_eq) (simp add: word_less_nat_alt unat_pred)
  next
    case False
    with less.prems have off: "unat offset < unat outLength" "unat offset < length out" by linarith+
    have succ: "unat (offset + 1) = unat offset + 1" using off(1) by (rule unat_succ)
    have ge: "\<not> val n < ?b" using less.prems off(1) by (auto simp: digits_less)
    obtain q where q: "val q = val n div ?b" and turn: "loop n base offset out outLength =
        (let out1 = out[unat offset := HEXDIGITS ! (val n mod ?b)] in
         if val q \<noteq> 0 then loop q base (offset + 1) out1 outLength
         else Some (bindE (write_at out1 (unat offset + 1) [CHR 0x00]) (\<lambda>out.
           bindE (reverseString out (offset + 1)) (\<lambda>out. Inr (True, out)))))"
      using loop_turn [OF assms(1,2) off, of n] by blast
    have "val q < val n" "val q \<noteq> 0" using ge assms(1) by (simp_all add: q div_eq_0_iff)
    then show ?thesis
      using less.hyps [of q "offset + 1" "out[unat offset := HEXDIGITS ! (val n mod ?b)]"]
        less.prems off ge assms(1)
      by (simp add: turn succ digits_ge q Let_def)
  qed
qed

text \<open>A buffer of exactly the number of digits: the terminator is written one byte behind it.\<close>

lemma loop_overrun:
  assumes "2 \<le> val base" "val base \<le> 16"
    and "unat offset + length (digits (val base) (val n)) = unat outLength"
    and "unat outLength = length out"
  shows "loop n base offset out outLength = Some (Inl Out_of_bounds)"
  using assms(3,4)
proof (induction "val n" arbitrary: n offset out rule: less_induct)
  case less
  let ?b = "val base"
  have off: "unat offset < unat outLength" "unat offset < length out"
    using less.prems length_digits_pos [of ?b "val n"] by linarith+
  have succ: "unat (offset + 1) = unat offset + 1" using off(1) by (rule unat_succ)
  obtain q where q: "val q = val n div ?b" and turn: "loop n base offset out outLength =
      (let out1 = out[unat offset := HEXDIGITS ! (val n mod ?b)] in
       if val q \<noteq> 0 then loop q base (offset + 1) out1 outLength
       else Some (bindE (write_at out1 (unat offset + 1) [CHR 0x00]) (\<lambda>out.
         bindE (reverseString out (offset + 1)) (\<lambda>out. Inr (True, out)))))"
    using loop_turn [OF assms(1,2) off, of n] by blast
  show ?case
  proof (cases "val n < ?b")
    case True
    with less.prems show ?thesis by (simp add: turn q digits_less write_at_def Let_def)
  next
    case False
    then have "val q < val n" "val q \<noteq> 0" using assms(1) by (simp_all add: q div_eq_0_iff)
    then show ?thesis
      using less.hyps [of q "offset + 1" "out[unat offset := HEXDIGITS ! (val n mod ?b)]"]
        less.prems False assms(1)
      by (simp add: turn succ digits_ge q Let_def)
  qed
qed

end

interpretation t128: bigint_text val128 128 clear128 "U128 0 1" shiftl128 shiftr128_self
    minus128_self or128_self gt128 gte128 bits128 zero128 divmod128 LOWER tostring128_loop
proof unfold_locales
  show "unat (LOWER x) = val128 x mod 2 ^ 64" for x
    using u64_less [of "LOWER x"] by (simp add: val128_def)
qed (simp_all add: val128_zero divmod128_val tostring128_loop.simps)

interpretation t256: bigint_text val256 256 clear256 "U256 clear128 (U128 0 1)" shiftl256
    shiftr256_self minus256_self or256_self gt256 gte256 bits256 zero256 divmod256
    "\<lambda>x. LOWER (LOWER256 x)" tostring256_loop
proof unfold_locales
  show "unat (LOWER (LOWER256 x)) = val256 x mod 2 ^ 64" for x
  proof -
    have "val256 x mod 2 ^ 64 = (val128 (UPPER256 x) * 2 ^ 64 * 2 ^ 64 + val128 (LOWER256 x)) mod 2 ^ 64"
      by (simp add: val256_def mult.commute)
    also have "\<dots> = val128 (LOWER256 x) mod 2 ^ 64" by (rule mod_mult_self3)
    finally show ?thesis using u64_less [of "LOWER (LOWER256 x)"] by (simp add: val128_def)
  qed
qed (simp_all add: val256_zero divmod256_val tostring256_loop.simps)

lemma base_val:
  "val128 (U128 0 (ucast (b::u32))) = unat b"
  "val256 (U256 clear128 (U128 0 (ucast (b::u32)))) = unat b"
proof -
  have "unat (ucast b :: u64) = unat b"
    using u32_bound [of b] by (simp add: unsigned_ucast_eq take_bit_eq_mod)
  then show "val128 (U128 0 (ucast b)) = unat b"
    and "val256 (U256 clear128 (U128 0 (ucast b))) = unat b"
    by (simp_all add: val128_U128 val256_U256)
qed

lemma base_range: "\<not> (b < 2 \<or> b > 16) \<longleftrightarrow> 2 \<le> unat (b::u32) \<and> unat b \<le> 16"
  by (auto simp: word_less_nat_alt word_le_nat_alt)

lemma tostring128_digits:
  assumes "2 \<le> unat b" "unat b \<le> 16" "length (digits (unat b) (val128 x)) \<le> unat outLength"
    "length (digits (unat b) (val128 x)) < length out"
  shows "tostring128 x b out outLength = Inr (True,
    digits (unat b) (val128 x) @ [CHR 0x00] @ drop (length (digits (unat b) (val128 x)) + 1) out)"
  using assms t128.loop_digits [of "U128 0 (ucast b)" 0 x outLength out] base_range [of b]
  by (simp add: tostring128_def base_val)

lemma tostring256_digits:
  assumes "2 \<le> unat b" "unat b \<le> 16" "length (digits (unat b) (val256 x)) \<le> unat outLength"
    "length (digits (unat b) (val256 x)) < length out"
  shows "tostring256 x b out outLength = Inr (True,
    digits (unat b) (val256 x) @ [CHR 0x00] @ drop (length (digits (unat b) (val256 x)) + 1) out)"
  using assms t256.loop_digits [of "U256 clear128 (U128 0 (ucast b))" 0 x outLength out]
    base_range [of b]
  by (simp add: tostring256_def base_val)

section \<open>Parsing\<close>

definition hex_val :: "string \<Rightarrow> nat" where
  "hex_val s = foldl (\<lambda>a c. a * 16 + nat (map_hex c)) 0 s"

lemma hex_val_snoc [simp]: "hex_val (s @ [c]) = hex_val s * 16 + nat (map_hex c)"
  by (simp add: hex_val_def)

lemma hex_val_Nil [simp]: "hex_val [] = 0"
  by (simp add: hex_val_def)

lemma hex_val_append: "hex_val (s @ t) = hex_val s * 16 ^ length t + hex_val t"
  by (induction t rule: rev_induct)
    (simp_all add: append_assoc [symmetric] algebra_simps del: append_assoc)

lemma hex_val_Cons: "hex_val (c # s) = nat (map_hex c) * 16 ^ length s + hex_val s"
  using hex_val_append [of "[c]" s] hex_val_snoc [of "[]" c] by simp

lemma be_val_hex_bytes: "hex_bytes s = Some bs \<Longrightarrow> be_val bs = hex_val s"
proof (induction s arbitrary: bs rule: hex_bytes.induct)
  case (3 a b s)
  then obtain bs' where ab: "0 \<le> map_hex a" "0 \<le> map_hex b" and bs': "hex_bytes s = Some bs'"
      "bs = of_int (16 * map_hex a + map_hex b) # bs'"
    by (auto simp: not_less split: if_splits)
  define v where "v = (of_int (16 * map_hex a + map_hex b) :: u8)"
  have "(of_int (16 * map_hex a + map_hex b) :: u8) = of_nat (16 * nat (map_hex a) + nat (map_hex b))"
    using ab by simp
  then have u: "unat v = 16 * nat (map_hex a) + nat (map_hex b)"
    using map_hex_range [of a] map_hex_range [of b]
    unfolding v_def by (simp only: unat_of_nat_u8) (intro mod_less, simp)
  have "(16::nat) ^ length s = 256 ^ length bs'"
    using hex_bytes_length [OF bs'(1)] by (simp add: power_mult)
  with 3(1) [OF _ bs'(1)] ab show ?case
    by (simp add: bs'(2) [folded v_def] be_val_Cons hex_val_Cons u algebra_simps)
qed simp_all

lemma hex_val_digits: "hex_val (digits 16 n) = n"
proof (induction n rule: less_induct)
  case (less n)
  have nib: "nat (map_hex (HEXDIGITS ! k)) = k" if "k < 16" for k
    using map_hex_HEX [OF that] by (simp add: HEXDIGITS_def HEX_def)
  show ?case
  proof (cases "n < 16")
    case True
    then show ?thesis using hex_val_snoc [of "[]"] by (simp add: digits_less nib)
  next
    case False
    then have "hex_val (digits 16 (n div 16)) = n div 16" by (intro less) simp
    with False show ?thesis by (simp add: digits_ge nib)
  qed
qed

lemma digits_map_hex: "b \<le> 16 \<Longrightarrow> 2 \<le> b \<Longrightarrow> \<forall>c \<in> set (digits b n). 0 \<le> map_hex c"
proof (induction n rule: less_induct)
  case (less n)
  have nib: "0 \<le> map_hex (HEXDIGITS ! k)" if "k < 16" for k
    using map_hex_HEX [OF that] by (simp add: HEXDIGITS_def HEX_def)
  have m: "n mod b < 16" using less.prems mod_less_divisor [of b n] by linarith
  show ?case
  proof (cases "n < b")
    case True
    with less.prems show ?thesis by (simp add: digits_less nib)
  next
    case False
    with less.prems have "\<forall>c \<in> set (digits b (n div b)). 0 \<le> map_hex c"
      by (intro less.IH div_less_dividend) simp_all
    with less.prems m False show ?thesis by (simp add: digits_ge nib)
  qed
qed

text \<open>A text of 1 to 64 digits is read as the number it stands for, with or without \<open>0x\<close>.\<close>

lemma fromstring256_digits:
  assumes "s \<noteq> []" "length s \<le> 64" and digits: "\<forall>c \<in> set s. 0 \<le> map_hex c"
  shows "\<exists>x. fromstring256 s out = Inr (0, x) \<and> val256 x = hex_val s"
proof -
  let ?n = "(length s + 1) div 2"
  have skip: "skip_0x s = s" using map_hex_no_0x [OF digits] by (simp add: skip_0x_def)
  have n: "length s \<le> 2 * ?n" "?n \<le> 32" using assms(2) by auto
  obtain bs where bs: "hex_bytes (if even (length s) then s else CHR ''0'' # s) = Some bs"
      "hextobin_2 s (replicate ?n 0) ?n =
        Inr (int (length s div 2), bs @ replicate (?n - length bs) 0 @ drop ?n (replicate ?n 0))"
    using hextobin_2_digits [OF assms(1) _ n(1), of "replicate ?n 0"] assms(2) digits by auto
  have len: "length bs = ?n" using hex_bytes_length [OF bs(1)] by (auto split: if_splits)
  have val: "be_val bs = hex_val s"
    using be_val_hex_bytes [OF bs(1)] by (auto simp: hex_val_Cons map_hex_0x split: if_splits)
  have p: "(if length s mod 2 \<noteq> 0 then 32 - length s div 2 - 1 else 32 - length s div 2) = 32 - ?n"
    by presburger
  obtain x where "readu256BE (replicate (32 - ?n) 0 @ bs) = Inr x"
      "val256 x = be_val (take 32 (replicate (32 - ?n) 0 @ bs))"
    using readu256BE_val [of "replicate (32 - ?n) 0 @ bs"] len n(2) by auto
  then have x: "readu256BE (replicate (32 - ?n) 0 @ bs) = Inr x" "val256 x = hex_val s"
    using len n(2) by (simp_all add: be_val_append val)
  have "32 - (32 - ?n) = ?n" using n(2) by simp
  with x bs(2) len assms(1,2) n(2) show ?thesis
    unfolding fromstring256_def Let_def skip p by (simp add: min_def not_le not_less)
qed

lemma fromstring256_0x:
  assumes "s \<noteq> []" "\<not> has_0x s"
  shows "fromstring256 (CHR ''0'' # CHR ''x'' # s) out = fromstring256 s out"
proof -
  have "skip_0x (CHR ''0'' # CHR ''x'' # s) = s"
    using assms(1) by (simp add: skip_0x_def has_0x_def)
  moreover have "skip_0x s = s" using assms(2) by (simp add: skip_0x_def)
  ultimately show ?thesis unfolding fromstring256_def by (simp only:)
qed

text \<open>What a C reader of the buffer sees: the characters before the first NUL.\<close>

definition c_string :: "string \<Rightarrow> string" where
  "c_string mem = takeWhile (\<lambda>c. c \<noteq> CHR 0x00) mem"

lemma c_string_terminated: "CHR 0x00 \<notin> set s \<Longrightarrow> c_string (s @ CHR 0x00 # rest) = s"
  unfolding c_string_def by (subst takeWhile_append2) auto

lemma digits_no_nul:
  assumes "2 \<le> b" "b \<le> 16"
  shows "CHR 0x00 \<notin> set (digits b n)"
proof
  assume "CHR 0x00 \<in> set (digits b n)"
  with digits_map_hex [OF assms(2,1)] have "0 \<le> map_hex (CHR 0x00)" by blast
  then show False by (simp add: map_hex_def)
qed

section \<open>Properties\<close>

text \<open>
  \<open>tostring256\<close> for every base from 2 to 16 and every claimed length above zero: with room for the
  digits and the terminator it writes both; with a claimed length below the number of digits it
  returns false; with a buffer of exactly the number of digits it writes the terminator one byte
  past the end of the buffer.
\<close>

lemma tostring256_cases:
  assumes "2 \<le> unat b" "unat b \<le> 16" "0 < unat outLength" "unat outLength \<le> length out"
  shows "(let ds = digits (unat b) (val256 x) in
     if length ds < length out \<and> length ds \<le> unat outLength
     then tostring256 x b out outLength = Inr (True, ds @ CHR 0x00 # drop (length ds + 1) out)
     else if length ds = unat outLength
     then tostring256 x b out outLength = Inl Out_of_bounds
     else \<exists>out'. tostring256 x b out outLength = Inr (False, out') \<and> length out' = length out)"
proof -
  let ?base = "U256 clear128 (U128 0 (ucast b))" and ?ds = "digits (unat b) (val256 x)"
  have t: "tostring256 x b out outLength = bindE (returns (tostring256_loop x ?base 0 out outLength)) (\<lambda>r. r)"
    using assms(1,2) base_range [of b] by (simp add: tostring256_def)
  have b: "2 \<le> val256 ?base" "val256 ?base \<le> 16" using assms(1,2) by (simp_all add: base_val)
  consider (room) "length ?ds < length out" "length ?ds \<le> unat outLength"
    | (exact) "length ?ds = unat outLength" "unat outLength = length out"
    | (short) "unat outLength < length ?ds"
    using assms(4) by linarith
  then show ?thesis
  proof cases
    case room
    with tostring256_digits [OF assms(1,2) room(2,1)] show ?thesis by (simp add: Let_def)
  next
    case exact
    with t256.loop_overrun [OF b, of 0 x outLength out] show ?thesis
      by (simp add: t base_val Let_def)
  next
    case short
    with t256.loop_too_short [OF b assms(3), of 0 x out] assms(4) show ?thesis
      by (auto simp: t base_val Let_def)
  qed
qed

lemma tostring256_cases_witness:
  "tostring256 (set256_uint64 255) 16 ''abcd'' 4 = Inr (True, ''ff'' @ [CHR 0x00, CHR ''d'']) \<and>
   tostring256 (set256_uint64 255) 16 ''ab'' 2 = Inl Out_of_bounds"
proof -
  have "val256 (set256_uint64 255) = 255"
    by (simp add: set256_uint64_def val256_def val128_def clear256_def clear128_def)
  moreover have "digits 16 255 = ''ff''" by (simp add: digits.simps HEXDIGITS_def)
  ultimately show ?thesis
    using tostring256_cases [of 16 4 "''abcd''" "set256_uint64 255"]
      tostring256_cases [of 16 2 "''ab''" "set256_uint64 255"]
    by (simp add: Let_def)
qed

text \<open>
  C25: round trip of the wallet's hexadecimal numbers: for every 256-bit integer, \<open>tostring256\<close> with
  base 16 into a buffer of 65 bytes succeeds, and \<open>fromstring256\<close> reads the C string it left, with
  or without a \<open>0x\<close> in front, back to the same integer.
\<close>

theorem tostring256_fromstring256:
  assumes "length out = 65"
  shows "\<exists>mem. tostring256 x 16 out 65 = Inr (True, mem) \<and>
    fromstring256 (c_string mem) y = Inr (0, x) \<and>
    fromstring256 (''0x'' @ c_string mem) y = Inr (0, x)"
proof -
  let ?ds = "digits 16 (val256 x)"
  have len: "length ?ds \<le> 64"
    using val256_less [of x] by (intro length_digits_le) simp_all
  have hex: "\<forall>c \<in> set ?ds. 0 \<le> map_hex c" by (rule digits_map_hex) simp_all
  have ne: "?ds \<noteq> []" using length_digits_pos [of 16 "val256 x"] by auto
  have str: "tostring256 x 16 out 65 = Inr (True, ?ds @ CHR 0x00 # drop (length ?ds + 1) out)"
    using tostring256_digits [of 16 x 65 out] len assms by simp
  have c: "c_string (?ds @ CHR 0x00 # rest) = ?ds" for rest
    by (rule c_string_terminated) (simp add: digits_no_nul)
  obtain z where "fromstring256 ?ds y = Inr (0, z)" "val256 z = val256 x"
    using fromstring256_digits [OF ne len hex] by (auto simp: hex_val_digits)
  then have "fromstring256 ?ds y = Inr (0, x)" by (simp add: val256_inj)
  with str c fromstring256_0x [OF ne] map_hex_no_0x [OF hex] show ?thesis by simp
qed

theorem tostring256_fromstring256_witness:
  "\<exists>mem. tostring256 (set256_uint64 0xabc) 16 (replicate 65 CHR ''-'') 65 = Inr (True, mem) \<and>
    fromstring256 (c_string mem) clear256 = Inr (0, set256_uint64 0xabc)"
  using tostring256_fromstring256 [of "replicate 65 CHR ''-''" "set256_uint64 0xabc" clear256] by auto

text \<open>
  \<open>fromstring256\<close> accepts \<open>0x\<close> twice, because \<open>hextobin_2\<close> skips it again after the position of
  the digits in the buffer has been computed from the longer text: the number read is too large
  by a factor of 256.
\<close>

lemma fromstring256_double_prefix:
  "fromstring256 ''0x0x1234'' out = Inr (0, set256_uint64 0x123400)"
  by code_simp

end
