(* ===== verification/Sign.thy ===== *)
theory Sign
  imports UIntText
begin

text \<open>
  \<open>eth/sign.c\<close> and \<open>eth/address.c\<close>: message digests, signatures and addresses. The hash function and
  the elliptic-curve routines are those of trezor-crypto, which is not part of the repository:
  \<open>keccak\<close>, \<open>ecdsa_sign\<close>, \<open>pubkey65\<close> and \<open>recover\<close> are parameters of the definitions. A hasher that is
  updated piece by piece hashes the concatenation of the pieces.
\<close>

section \<open>Definitions\<close>

type_synonym keccak = "u8 list \<Rightarrow> u8 list"

text \<open>Private key and digest to the 64 bytes of \<open>r\<close> and \<open>s\<close> and the recovery bit.\<close>

type_synonym ecdsa_sign = "u8 list \<Rightarrow> u8 list \<Rightarrow> u8 list \<times> u8"

text \<open>Signature, digest and recovery id to the return value and the public key.\<close>

type_synonym ecdsa_recover = "u8 list \<Rightarrow> u8 list \<Rightarrow> u32 \<Rightarrow> int \<times> u8 list"

record signature_t =
  sig_r :: uint256_t
  sig_s :: uint256_t
  sig_v :: u8

record address_t =
  addr_a :: "u8 list"

definition string_bytes :: "string \<Rightarrow> u8 list" where
  "string_bytes s = map of_char s"

definition msg_prefix :: string where
  "msg_prefix = CHR 0x19 # ''Ethereum Signed Message:'' @ [CHR 0x0A]"

text \<open>\<open>snprintf(_data_len, 8, "%zu", data_len)\<close> keeps at most seven digits.\<close>

definition eth_digest_message :: "keccak \<Rightarrow> u8 list \<Rightarrow> nat \<Rightarrow> u8 list outcome" where
  "eth_digest_message keccak data data_len =
    (let ctx = string_bytes msg_prefix;
         len_text = take (8 - 1) (digits 10 data_len);
         ctx = ctx @ string_bytes len_text
     in bindE (read_at data 0 data_len) (\<lambda>d. Inr (keccak (ctx @ d))))"

text \<open>\<open>signature\<close> is the memory behind the output pointer, 65 bytes of it used.\<close>

definition eth_sign ::
    "keccak \<Rightarrow> ecdsa_sign \<Rightarrow> u8 list \<Rightarrow> u8 list \<Rightarrow> nat \<Rightarrow> u8 list \<Rightarrow> (int \<times> u8 list) outcome" where
  "eth_sign keccak ecdsa_sign privkey data data_len signature =
    bindE (eth_digest_message keccak data data_len) (\<lambda>digest.
    let (rs, pby) = ecdsa_sign privkey digest in
    bindE (write_at signature 0 rs) (\<lambda>signature.
    bindE (write_at signature 64 [pby + 27]) (\<lambda>signature. Inr (0, signature))))"

definition eth_sign_data_rawsig ::
    "keccak \<Rightarrow> ecdsa_sign \<Rightarrow> u8 list \<Rightarrow> u8 list \<Rightarrow> nat \<Rightarrow> u8 list \<Rightarrow> (int \<times> u8 list) outcome" where
  "eth_sign_data_rawsig keccak ecdsa_sign privkey data data_len signature =
    bindE (read_at data 0 data_len) (\<lambda>d.
    let (rs, pby) = ecdsa_sign privkey (keccak d) in
    bindE (write_at signature 0 rs) (\<lambda>signature.
    bindE (write_at signature 64 [pby + 27]) (\<lambda>signature. Inr (0, signature))))"

text \<open>The halves of the signature are copied into the structs byte by byte.\<close>

definition eth_sign_data ::
    "keccak \<Rightarrow> ecdsa_sign \<Rightarrow> u8 list \<Rightarrow> u8 list \<Rightarrow> nat \<Rightarrow> signature_t \<Rightarrow> (int \<times> signature_t) outcome" where
  "eth_sign_data keccak ecdsa_sign privkey data data_len out =
    (let signature = replicate 65 0 in
     bindE (eth_sign_data_rawsig keccak ecdsa_sign privkey data data_len signature) (\<lambda>(ret, signature).
     if ret \<noteq> 0 then Inr (-1, out)
     else
       let out = out\<lparr>sig_v := signature ! 64\<rparr>;
           out = out\<lparr>sig_r := uint256_of_bytes (take 32 signature)\<rparr>;
           out = out\<lparr>sig_s := uint256_of_bytes (take 32 (drop 32 signature))\<rparr>
       in Inr (0, out)))"

definition privkey_to_pubkey :: "(u8 list \<Rightarrow> u8 list) \<Rightarrow> u8 list \<Rightarrow> int \<times> u8 list" where
  "privkey_to_pubkey pubkey65 privkey = (0, pubkey65 privkey)"

definition publickey_to_address :: "keccak \<Rightarrow> u8 list \<Rightarrow> (int \<times> address_t) outcome" where
  "publickey_to_address keccak pubkey =
    bindE (read_at pubkey 1 64) (\<lambda>p.
    bindE (read_at (keccak p) 12 20) (\<lambda>a. Inr (0, \<lparr>addr_a = a\<rparr>)))"

definition privkey_to_ethereum_address ::
    "keccak \<Rightarrow> (u8 list \<Rightarrow> u8 list) \<Rightarrow> u8 list \<Rightarrow> (int \<times> address_t) outcome" where
  "privkey_to_ethereum_address keccak pubkey65 privkey =
    publickey_to_address keccak (pubkey65 privkey)"

definition address_from_signature ::
    "keccak \<Rightarrow> ecdsa_recover \<Rightarrow> u8 list \<Rightarrow> nat \<Rightarrow> signature_t \<Rightarrow> address_t \<Rightarrow> (int \<times> address_t) outcome" where
  "address_from_signature keccak recover data data_len signature addr_out =
    bindE (eth_digest_message keccak data data_len) (\<lambda>digest.
    let sign = bytes_of_uint256 (sig_r signature) @ bytes_of_uint256 (sig_s signature) @ [0];
        (err, pubkey) = recover sign digest (ucast (sig_v signature) - 27)
    in if err \<noteq> 0 then Inr (-1, addr_out)
       else bindE (publickey_to_address keccak pubkey) (\<lambda>(err, addr).
         if err \<noteq> 0 then Inr (-1, addr) else Inr (0, addr)))"

section \<open>Signatures as bytes and as structs\<close>

lemma eth_sign_data_rawsig_val:
  assumes "data_len \<le> length data" "ecdsa_sign privkey (keccak (take data_len data)) = (rs, pby)"
    "length rs = 64" "length signature = 65"
  shows "eth_sign_data_rawsig keccak ecdsa_sign privkey data data_len signature =
    Inr (0, rs @ [pby + 27])"
  using assms by (simp add: eth_sign_data_rawsig_def read_at_def write_at_def)

lemma eth_sign_val:
  assumes "eth_digest_message keccak data data_len = Inr digest" "ecdsa_sign privkey digest = (rs, pby)"
    "length rs = 64" "length signature = 65"
  shows "eth_sign keccak ecdsa_sign privkey data data_len signature = Inr (0, rs @ [pby + 27])"
  using assms by (simp add: eth_sign_def write_at_def)

lemma eth_sign_data_val:
  assumes "data_len \<le> length data" "ecdsa_sign privkey (keccak (take data_len data)) = (rs, pby)"
    "length rs = 64"
  shows "eth_sign_data keccak ecdsa_sign privkey data data_len out = Inr (0, out\<lparr>sig_v := pby + 27,
    sig_r := uint256_of_bytes (take 32 rs), sig_s := uint256_of_bytes (drop 32 rs)\<rparr>)"
  using assms eth_sign_data_rawsig_val [of data_len data ecdsa_sign privkey keccak rs pby "replicate 65 0"]
  by (simp add: eth_sign_data_def Let_def nth_append)

text \<open>A signature read back from the structs is the signature that was copied in.\<close>

lemma signature_bytes:
  assumes "length rs = 64"
  shows "bytes_of_uint256 (uint256_of_bytes (take 32 rs)) @
    bytes_of_uint256 (uint256_of_bytes (drop 32 rs)) = rs"
  using assms by (simp add: bytes_of_uint256_of)

section \<open>Properties\<close>

text \<open>
  C22: whoever signs a message with \<open>eth_sign\<close> is the one \<open>address_from_signature\<close> finds: with the 65
  signature bytes taken apart into \<open>r\<close>, \<open>s\<close> and \<open>v\<close>, the address recovered is that of the private
  key. The hypotheses are what the curve library promises: 64 signature bytes, a recovery bit
  below four, and recovery of the signer's key from its own signature.
\<close>

theorem address_from_eth_sign:
  assumes "data_len \<le> length data"
    and "\<forall>digest. case ecdsa_sign privkey digest of (rs, pby) \<Rightarrow> length rs = 64 \<and> pby < 4 \<and>
      recover (rs @ [0]) digest (ucast pby) = (0, pubkey65 privkey)"
    and "length signature = 65"
  shows "\<exists>sig. eth_sign keccak ecdsa_sign privkey data data_len signature = Inr (0, sig) \<and>
    address_from_signature keccak recover data data_len
      \<lparr>sig_r = uint256_of_bytes (take 32 sig), sig_s = uint256_of_bytes (take 32 (drop 32 sig)),
       sig_v = sig ! 64\<rparr> addr =
    privkey_to_ethereum_address keccak pubkey65 privkey"
proof -
  obtain digest where d: "eth_digest_message keccak data data_len = Inr digest"
    using assms(1) by (simp add: eth_digest_message_def read_at_def)
  obtain rs pby where s: "ecdsa_sign privkey digest = (rs, pby)" by fastforce
  with assms(2) have rs: "length rs = 64" "pby < 4"
      "recover (rs @ [0]) digest (ucast pby) = (0, pubkey65 privkey)"
    by (metis (mono_tags, lifting) case_prod_conv)+
  have v: "(ucast (pby + 27) :: u32) - 27 = ucast pby"
  proof -
    have "unat pby < 4" using rs(2) by (simp add: word_less_nat_alt)
    then have "unat (ucast (pby + 27) :: u32) = unat pby + 27"
      by (simp add: unsigned_ucast_eq take_bit_eq_mod unat_word_ariths)
    then have "(ucast (pby + 27) :: u32) = ucast pby + 27"
      using \<open>unat pby < 4\<close>
      by (simp add: word_unat_eq_iff unat_word_ariths unsigned_ucast_eq take_bit_eq_mod)
    then show ?thesis by simp
  qed
  have "address_from_signature keccak recover data data_len
      \<lparr>sig_r = uint256_of_bytes (take 32 rs), sig_s = uint256_of_bytes (drop 32 rs), sig_v = pby + 27\<rparr> addr =
      privkey_to_ethereum_address keccak pubkey65 privkey"
    using signature_bytes [OF rs(1)] rs(3)
    by (auto simp: address_from_signature_def d v privkey_to_ethereum_address_def
        publickey_to_address_def bindE_def append_assoc [symmetric] simp del: append_assoc
        split: sum.splits)
  moreover have "eth_sign keccak ecdsa_sign privkey data data_len signature = Inr (0, rs @ [pby + 27])"
    by (rule eth_sign_val [where ecdsa_sign = ecdsa_sign, OF d s rs(1) assms(3)])
  ultimately show ?thesis using rs(1) by (simp add: nth_append)
qed

theorem address_from_eth_sign_witness:
  "\<exists>sig. eth_sign (\<lambda>d. replicate 32 7) (\<lambda>k d. (replicate 64 5, 1)) [1] [2, 3] 2 (replicate 65 0) = Inr (0, sig) \<and>
    address_from_signature (\<lambda>d. replicate 32 7) (\<lambda>s d v. (0, replicate 65 4)) [2, 3] 2
      \<lparr>sig_r = uint256_of_bytes (take 32 sig), sig_s = uint256_of_bytes (take 32 (drop 32 sig)),
       sig_v = sig ! 64\<rparr> \<lparr>addr_a = []\<rparr> =
    privkey_to_ethereum_address (\<lambda>d. replicate 32 7) (\<lambda>k. replicate 65 4) [1]"
  by (rule address_from_eth_sign) simp_all

end
