(* ===== verification/Transaction.thy ===== *)
theory Transaction
  imports Rlp Sign
begin

text \<open>
  \<open>eth/transaction.c\<close>: the fields of a transaction encoded one after the other at the start of the
  buffer, moved up to make room for the list header, and signed. The encoding is compared with
  the RLP list of the fields, read back by a reference decoder.
\<close>

section \<open>Definitions\<close>

text \<open>
  \<open>data\<close> is \<open>None\<close> for NULL, otherwise the address the pointer holds and the memory behind it. The
  address matters: for a pointer that is not NULL with \<open>data_len\<close> 0 the code encodes a byte of it.
\<close>

record transaction_t =
  tx_nonce :: u32
  tx_gas_price :: u32
  tx_gas_limit :: u32
  tx_to :: address_t
  tx_value :: uint256_t
  tx_data :: "(u64 \<times> u8 list) option"
  tx_data_len :: nat

definition data_pointer :: "transaction_t \<Rightarrow> u64" where
  "data_pointer tx = (case tx_data tx of None \<Rightarrow> 0 | Some (address, _) \<Rightarrow> address)"

text \<open>
  One field: encode at \<open>data_p\<close>, keep the 16-bit length, advance the pointer and the total. The
  state is the memory, the offset of \<open>data_p\<close> from \<open>buf\<close> and \<open>total_data_len\<close>.
\<close>

definition field ::
    "(u8 list \<Rightarrow> nat \<Rightarrow> (u32 \<times> u8 list) outcome) \<Rightarrow> u8 list \<times> nat \<times> u16 \<Rightarrow>
     (u8 list \<times> nat \<times> u16) outcome" where
  "field encode = (\<lambda>(mem, data_p, total_data_len).
     bindE (encode mem data_p) (\<lambda>(n, mem).
     let data_len = ucast n :: u16
     in Inr (mem, data_p + unat data_len, total_data_len + data_len)))"

definition tx_data_field :: "transaction_t \<Rightarrow> u8 list \<Rightarrow> nat \<Rightarrow> (u32 \<times> u8 list) outcome" where
  "tx_data_field tx mem data_p =
    (case tx_data tx of
       None \<Rightarrow> rlp_encode_item mem data_p (store_u64 (data_pointer tx)) 1
     | Some (address, content) \<Rightarrow>
         if tx_data_len tx = 0 then rlp_encode_item mem data_p (store_u64 (data_pointer tx)) 1
         else rlp_encode_item mem data_p content (of_nat (tx_data_len tx)))"

definition tx_encode ::
    "transaction_t \<Rightarrow> signature_t option \<Rightarrow> u8 list \<Rightarrow> nat \<Rightarrow> (int \<times> u8 list) outcome" where
  "tx_encode tx sig buf buf_size =
    bindE (field (\<lambda>mem p. rlp_encode_integer mem p (ucast (tx_nonce tx))) (buf, 0, 0)) (\<lambda>s.
    bindE (field (\<lambda>mem p. rlp_encode_integer mem p (ucast (tx_gas_price tx))) s) (\<lambda>s.
    bindE (field (\<lambda>mem p. rlp_encode_integer mem p (ucast (tx_gas_limit tx))) s) (\<lambda>s.
    bindE (field (\<lambda>mem p. rlp_encode_item mem p (addr_a (tx_to tx)) 20) s) (\<lambda>s.
    bindE (field (\<lambda>mem p. rlp_encode_uint256 mem p (tx_value tx)) s) (\<lambda>s.
    bindE (field (tx_data_field tx) s) (\<lambda>s.
    bindE (case sig of None \<Rightarrow> Inr s | Some sig \<Rightarrow>
      bindE (field (\<lambda>mem p. rlp_encode_integer mem p (ucast (sig_v sig))) s) (\<lambda>s.
      bindE (field (\<lambda>mem p. rlp_encode_uint256 mem p (sig_r sig)) s) (\<lambda>s.
      field (\<lambda>mem p. rlp_encode_uint256 mem p (sig_s sig)) s))) (\<lambda>(mem, data_p, total_data_len).
    let header_len = rlp_header_len (unat total_data_len) in
    bindE (read_at mem 0 (unat total_data_len)) (\<lambda>payload.
    bindE (write_at mem (unat header_len) payload) (\<lambda>mem.
    bindE (rlp_encode_array_header mem 0 (ucast total_data_len)) (\<lambda>(_, mem).
    let total_data_len = total_data_len + ucast header_len
    in Inr (int (unat total_data_len), mem)))))))))))"

definition tx_set_to :: "transaction_t \<Rightarrow> string \<Rightarrow> (int \<times> transaction_t) outcome" where
  "tx_set_to tx to_hex =
    bindE (hextobin to_hex (addr_a (tx_to tx)) 20) (\<lambda>(ret, bytes).
    let tx = tx\<lparr>tx_to := \<lparr>addr_a = bytes\<rparr>\<rparr> in
    if ret < 0 then Inr (-1, tx)
    else if ret \<noteq> 20 then Inr (-1, tx)
    else Inr (0, tx))"

definition tx_set_value_u64 :: "transaction_t \<Rightarrow> u64 \<Rightarrow> transaction_t" where
  "tx_set_value_u64 tx val = tx\<lparr>tx_value := set256_uint64 val\<rparr>"

text \<open>
  \<open>signature\<close> is the uninitialised local struct, of arbitrary content; the result of
  \<open>eth_sign_data\<close> is not looked at.
\<close>

definition tx_encode_sign ::
    "keccak \<Rightarrow> ecdsa_sign \<Rightarrow> signature_t \<Rightarrow> transaction_t \<Rightarrow> u8 list \<Rightarrow> u8 list \<Rightarrow> nat \<Rightarrow>
     (int \<times> u8 list) outcome" where
  "tx_encode_sign keccak ecdsa_sign signature tx privkey buf buf_size =
    bindE (tx_encode tx None buf buf_size) (\<lambda>(unsigned_tx_len, buf).
    if unsigned_tx_len < 0 then Inr (-1, buf)
    else bindE (eth_sign_data keccak ecdsa_sign privkey buf (nat unsigned_tx_len) signature)
      (\<lambda>(_, signature). tx_encode tx (Some signature) buf buf_size))"

section \<open>Specification\<close>

text \<open>The byte string each field stands for, and the fields of a transaction.\<close>

definition uint256_content :: "uint256_t \<Rightarrow> u8 list" where
  "uint256_content x = (if val256 x < 2 ^ 64 then min_bytes (val256 x) else bytes_of_uint256 x)"

definition strip_zero :: "u8 list \<Rightarrow> u8 list" where
  "strip_zero bs = (if bs = [0] then [] else bs)"

definition data_content :: "transaction_t \<Rightarrow> u8 list" where
  "data_content tx = strip_zero
     (case tx_data tx of
        None \<Rightarrow> [0]
      | Some (address, content) \<Rightarrow>
          if tx_data_len tx = 0 then [ucast address] else take (tx_data_len tx) content)"

definition tx_fields :: "transaction_t \<Rightarrow> signature_t option \<Rightarrow> u8 list list" where
  "tx_fields tx sig =
    [min_bytes (unat (tx_nonce tx)), min_bytes (unat (tx_gas_price tx)),
     min_bytes (unat (tx_gas_limit tx)), addr_a (tx_to tx), uint256_content (tx_value tx),
     data_content tx] @
    (case sig of None \<Rightarrow> [] | Some sig \<Rightarrow>
      [min_bytes (unat (sig_v sig)), uint256_content (sig_r sig), uint256_content (sig_s sig)])"

definition tx_payload :: "transaction_t \<Rightarrow> signature_t option \<Rightarrow> u8 list" where
  "tx_payload tx sig = concat (map rlp_string (tx_fields tx sig))"

text \<open>Integers the encoder handles: not from \<open>2 ^ 64\<close> up to \<open>2 ^ 128\<close>.\<close>

definition uint256_ok :: "uint256_t \<Rightarrow> bool" where
  "uint256_ok x \<longleftrightarrow> val256 x < 2 ^ 64 \<or> 2 ^ 128 \<le> val256 x"

definition tx_ok :: "transaction_t \<Rightarrow> bool" where
  "tx_ok tx \<longleftrightarrow> length (addr_a (tx_to tx)) = 20 \<and> uint256_ok (tx_value tx) \<and>
     (case tx_data tx of None \<Rightarrow> True | Some (_, content) \<Rightarrow> tx_data_len tx \<le> length content) \<and>
     tx_data_len tx < 65000"

definition sig_ok :: "signature_t option \<Rightarrow> bool" where
  "sig_ok sig \<longleftrightarrow> (case sig of None \<Rightarrow> True | Some sig \<Rightarrow>
     uint256_ok (sig_r sig) \<and> uint256_ok (sig_s sig))"

text \<open>A reference decoder for a list of byte strings.\<close>

function rlp_decode_strings :: "u8 list \<Rightarrow> u8 list list option" where
  "rlp_decode_strings bs =
    (if bs = [] then Some []
     else case rlp_decode_string bs of None \<Rightarrow> None
       | Some (s, rest) \<Rightarrow>
           if length rest < length bs then map_option ((#) s) (rlp_decode_strings rest) else None)"
  by pat_completeness auto
termination
  by (relation "measure length") auto

declare rlp_decode_strings.simps [simp del]

definition rlp_decode_tx :: "u8 list \<Rightarrow> u8 list list option" where
  "rlp_decode_tx bs = (case rlp_decode_list bs of None \<Rightarrow> None
     | Some (n, rest) \<Rightarrow> if length rest = n then rlp_decode_strings rest else None)"

lemma rlp_string_pos: "0 < length (rlp_string bs)"
  by (auto simp: rlp_string_def)

lemma rlp_decode_strings_concat:
  "\<forall>bs \<in> set fs. length bs < 2 ^ 32 \<Longrightarrow> rlp_decode_strings (concat (map rlp_string fs)) = Some fs"
proof (induction fs)
  case Nil
  then show ?case by (simp add: rlp_decode_strings.simps)
next
  case (Cons f fs)
  have "rlp_decode_string (rlp_string f @ concat (map rlp_string fs)) = Some (f, concat (map rlp_string fs))"
    using Cons.prems by (intro rlp_decode_string_string) simp
  with Cons rlp_string_pos [of f] show ?case
    by (subst rlp_decode_strings.simps) simp
qed

section \<open>The fields one after the other\<close>

text \<open>An encoder that leaves the bytes \<open>e\<close> and returns their number.\<close>

definition writes :: "(u8 list \<Rightarrow> nat \<Rightarrow> (u32 \<times> u8 list) outcome) \<Rightarrow> u8 list \<Rightarrow> bool" where
  "writes encode e \<longleftrightarrow> (\<forall>mem off. off + length e \<le> length mem \<longrightarrow>
     encode mem off = Inr (of_nat (length e), take off mem @ e @ drop (off + length e) mem))"

text \<open>The state after the bytes \<open>pre\<close> have been written at the start of \<open>buf\<close>.\<close>

definition written :: "u8 list \<Rightarrow> u8 list \<Rightarrow> u8 list \<times> nat \<times> u16" where
  "written buf pre = (pre @ drop (length pre) buf, length pre, of_nat (length pre))"

lemma field_written:
  assumes "writes encode e" "length (pre @ e) \<le> length buf" "length (pre @ e) < 2 ^ 16"
  shows "field encode (written buf pre) = Inr (written buf (pre @ e))"
proof -
  have "encode (pre @ drop (length pre) buf) (length pre) =
      Inr (of_nat (length e), pre @ e @ drop (length pre + length e) buf)"
    using assms(1,2) by (simp add: writes_def add.commute)
  moreover have "ucast (of_nat (length e) :: u32) = (of_nat (length e) :: u16)"
    and "unat (of_nat (length e) :: u16) = length e"
    using assms(3) by (simp_all add: word_unat_eq_iff unsigned_ucast_eq take_bit_eq_mod unat_of_nat)
  ultimately show ?thesis by (simp add: field_def written_def Let_def)
qed

lemma writes_integer: "writes (\<lambda>mem p. rlp_encode_integer mem p v) (rlp_string (min_bytes (unat v)))"
  by (simp add: writes_def rlp_encode_integer_val)

lemma writes_integer_u32:
  "writes (\<lambda>mem p. rlp_encode_integer mem p (ucast (v::u32))) (rlp_string (min_bytes (unat v)))"
proof -
  have "unat (ucast v :: u64) = unat v"
    using u32_bound [of v] by (simp add: unsigned_ucast_eq take_bit_eq_mod)
  with writes_integer [of "ucast v"] show ?thesis by simp
qed

lemma writes_integer_u8:
  "writes (\<lambda>mem p. rlp_encode_integer mem p (ucast (v::u8))) (rlp_string (min_bytes (unat v)))"
proof -
  have "unat v < 256" by (rule u8_bound)
  then have "unat (ucast v :: u64) = unat v"
    by (simp add: unsigned_ucast_eq take_bit_eq_mod del: u8_bound)
  with writes_integer [of "ucast v"] show ?thesis by simp
qed

lemma writes_item:
  assumes "unat n \<le> length input" "unat n + 5 < 2 ^ 32"
  shows "writes (\<lambda>mem p. rlp_encode_item mem p input n) (rlp_string (strip_zero (take (unat n) input)))"
  using rlp_encode_item_val [OF assms(1) refl] assms(2)
  by (simp add: writes_def rlp_item_def strip_zero_def)

lemma writes_uint256:
  assumes "uint256_ok x"
  shows "writes (\<lambda>mem p. rlp_encode_uint256 mem p x) (rlp_string (uint256_content x))"
proof (cases "val256 x < 2 ^ 64")
  case True
  then show ?thesis by (simp add: writes_def uint256_content_def rlp_encode_uint256_small)
next
  case False
  with assms have "2 ^ 128 \<le> val256 x" by (simp add: uint256_ok_def)
  moreover have "rlp_string (bytes_of_uint256 x) = 0xa0 # bytes_of_uint256 x"
    by (simp add: rlp_string_def)
  ultimately show ?thesis
    using False rlp_encode_uint256_large [of x]
    by (simp add: writes_def uint256_content_def)
qed

lemma writes_data:
  assumes "tx_ok tx"
  shows "writes (tx_data_field tx) (rlp_string (data_content tx))"
proof -
  have byte: "take 1 (store_u64 a) = [ucast a]" for a by (simp add: store_u64_bytes)
  have one: "writes (\<lambda>mem p. rlp_encode_item mem p (store_u64 a) 1) (rlp_string (strip_zero [ucast a]))" for a
    using writes_item [of 1 "store_u64 a"] byte [of a] by simp
  show ?thesis
  proof (cases "tx_data tx")
    case None
    then have "tx_data_field tx = (\<lambda>mem p. rlp_encode_item mem p (store_u64 0) 1)"
      by (simp add: tx_data_field_def data_pointer_def fun_eq_iff)
    with None one [of 0] show ?thesis by (simp add: data_content_def)
  next
    case (Some d)
    obtain a content where d: "d = (a, content)" by (cases d)
    show ?thesis
    proof (cases "tx_data_len tx = 0")
      case True
      with Some d have "tx_data_field tx = (\<lambda>mem p. rlp_encode_item mem p (store_u64 a) 1)"
        by (simp add: tx_data_field_def data_pointer_def fun_eq_iff)
      with True Some d one [of a] show ?thesis by (simp add: data_content_def)
    next
      case False
      with Some d have "tx_data_field tx =
          (\<lambda>mem p. rlp_encode_item mem p content (of_nat (tx_data_len tx)))"
        by (simp add: tx_data_field_def fun_eq_iff)
      moreover have "unat (of_nat (tx_data_len tx) :: u32) = tx_data_len tx" "tx_data_len tx \<le> length content"
        using assms Some d by (simp_all add: tx_ok_def unat_of_nat)
      ultimately show ?thesis
        using writes_item [of "of_nat (tx_data_len tx)" content] assms False Some d
        by (simp add: data_content_def tx_ok_def)
    qed
  qed
qed

text \<open>The first six fields, and the three of a signature, in the memory.\<close>

lemma tx_fields_written:
  assumes ok: "tx_ok tx" and room: "length (tx_payload tx None) \<le> length buf"
    and small: "length (tx_payload tx None) < 2 ^ 16"
  shows "bindE (field (\<lambda>mem p. rlp_encode_integer mem p (ucast (tx_nonce tx))) (buf, 0, 0)) (\<lambda>s.
    bindE (field (\<lambda>mem p. rlp_encode_integer mem p (ucast (tx_gas_price tx))) s) (\<lambda>s.
    bindE (field (\<lambda>mem p. rlp_encode_integer mem p (ucast (tx_gas_limit tx))) s) (\<lambda>s.
    bindE (field (\<lambda>mem p. rlp_encode_item mem p (addr_a (tx_to tx)) 20) s) (\<lambda>s.
    bindE (field (\<lambda>mem p. rlp_encode_uint256 mem p (tx_value tx)) s) (\<lambda>s.
    bindE (field (tx_data_field tx) s) k))))) = k (written buf (tx_payload tx None))"
proof -
  let ?e1 = "rlp_string (min_bytes (unat (tx_nonce tx)))" and ?e2 = "rlp_string (min_bytes (unat (tx_gas_price tx)))"
    and ?e3 = "rlp_string (min_bytes (unat (tx_gas_limit tx)))" and ?e4 = "rlp_string (addr_a (tx_to tx))"
    and ?e5 = "rlp_string (uint256_content (tx_value tx))" and ?e6 = "rlp_string (data_content tx)"
  have p: "tx_payload tx None = ?e1 @ ?e2 @ ?e3 @ ?e4 @ ?e5 @ ?e6"
    by (simp add: tx_payload_def tx_fields_def)
  have start: "(buf, 0, 0) = written buf []" by (simp add: written_def)
  have to: "length (addr_a (tx_to tx)) = 20" "uint256_ok (tx_value tx)" using ok by (simp_all add: tx_ok_def)
  then have "strip_zero (take 20 (addr_a (tx_to tx))) = addr_a (tx_to tx)" by (auto simp: strip_zero_def)
  with to have w4: "writes (\<lambda>mem p. rlp_encode_item mem p (addr_a (tx_to tx)) 20) ?e4"
    using writes_item [of 20 "addr_a (tx_to tx)"] by simp
  have s1: "field (\<lambda>mem p. rlp_encode_integer mem p (ucast (tx_nonce tx))) (written buf []) =
      Inr (written buf ?e1)"
    using field_written [OF writes_integer_u32, of "[]"] room small by (simp add: p)
  have s2: "field (\<lambda>mem p. rlp_encode_integer mem p (ucast (tx_gas_price tx))) (written buf ?e1) =
      Inr (written buf (?e1 @ ?e2))"
    by (rule field_written [OF writes_integer_u32]) (use room small in \<open>simp_all add: p\<close>)
  have s3: "field (\<lambda>mem p. rlp_encode_integer mem p (ucast (tx_gas_limit tx))) (written buf (?e1 @ ?e2)) =
      Inr (written buf ((?e1 @ ?e2) @ ?e3))"
    by (rule field_written [OF writes_integer_u32]) (use room small in \<open>simp_all add: p\<close>)
  have s4: "field (\<lambda>mem p. rlp_encode_item mem p (addr_a (tx_to tx)) 20) (written buf ((?e1 @ ?e2) @ ?e3)) =
      Inr (written buf (((?e1 @ ?e2) @ ?e3) @ ?e4))"
    by (rule field_written [OF w4]) (use room small in \<open>simp_all add: p\<close>)
  have s5: "field (\<lambda>mem p. rlp_encode_uint256 mem p (tx_value tx)) (written buf (((?e1 @ ?e2) @ ?e3) @ ?e4)) =
      Inr (written buf ((((?e1 @ ?e2) @ ?e3) @ ?e4) @ ?e5))"
    by (rule field_written [OF writes_uint256 [OF to(2)]]) (use room small in \<open>simp_all add: p\<close>)
  have s6: "field (tx_data_field tx) (written buf ((((?e1 @ ?e2) @ ?e3) @ ?e4) @ ?e5)) =
      Inr (written buf (((((?e1 @ ?e2) @ ?e3) @ ?e4) @ ?e5) @ ?e6))"
    by (rule field_written [OF writes_data [OF ok]]) (use room small in \<open>simp_all add: p\<close>)
  show ?thesis unfolding start by (simp only: s1 s2 s3 s4 s5 s6 bindE_Inr) (simp only: p append_assoc)
qed

lemma sig_fields_written:
  assumes ok: "sig_ok (Some sig)" and room: "length (tx_payload tx (Some sig)) \<le> length buf"
    and small: "length (tx_payload tx (Some sig)) < 2 ^ 16"
  shows "bindE (field (\<lambda>mem p. rlp_encode_integer mem p (ucast (sig_v sig)))
      (written buf (tx_payload tx None))) (\<lambda>s.
    bindE (field (\<lambda>mem p. rlp_encode_uint256 mem p (sig_r sig)) s) (\<lambda>s.
    field (\<lambda>mem p. rlp_encode_uint256 mem p (sig_s sig)) s)) =
    Inr (written buf (tx_payload tx (Some sig)))"
proof -
  let ?e0 = "tx_payload tx None" and ?e1 = "rlp_string (min_bytes (unat (sig_v sig)))"
    and ?e2 = "rlp_string (uint256_content (sig_r sig))" and ?e3 = "rlp_string (uint256_content (sig_s sig))"
  have p: "tx_payload tx (Some sig) = ?e0 @ ?e1 @ ?e2 @ ?e3"
    by (simp add: tx_payload_def tx_fields_def)
  have rs: "uint256_ok (sig_r sig)" "uint256_ok (sig_s sig)" using ok by (simp_all add: sig_ok_def)
  have s1: "field (\<lambda>mem p. rlp_encode_integer mem p (ucast (sig_v sig))) (written buf ?e0) =
      Inr (written buf (?e0 @ ?e1))"
    by (rule field_written [OF writes_integer_u8]) (use room small in \<open>simp_all add: p\<close>)
  have s2: "field (\<lambda>mem p. rlp_encode_uint256 mem p (sig_r sig)) (written buf (?e0 @ ?e1)) =
      Inr (written buf ((?e0 @ ?e1) @ ?e2))"
    by (rule field_written [OF writes_uint256 [OF rs(1)]]) (use room small in \<open>simp_all add: p\<close>)
  have s3: "field (\<lambda>mem p. rlp_encode_uint256 mem p (sig_s sig)) (written buf ((?e0 @ ?e1) @ ?e2)) =
      Inr (written buf (((?e0 @ ?e1) @ ?e2) @ ?e3))"
    by (rule field_written [OF writes_uint256 [OF rs(2)]]) (use room small in \<open>simp_all add: p\<close>)
  show ?thesis by (simp only: s1 s2 s3 bindE_Inr) (simp only: p append_assoc)
qed

text \<open>The header in front: as specified, except for a payload of 55 bytes.\<close>

lemma length_rlp_list_header: "n < 2 ^ 16 \<Longrightarrow> length (rlp_list_header n) \<le> 3"
  using length_min_bytes_le [of n 2] by (simp add: rlp_list_header_def)

lemma rlp_list_header_pos: "0 < length (rlp_list_header n)"
  by (simp add: rlp_list_header_def)

lemma length_payload_mono: "length (tx_payload tx None) \<le> length (tx_payload tx sig)"
  by (simp add: tx_payload_def tx_fields_def)

lemma tx_encode_val:
  assumes "tx_ok tx" "sig_ok sig"
    and room: "length (tx_payload tx sig) + 3 \<le> length buf" and small: "length (tx_payload tx sig) < 65533"
  defines "n \<equiv> length (tx_payload tx sig)"
  shows "tx_encode tx sig buf buf_size =
    Inr (int (n + length (rlp_list_header n)),
      (if n = 55 then [0xf8, 55] @ drop 1 (tx_payload tx sig)
       else rlp_list_header n @ tx_payload tx sig) @ drop (n + length (rlp_list_header n)) buf)"
proof -
  let ?p = "tx_payload tx sig" and ?h = "length (rlp_list_header n)"
  have h: "?h \<le> 3" using small by (intro length_rlp_list_header) (simp add: n_def)
  have hl: "unat (rlp_header_len n) = ?h" using small by (intro rlp_header_len_val) (simp add: n_def)
  have u: "unat (of_nat n :: u16) = n" "unat (ucast (of_nat n :: u16) :: u32) = n"
    using small by (simp_all add: unsigned_ucast_eq take_bit_eq_mod unat_of_nat n_def)
  have tot: "unat (of_nat n + ucast (rlp_header_len n) :: u16) = n + ?h"
    using small h hl by (simp add: unat_word_ariths unsigned_ucast_eq take_bit_eq_mod unat_of_nat n_def)
  have none: "length (tx_payload tx None) \<le> length buf" "length (tx_payload tx None) < 2 ^ 16"
    using length_payload_mono [of tx sig] room small by simp_all
  define mem where "mem = ?p @ drop n buf"
  have sig: "(case sig of None \<Rightarrow> Inr (written buf (tx_payload tx None)) | Some sig \<Rightarrow>
      bindE (field (\<lambda>mem p. rlp_encode_integer mem p (ucast (sig_v sig))) (written buf (tx_payload tx None))) (\<lambda>s.
      bindE (field (\<lambda>mem p. rlp_encode_uint256 mem p (sig_r sig)) s) (\<lambda>s.
      field (\<lambda>mem p. rlp_encode_uint256 mem p (sig_s sig)) s))) = Inr (mem, n, of_nat n)"
    using assms(2) room small sig_fields_written [of _ tx buf]
    by (cases sig) (simp_all add: mem_def n_def written_def)
  have len: "length mem = length buf" using room by (simp add: mem_def n_def)
  have read: "read_at mem 0 n = Inr ?p" using room by (simp add: read_at_def mem_def n_def)
  let ?mem2 = "take ?h mem @ ?p @ drop (n + ?h) buf"
  have move: "write_at mem ?h ?p = Inr ?mem2"
    using room h by (simp add: write_at_def len n_def) (simp add: mem_def n_def add.commute)
  have ah: "rlp_encode_array_header ?mem2 0 (ucast (of_nat n :: u16)) =
      Inr (of_nat (length (rlp_array_header n)),
        rlp_array_header n @ drop (length (rlp_array_header n)) ?mem2)"
  proof -
    have "length (rlp_array_header n) \<le> length ?mem2"
      using h room len by (simp add: rlp_array_header_def n_def)
    then show ?thesis
      using rlp_encode_array_header_val [of "ucast (of_nat n :: u16)" 0 ?mem2, unfolded u(2)] small
      by (simp only: n_def add_0 take_0 append_Nil) simp
  qed
  have "rlp_array_header n @ drop (length (rlp_array_header n)) ?mem2 =
      (if n = 55 then [0xf8, 55] @ drop 1 ?p else rlp_list_header n @ ?p) @ drop (n + ?h) buf"
  proof (cases "n = 55")
    case True
    then have "?h = 1" by (simp add: rlp_list_header_def)
    moreover obtain b bs where "?p = b # bs" using True n_def by (cases ?p) auto
    ultimately show ?thesis
      using True by (simp add: rlp_array_header_def mem_def)
  next
    case False
    then show ?thesis using h room by (simp add: rlp_array_header_def len n_def)
  qed
  with ah have "rlp_encode_array_header ?mem2 0 (ucast (of_nat n :: u16)) =
      Inr (of_nat (length (rlp_array_header n)),
        (if n = 55 then [0xf8, 55] @ drop 1 ?p else rlp_list_header n @ ?p) @ drop (n + ?h) buf)"
    by simp
  then show ?thesis
    unfolding tx_encode_def tx_fields_written [OF assms(1) none]
    by (simp only: sig bindE_Inr prod.case u(1) read hl move Let_def tot)
qed

lemma tx_fields_small:
  assumes "tx_ok tx"
  shows "\<forall>bs \<in> set (tx_fields tx sig). length bs < 2 ^ 32"
proof -
  have "length (min_bytes (unat v)) < 2 ^ 32" for v :: u32 using u32_min_bytes [of v] by simp
  moreover have "length (min_bytes (unat v)) < 2 ^ 32" for v :: u8
    using length_min_bytes_le [of "unat v" 1] by simp
  moreover have "length (uint256_content x) < 2 ^ 32" for x
    using length_min_bytes_le [of "val256 x" 8] by (auto simp: uint256_content_def)
  moreover have "length (data_content tx) < 2 ^ 32"
    using assms by (auto simp: data_content_def strip_zero_def tx_ok_def split: option.split)
  ultimately show ?thesis
    using assms by (auto simp: tx_fields_def tx_ok_def split: option.split)
qed

text \<open>What a reader of the encoding finds.\<close>

lemma rlp_decode_tx_list:
  assumes "\<forall>bs \<in> set fs. length bs < 2 ^ 32" "length (concat (map rlp_string fs)) < 2 ^ 32"
  shows "rlp_decode_tx (rlp_list_header (length (concat (map rlp_string fs))) @ concat (map rlp_string fs)) =
    Some fs"
  using rlp_decode_list_header [OF assms(2)] rlp_decode_strings_concat [OF assms(1)]
  by (simp add: rlp_decode_tx_def)

lemma rlp_decode_tx_55: "length bs = 54 \<Longrightarrow> rlp_decode_tx ([0xf8, 55] @ bs) = None"
  by (simp add: rlp_decode_tx_def word_less_nat_alt be_val_def)

text \<open>The outcome of an encoding, as its reader sees it.\<close>

lemma tx_encode_result:
  assumes "tx_ok tx" "sig_ok sig" "length (tx_payload tx sig) + 3 \<le> length buf"
    "length (tx_payload tx sig) < 65533"
  shows "\<exists>ret mem. tx_encode tx sig buf buf_size = Inr (int ret, mem) \<and> length mem = length buf \<and>
    drop ret mem = drop ret buf \<and> 0 < ret \<and> ret \<le> length (tx_payload tx sig) + 3 \<and>
    rlp_decode_tx (take ret mem) =
      (if length (tx_payload tx sig) = 55 then None else Some (tx_fields tx sig))"
proof -
  let ?p = "tx_payload tx sig" and ?n = "length (tx_payload tx sig)"
  let ?ret = "?n + length (rlp_list_header ?n)"
  define e where "e = (if ?n = 55 then [0xf8, 55] @ drop 1 ?p else rlp_list_header ?n @ ?p)"
  have len: "length e = ?ret" by (auto simp: e_def rlp_list_header_def)
  have le: "?ret \<le> length buf" using length_rlp_list_header [of ?n] assms(3,4) by simp
  have enc: "tx_encode tx sig buf buf_size = Inr (int ?ret, e @ drop ?ret buf)"
    unfolding e_def by (rule tx_encode_val [OF assms])
  have "rlp_decode_tx e = (if ?n = 55 then None else Some (tx_fields tx sig))"
  proof (cases "?n = 55")
    case True
    then show ?thesis using rlp_decode_tx_55 [of "drop 1 ?p"] by (simp add: e_def)
  next
    case False
    then show ?thesis
      using rlp_decode_tx_list [OF tx_fields_small [OF assms(1)], of sig] assms(4)
      by (simp add: e_def flip: tx_payload_def)
  qed
  moreover have "0 < ?ret" "?ret \<le> ?n + 3"
    using length_rlp_list_header [of ?n] rlp_list_header_pos [of ?n] assms(4) by simp_all
  ultimately show ?thesis using enc len le
    by (intro exI [of _ ?ret] exI [of _ "e @ drop ?ret buf"]) simp
qed

lemma tx_encode_sign_result:
  assumes "tx_ok tx" "length (tx_payload tx None) \<noteq> 55"
    "length (tx_payload tx None) + 73 \<le> length buf" "length (tx_payload tx None) < 65000"
    "ecdsa_sign privkey (keccak (rlp_list_header (length (tx_payload tx None)) @ tx_payload tx None)) =
      (rs, pby)"
    "length rs = 64" "2 ^ 128 \<le> val256 (uint256_of_bytes (take 32 rs))"
    "2 ^ 128 \<le> val256 (uint256_of_bytes (drop 32 rs))"
  shows "\<exists>ret mem. tx_encode_sign keccak ecdsa_sign signature tx privkey buf buf_size = Inr (int ret, mem) \<and>
    length mem = length buf \<and> 0 < ret \<and> ret \<le> length (tx_payload tx None) + 71 \<and>
    rlp_decode_tx (take ret mem) =
      Some (tx_fields tx None @ [min_bytes (unat (pby + 27)), take 32 rs, drop 32 rs])"
proof -
  let ?p = "tx_payload tx None" and ?n = "length (tx_payload tx None)"
  let ?m = "?n + length (rlp_list_header ?n)"
  define buf1 where "buf1 = (rlp_list_header ?n @ ?p) @ drop ?m buf"
  have h: "length (rlp_list_header ?n) \<le> 3" using assms(4) by (intro length_rlp_list_header) simp
  have enc1: "tx_encode tx None buf buf_size = Inr (int ?m, buf1)"
    using tx_encode_val [of tx None buf buf_size] assms(1-4) by (simp add: sig_ok_def buf1_def)
  have len1: "length buf1 = length buf" and take1: "take ?m buf1 = rlp_list_header ?n @ ?p"
    using h assms(3) by (simp_all add: buf1_def)
  define sig where "sig = signature\<lparr>sig_v := pby + 27, sig_r := uint256_of_bytes (take 32 rs),
    sig_s := uint256_of_bytes (drop 32 rs)\<rparr>"
  have sign: "eth_sign_data keccak ecdsa_sign privkey buf1 ?m signature = Inr (0, sig)"
    unfolding sig_def
    by (rule eth_sign_data_val [where ecdsa_sign = ecdsa_sign]) (use h assms(3,5,6) len1 take1 in simp_all)
  have content: "uint256_content (sig_r sig) = take 32 rs" "uint256_content (sig_s sig) = drop 32 rs"
    using assms(6-8) by (simp_all add: sig_def uint256_content_def bytes_of_uint256_of)
  have fields: "tx_fields tx (Some sig) =
      tx_fields tx None @ [min_bytes (unat (pby + 27)), take 32 rs, drop 32 rs]"
    using content by (simp add: tx_fields_def) (simp add: sig_def)
  have v: "length (min_bytes (unat (pby + 27))) \<le> 1"
    by (rule length_min_bytes_le) simp
  then have "length (rlp_string (min_bytes (unat (pby + 27)))) \<le> 2" by (simp add: rlp_string_def)
  then have "length (tx_payload tx (Some sig)) \<le> ?n + 68" "?n + 66 \<le> length (tx_payload tx (Some sig))"
    using assms(6) by (simp_all add: tx_payload_def fields rlp_string_def)
  moreover have "sig_ok (Some sig)" using assms(7,8) by (simp add: sig_ok_def uint256_ok_def sig_def)
  ultimately have "\<exists>ret mem. tx_encode tx (Some sig) buf1 buf_size = Inr (int ret, mem) \<and>
      length mem = length buf \<and> 0 < ret \<and> ret \<le> ?n + 71 \<and> rlp_decode_tx (take ret mem) = Some (tx_fields tx (Some sig))"
    using tx_encode_result [OF assms(1), of "Some sig" buf1 buf_size] assms(3,4) len1 by fastforce
  then show ?thesis by (simp add: tx_encode_sign_def enc1 sign fields nat_add_distrib)
qed

text \<open>A half of a signature for the examples.\<close>

lemma ones_large: "2 ^ 128 \<le> val256 (uint256_of_bytes (replicate 32 1))"
proof -
  have "replicate 8 1 = [1, 1, 1, 1, 1, 1, 1, 1 :: u8]" by (simp add: numeral_eq_Suc)
  then have "load_u64 (replicate 8 1) = 72340172838076673"
    by (simp add: load_u64_def be_val_Cons)
  then show ?thesis
    by (simp add: uint256_of_bytes_def uint128_of_bytes_def val256_def val128_def)
qed

section \<open>Properties\<close>

text \<open>
  The transactions the encoder is made for: a value below \<open>2 ^ 64\<close>, and either no data or a positive number of
  bytes, of which there are as many in memory and which are not the single byte 0. Their fields are those of
  the Ethereum transaction.
\<close>

definition tx_regular :: "transaction_t \<Rightarrow> bool" where
  "tx_regular tx \<longleftrightarrow> length (addr_a (tx_to tx)) = 20 \<and> val256 (tx_value tx) < 2 ^ 64 \<and> tx_data_len tx < 65000 \<and>
     (case tx_data tx of None \<Rightarrow> True
      | Some (_, content) \<Rightarrow> 0 < tx_data_len tx \<and> tx_data_len tx \<le> length content \<and> take (tx_data_len tx) content \<noteq> [0])"

definition eth_fields :: "transaction_t \<Rightarrow> u8 list list" where
  "eth_fields tx =
    [min_bytes (unat (tx_nonce tx)), min_bytes (unat (tx_gas_price tx)), min_bytes (unat (tx_gas_limit tx)),
     addr_a (tx_to tx), min_bytes (val256 (tx_value tx)),
     (case tx_data tx of None \<Rightarrow> [] | Some (_, content) \<Rightarrow> take (tx_data_len tx) content)]"

lemma tx_regular_fields:
  assumes "tx_regular tx"
  shows "tx_ok tx" "tx_fields tx None = eth_fields tx" "tx_payload tx None = concat (map rlp_string (eth_fields tx))"
proof -
  show f: "tx_fields tx None = eth_fields tx"
    using assms by (auto simp: tx_regular_def tx_fields_def eth_fields_def uint256_content_def data_content_def strip_zero_def split: option.splits)
  then show "tx_payload tx None = concat (map rlp_string (eth_fields tx))" by (simp add: tx_payload_def)
  show "tx_ok tx" using assms by (auto simp: tx_regular_def tx_ok_def uint256_ok_def split: option.splits)
qed

lemma eth_signature_fields:
  assumes "tx_regular tx" "2 ^ 128 \<le> val256 (sig_r s)" "2 ^ 128 \<le> val256 (sig_s s)"
  shows "tx_fields tx (Some s) = eth_fields tx @ [min_bytes (unat (sig_v s)), bytes_of_uint256 (sig_r s), bytes_of_uint256 (sig_s s)]"
    "sig_ok (Some s)"
proof -
  have "uint256_content x = bytes_of_uint256 x" if "2 ^ 128 \<le> val256 x" for x
    using that by (simp add: uint256_content_def)
  moreover have "tx_fields tx (Some s) = tx_fields tx None @ [min_bytes (unat (sig_v s)), uint256_content (sig_r s), uint256_content (sig_s s)]"
    by (simp add: tx_fields_def)
  ultimately show "tx_fields tx (Some s) = eth_fields tx @ [min_bytes (unat (sig_v s)), bytes_of_uint256 (sig_r s), bytes_of_uint256 (sig_s s)]"
    using assms tx_regular_fields(2) [OF assms(1)] by simp
  show "sig_ok (Some s)" using assms by (simp add: sig_ok_def uint256_ok_def)
qed

text \<open>
  What happens to the others: with a pointer and no bytes, a byte of the pointer itself is the data field.
\<close>

lemma tx_encode_pointer_byte:
  assumes "tx_ok tx" "tx_data tx = Some (address, content)" "tx_data_len tx = 0" "ucast address \<noteq> (0 :: u8)"
    and "length (tx_payload tx None) + 3 \<le> length buf" "length (tx_payload tx None) < 65533" "length (tx_payload tx None) \<noteq> 55"
  shows "\<exists>ret mem fs. tx_encode tx None buf buf_size = Inr (int ret, mem) \<and> rlp_decode_tx (take ret mem) = Some fs \<and> fs ! 5 = [ucast address]"
proof -
  have "tx_fields tx None ! 5 = [ucast address]"
    using assms(2-4) by (simp add: tx_fields_def data_content_def strip_zero_def)
  with tx_encode_result [OF assms(1) _ assms(5,6), of buf_size] assms(7) show ?thesis
    by (auto simp: sig_ok_def)
qed

text \<open>
  C3: the encoding of a transaction whose value is below \<open>2 ^ 64\<close>, with no data or with fewer than 65000 bytes of data
  other than a single 0, and, when it is signed, a signature neither half of which starts with 16 zero bytes.
  When the buffer has room for it, \<open>tx_encode\<close> returns the length of the encoding, and an RLP reader gets back
  exactly nonce, gas price, gas limit, recipient, value and data, followed by \<open>v\<close>, \<open>r\<close> and \<open>s\<close>. The exception
  are payloads of exactly 55 bytes: one byte is reserved for a header of two, the first byte of the
  payload is overwritten, and the result is no longer a list of that length.
\<close>

theorem tx_encode_decodes:
  assumes "tx_regular tx" "\<And>s. sig = Some s \<Longrightarrow> 2 ^ 128 \<le> val256 (sig_r s) \<and> 2 ^ 128 \<le> val256 (sig_s s)"
  defines "fs \<equiv> eth_fields tx @ (case sig of None \<Rightarrow> []
      | Some s \<Rightarrow> [min_bytes (unat (sig_v s)), bytes_of_uint256 (sig_r s), bytes_of_uint256 (sig_s s)])"
  defines "n \<equiv> length (concat (map rlp_string fs))"
  assumes "n + 3 \<le> length buf" "n < 65533"
  shows "\<exists>ret mem. tx_encode tx sig buf buf_size = Inr (int ret, mem) \<and> length mem = length buf \<and>
    drop ret mem = drop ret buf \<and> rlp_decode_tx (take ret mem) = (if n = 55 then None else Some fs)"
proof -
  have "tx_fields tx sig = fs \<and> sig_ok sig"
    using tx_regular_fields(2) [OF assms(1)] eth_signature_fields [OF assms(1)] assms(2)
    by (cases sig) (simp_all add: fs_def sig_ok_def)
  then have f: "tx_fields tx sig = fs" "sig_ok sig" "length (tx_payload tx sig) = n" by (simp_all add: tx_payload_def n_def)
  from tx_encode_result [OF tx_regular_fields(1) [OF assms(1)] f(2), unfolded f, OF assms(5,6)] show ?thesis by blast
qed

text \<open>A transfer without data, and one whose payload has 55 bytes.\<close>

theorem tx_encode_decodes_witness:
  "let tx = \<lparr>tx_nonce = 1, tx_gas_price = 2, tx_gas_limit = 3, tx_to = \<lparr>addr_a = replicate 20 9\<rparr>,
        tx_value = set256_uint64 500, tx_data = None, tx_data_len = 0\<rparr>;
       tx' = tx\<lparr>tx_data := Some (4096, replicate 27 1), tx_data_len := 27\<rparr>
   in (\<exists>ret mem. tx_encode tx None (replicate 100 0) 100 = Inr (int ret, mem) \<and>
        rlp_decode_tx (take ret mem) = Some [[1], [2], [3], replicate 20 9, [1, 244], []]) \<and>
      (\<exists>ret mem. tx_encode tx' None (replicate 100 0) 100 = Inr (int ret, mem) \<and>
        rlp_decode_tx (take ret mem) = None)"
proof -
  let ?tx = "\<lparr>tx_nonce = 1, tx_gas_price = 2, tx_gas_limit = 3, tx_to = \<lparr>addr_a = replicate 20 9\<rparr>,
        tx_value = set256_uint64 500, tx_data = None, tx_data_len = 0\<rparr>"
  let ?tx' = "?tx\<lparr>tx_data := Some (4096, replicate 27 1), tx_data_len := 27\<rparr>"
  have v: "val256 (set256_uint64 500) = 500"
    by (simp add: set256_uint64_def val256_def val128_def clear256_def clear128_def)
  have r: "replicate 27 (1::u8) \<noteq> [0]" by (auto dest: arg_cong [where f = length])
  have m: "min_bytes (Suc 0) = [1]" "min_bytes 2 = [2]" "min_bytes 3 = [3]" "min_bytes 500 = [1, 244]"
    by (simp_all add: min_bytes_pos)
  have f: "eth_fields ?tx = [[1], [2], [3], replicate 20 9, [1, 244], []]"
    "eth_fields ?tx' = [[1], [2], [3], replicate 20 9, [1, 244], replicate 27 1]"
    by (simp_all add: eth_fields_def v m)
  have p: "length (concat (map rlp_string (eth_fields ?tx))) = 28" "length (concat (map rlp_string (eth_fields ?tx'))) = 55"
    unfolding f by (simp_all add: rlp_string_def)
  have ok: "tx_regular ?tx" "tx_regular ?tx'" by (simp_all add: tx_regular_def v r)
  show ?thesis
    using tx_encode_decodes [OF ok(1), of None "replicate 100 0" 100, unfolded option.case append_Nil2 p, unfolded f]
      tx_encode_decodes [OF ok(2), of None "replicate 100 0" 100, unfolded option.case append_Nil2 p, unfolded f]
    by (simp only: Let_def) (auto; fastforce)
qed

text \<open>
  C4: signing a transaction whose value is below \<open>2 ^ 64\<close>, with no data or with data other than a single 0, whose
  unsigned payload is shorter than 65000 bytes and not exactly 55 long. What is hashed and signed is the RLP
  list of the six fields, and the final encoding is the list of those fields, the recovery value (bit plus 27)
  and the two halves of that signature, provided that neither half starts with 16 zero bytes.
\<close>

theorem tx_encode_sign_decodes:
  fixes tx :: transaction_t
  defines "fs \<equiv> eth_fields tx"
  defines "p \<equiv> concat (map rlp_string fs)"
  assumes "tx_regular tx" "length p \<noteq> 55" "length p + 73 \<le> length buf" "length p < 65000"
    "ecdsa_sign privkey (keccak (rlp_list_header (length p) @ p)) = (rs, pby)"
    "length rs = 64" "2 ^ 128 \<le> val256 (uint256_of_bytes (take 32 rs))"
    "2 ^ 128 \<le> val256 (uint256_of_bytes (drop 32 rs))"
  shows "\<exists>ret mem. tx_encode_sign keccak ecdsa_sign signature tx privkey buf buf_size = Inr (int ret, mem) \<and>
    rlp_decode_tx (take ret mem) = Some (fs @ [min_bytes (unat (pby + 27)), take 32 rs, drop 32 rs])"
proof -
  have f: "tx_fields tx None = fs" "tx_payload tx None = p"
    using tx_regular_fields [OF assms(3)] by (simp_all add: fs_def p_def)
  from tx_encode_sign_result [where ecdsa_sign = ecdsa_sign and privkey = privkey and keccak = keccak,
      OF tx_regular_fields(1) [OF assms(3)], unfolded f, OF assms(4-10)] show ?thesis by blast
qed

theorem tx_encode_sign_decodes_witness:
  "let tx = \<lparr>tx_nonce = 1, tx_gas_price = 2, tx_gas_limit = 3, tx_to = \<lparr>addr_a = replicate 20 9\<rparr>,
        tx_value = set256_uint64 0, tx_data = None, tx_data_len = 0\<rparr>
   in \<exists>ret mem. tx_encode_sign (\<lambda>d. replicate 32 0) (\<lambda>k d. (replicate 64 1, 0))
          \<lparr>sig_r = clear256, sig_s = clear256, sig_v = 0\<rparr> tx (replicate 32 5) (replicate 200 0) 200 =
        Inr (int ret, mem) \<and>
      rlp_decode_tx (take ret mem) =
        Some [[1], [2], [3], replicate 20 9, [], [], [27], replicate 32 1, replicate 32 1]"
proof -
  let ?tx = "\<lparr>tx_nonce = 1, tx_gas_price = 2, tx_gas_limit = 3, tx_to = \<lparr>addr_a = replicate 20 9\<rparr>,
        tx_value = set256_uint64 0, tx_data = None, tx_data_len = 0\<rparr>"
  have v: "val256 (set256_uint64 0) = 0"
    by (simp add: set256_uint64_def val256_def val128_def clear256_def clear128_def)
  have m: "min_bytes (Suc 0) = [1]" "min_bytes 2 = [2]" "min_bytes 3 = [3]" "min_bytes 27 = [27]"
    by (simp_all add: min_bytes_pos)
  have f: "eth_fields ?tx = [[1], [2], [3], replicate 20 9, [], []]"
    by (simp add: eth_fields_def v m)
  have p: "length (concat (map rlp_string (eth_fields ?tx))) = 26"
    unfolding f by (simp add: rlp_string_def)
  have ok: "tx_regular ?tx" by (simp add: tx_regular_def v)
  show ?thesis
    using tx_encode_sign_decodes [OF ok, of "replicate 200 0" "\<lambda>k d. (replicate 64 1, 0)" "replicate 32 5"
        "\<lambda>d. replicate 32 0" "replicate 64 1" 0 "\<lparr>sig_r = clear256, sig_s = clear256, sig_v = 0\<rparr>" 200, unfolded p, unfolded f]
      ones_large by (simp add: m Let_def)
qed

text \<open>
  \<open>tx_set_to\<close> on a text of even length: 40 hexadecimal digits, with or without \<open>0x\<close>, set the
  recipient and return 0; any other text of at most 40 characters is refused with -1; a longer
  one stops the program at the assertion in \<open>hextobin\<close>.
\<close>

lemma tx_set_to_cases:
  assumes "even (length to_hex)" "length (addr_a (tx_to tx)) = 20"
  shows "if to_hex \<noteq> [] \<and> length (skip_0x to_hex) > 40
    then tx_set_to tx to_hex = Inl Assertion_failed
    else \<exists>ret tx'. tx_set_to tx to_hex = Inr (ret, tx') \<and>
      (case hex_bytes (skip_0x to_hex) of
         Some bs \<Rightarrow> if length bs = 20 then ret = 0 \<and> tx' = tx\<lparr>tx_to := \<lparr>addr_a = bs\<rparr>\<rparr> else ret = -1
       | None \<Rightarrow> ret = -1)"
proof (cases "to_hex = []")
  case True
  then show ?thesis
    by (simp add: tx_set_to_def hextobin_def E_EMPTY_STRING_def skip_0x_def has_0x_def Let_def)
next
  case ne: False
  show ?thesis
  proof (cases "length (skip_0x to_hex) > 40")
    case True
    with ne assms(1) show ?thesis
      by (simp add: tx_set_to_def hextobin_def Let_def even_iff_mod_2_eq_zero)
  next
    case False
    then have "length (skip_0x to_hex) \<le> 254" "length (skip_0x to_hex) \<le> 2 * 20"
        "20 \<le> length (addr_a (tx_to tx))"
      using assms(2) by simp_all
    from hextobin_correct [OF ne assms(1) this] assms(2) False ne show ?thesis
      by (auto simp: tx_set_to_def E_INVALID_CHAR_def Let_def split: option.splits)
  qed
qed

lemma tx_set_to_cases_witness:
  "\<exists>tx'. tx_set_to \<lparr>tx_nonce = 1, tx_gas_price = 2, tx_gas_limit = 3, tx_to = \<lparr>addr_a = replicate 20 9\<rparr>,
      tx_value = clear256, tx_data = None, tx_data_len = 0\<rparr> ''0x0102'' = Inr (-1, tx')"
  using tx_set_to_cases [of "''0x0102''" "\<lparr>tx_nonce = 1, tx_gas_price = 2, tx_gas_limit = 3,
      tx_to = \<lparr>addr_a = replicate 20 9\<rparr>, tx_value = clear256, tx_data = None, tx_data_len = 0\<rparr>"]
  by (auto simp: skip_0x_def has_0x_def map_hex_def)

end
