(* ===== verification/AbiData.thy ===== *)
theory AbiData
  imports Sign
begin

text \<open>
  \<open>eth/data.c\<close>: the argument block of a contract call, a 4-byte selector and 32-byte items. The
  items are a store with the laws of the locale \<open>slots\<close>; every encoder is a \<open>put\<close> of one word.
\<close>

section \<open>Definitions\<close>

definition DATA_ITEM_LEN :: nat where "DATA_ITEM_LEN = 32"
definition SELECTOR_LEN :: nat where "SELECTOR_LEN = 4"

text \<open>\<open>data\<close> is \<open>None\<close> for NULL, otherwise the memory behind the pointer.\<close>

record data_block_t =
  blk_len :: nat
  blk_data :: "u8 list option"

definition blk_mem :: "data_block_t \<Rightarrow> u8 list" where
  "blk_mem blk = (case blk_data blk of None \<Rightarrow> [] | Some mem \<Rightarrow> mem)"

definition blk_write :: "data_block_t \<Rightarrow> nat \<Rightarrow> u8 list \<Rightarrow> data_block_t outcome" where
  "blk_write blk off bs =
    bindE (write_at (blk_mem blk) off bs) (\<lambda>mem. Inr (blk\<lparr>blk_data := Some mem\<rparr>))"

text \<open>\<open>size_t\<close> has 64 bits here; for the indices of blocks that fit into memory the product does not wrap.\<close>

definition compute_item_index :: "nat \<Rightarrow> nat" where
  "compute_item_index index = index * DATA_ITEM_LEN + SELECTOR_LEN"

definition swap_uint32 :: "u32 \<Rightarrow> u32" where
  "swap_uint32 val =
    (let val = (push_bit 8 val AND 0xFF00FF00) OR (drop_bit 8 val AND 0xFF00FF)
     in push_bit 16 val OR drop_bit 16 val)"

text \<open>\<open>blk->data_len - SELECTOR_LEN\<close> is an unsigned 64-bit subtraction, which may wrap.\<close>

definition data_init :: "data_block_t \<Rightarrow> (int \<times> data_block_t) outcome" where
  "data_init blk =
    bindE (assertE (blk_data blk \<noteq> None)) (\<lambda>_.
    bindE (assertE ((int (blk_len blk) - int SELECTOR_LEN) mod 2 ^ 64 mod int DATA_ITEM_LEN = 0)) (\<lambda>_.
    bindE (blk_write blk 0 (replicate (blk_len blk) 0)) (\<lambda>blk. Inr (0, blk))))"

definition store_u32 :: "u32 \<Rightarrow> u8 list" where
  "store_u32 v = le_bytes 4 (unat v)"

definition data_set_selector :: "data_block_t \<Rightarrow> u32 \<Rightarrow> (int \<times> data_block_t) outcome" where
  "data_set_selector blk selector =
    bindE (assertE (blk_data blk \<noteq> None)) (\<lambda>_.
    bindE (assertE (blk_len blk \<ge> 4)) (\<lambda>_.
    bindE (blk_write blk 0 (store_u32 (swap_uint32 selector))) (\<lambda>blk. Inr (0, blk))))"

definition item_clear :: "data_block_t \<Rightarrow> nat \<Rightarrow> data_block_t outcome" where
  "item_clear blk idx = blk_write blk (compute_item_index idx) (replicate DATA_ITEM_LEN 0)"

definition encode_uint :: "data_block_t \<Rightarrow> nat \<Rightarrow> u64 \<Rightarrow> (int \<times> data_block_t) outcome" where
  "encode_uint blk idx val =
    bindE (item_clear blk idx) (\<lambda>blk.
    let item_idx = compute_item_index idx in
    bindE (blk_write blk (item_idx + 3 * 8) (store_u64 (ENDIAN_SWAP_U64 val))) (\<lambda>blk. Inr (0, blk)))"

definition encode_uint128 :: "data_block_t \<Rightarrow> nat \<Rightarrow> uint128_t \<Rightarrow> (int \<times> data_block_t) outcome" where
  "encode_uint128 blk idx val =
    bindE (item_clear blk idx) (\<lambda>blk.
    let item_idx = compute_item_index idx in
    bindE (blk_write blk (item_idx + 16) (bytes_of_uint128 val)) (\<lambda>blk. Inr (0, blk)))"

definition encode_uint256 :: "data_block_t \<Rightarrow> nat \<Rightarrow> uint256_t \<Rightarrow> (int \<times> data_block_t) outcome" where
  "encode_uint256 blk idx val =
    bindE (item_clear blk idx) (\<lambda>blk.
    let item_idx = compute_item_index idx in
    bindE (blk_write blk item_idx (bytes_of_uint256 val)) (\<lambda>blk. Inr (0, blk)))"

definition encode_address :: "data_block_t \<Rightarrow> nat \<Rightarrow> address_t \<Rightarrow> (int \<times> data_block_t) outcome" where
  "encode_address blk idx val =
    bindE (item_clear blk idx) (\<lambda>blk.
    let item_idx = compute_item_index idx in
    bindE (blk_write blk (item_idx + (32 - 20)) (addr_a val)) (\<lambda>blk. Inr (0, blk)))"

definition encode_data :: "data_block_t \<Rightarrow> nat \<Rightarrow> u8 list \<Rightarrow> nat \<Rightarrow> (int \<times> data_block_t) outcome" where
  "encode_data blk idx data data_len =
    bindE (assertE (data_len \<le> 32)) (\<lambda>_.
    let item_idx = compute_item_index idx in
    bindE (assertE (item_idx < blk_len blk)) (\<lambda>_.
    bindE (item_clear blk idx) (\<lambda>blk.
    bindE (read_at data 0 data_len) (\<lambda>d.
    bindE (blk_write blk item_idx d) (\<lambda>blk. Inr (0, blk))))))"

definition decode_uint :: "data_block_t \<Rightarrow> nat \<Rightarrow> u64 outcome" where
  "decode_uint blk idx =
    (let item_idx = compute_item_index idx in
     bindE (assertE (item_idx < blk_len blk)) (\<lambda>_.
     bindE (read_at (blk_mem blk) (item_idx + 16) 16) (\<lambda>u_p.
     Inr (ENDIAN_SWAP_U64 (LOWER (uint128_of_bytes u_p))))))"

definition decode_data :: "data_block_t \<Rightarrow> nat \<Rightarrow> u8 list \<Rightarrow> nat \<Rightarrow> (int \<times> u8 list) outcome" where
  "decode_data blk idx data_out data_out_len =
    (let item_idx = compute_item_index idx in
     bindE (assertE (item_idx < blk_len blk)) (\<lambda>_.
     bindE (read_at (blk_mem blk) item_idx (min data_out_len DATA_ITEM_LEN)) (\<lambda>d.
     bindE (write_at data_out 0 d) (\<lambda>data_out. Inr (0, data_out)))))"

section \<open>Items as a store\<close>

text \<open>
  A store of words under the indices below \<open>size\<close>. The client lemma is what makes a list of
  argument encoders correct: with distinct indices, every word written is found again.
\<close>

locale slots =
  fixes put :: "'m \<Rightarrow> nat \<Rightarrow> 'w \<Rightarrow> 'm" and get :: "'m \<Rightarrow> nat \<Rightarrow> 'w"
    and size :: "'m \<Rightarrow> nat" and word :: "'w \<Rightarrow> bool"
  assumes get_put: "i < size m \<Longrightarrow> word w \<Longrightarrow> get (put m i w) i = w"
    and get_put_other: "i < size m \<Longrightarrow> word w \<Longrightarrow> j < size m \<Longrightarrow> j \<noteq> i \<Longrightarrow> get (put m i w) j = get m j"
    and size_put: "i < size m \<Longrightarrow> word w \<Longrightarrow> size (put m i w) = size m"
begin

fun put_all :: "'m \<Rightarrow> (nat \<times> 'w) list \<Rightarrow> 'm" where
  "put_all m [] = m"
| "put_all m ((i, w) # iws) = put_all (put m i w) iws"

definition fits :: "'m \<Rightarrow> (nat \<times> 'w) list \<Rightarrow> bool" where
  "fits m iws \<longleftrightarrow> (\<forall>(i, w) \<in> set iws. i < size m \<and> word w)"

lemma fits_Cons: "fits m ((i, w) # iws) \<Longrightarrow> i < size m \<and> word w \<and> fits (put m i w) iws"
  by (auto simp: fits_def size_put)

lemma size_put_all: "fits m iws \<Longrightarrow> size (put_all m iws) = size m"
  by (induction m iws rule: put_all.induct) (auto dest!: fits_Cons simp: size_put)

lemma get_put_all_other:
  "fits m iws \<Longrightarrow> j < size m \<Longrightarrow> j \<notin> fst ` set iws \<Longrightarrow> get (put_all m iws) j = get m j"
  by (induction m iws rule: put_all.induct) (auto dest!: fits_Cons simp: size_put get_put_other)

lemma get_put_all:
  "fits m iws \<Longrightarrow> distinct (map fst iws) \<Longrightarrow> (j, w) \<in> set iws \<Longrightarrow> get (put_all m iws) j = w"
proof (induction m iws rule: put_all.induct)
  case (2 m i v iws)
  note f = fits_Cons [OF 2(2)]
  show ?case
  proof (cases "(j, w) = (i, v)")
    case True
    with f 2(3) show ?thesis by (simp add: get_put_all_other size_put get_put)
  next
    case False
    with f 2 show ?thesis by auto
  qed
qed simp

end

text \<open>The block as such a store: all words that lie in its memory.\<close>

definition slot_put :: "u8 list \<Rightarrow> nat \<Rightarrow> u8 list \<Rightarrow> u8 list" where
  "slot_put mem idx w = take (idx * 32 + 4) mem @ w @ drop (idx * 32 + 36) mem"

definition slot_get :: "u8 list \<Rightarrow> nat \<Rightarrow> u8 list" where
  "slot_get mem idx = take 32 (drop (idx * 32 + 4) mem)"

definition slot_count :: "u8 list \<Rightarrow> nat" where
  "slot_count mem = (length mem - 4) div 32"

lemma slot_in: "idx < slot_count mem \<longleftrightarrow> idx * 32 + 36 \<le> length mem"
  using less_eq_div_iff_mult_less_eq [of 32 "Suc idx" "length mem - 4"]
  by (auto simp: slot_count_def Suc_le_eq)

lemma slot_put_write:
  "idx < slot_count mem \<Longrightarrow> length w = 32 \<Longrightarrow> write_at mem (idx * 32 + 4) w = Inr (slot_put mem idx w)"
  by (simp add: slot_in write_at_def slot_put_def add.commute)

lemma slot_get_read: "idx < slot_count mem \<Longrightarrow> read_at mem (idx * 32 + 4) 32 = Inr (slot_get mem idx)"
  by (simp add: slot_in read_at_def slot_get_def)

interpretation items: slots slot_put slot_get slot_count "\<lambda>w. length w = 32"
proof
  fix i :: nat and mem w :: "u8 list"
  assume i: "i < slot_count mem" and w: "length w = 32"
  note wr = slot_put_write [OF i w]
  have len: "length (slot_put mem i w) = length mem" using write_at_length [OF wr] .
  then show count: "slot_count (slot_put mem i w) = slot_count mem" by (simp add: slot_count_def)
  show "slot_get (slot_put mem i w) i = w"
    using read_at_write_at [OF wr] slot_get_read [of i "slot_put mem i w"] i count w by simp
  fix j assume j: "j < slot_count mem" "j \<noteq> i"
  then have "j * 32 + 4 + 32 \<le> i * 32 + 4 \<or> i * 32 + 4 + length w \<le> j * 32 + 4" using w by auto
  from read_at_write_at_disjoint [OF wr this] j(1) count
  show "slot_get (slot_put mem i w) j = slot_get mem j"
    using slot_get_read [of j mem] slot_get_read [of j "slot_put mem i w"] by simp
qed

section \<open>The encoders as writes of one word\<close>

text \<open>A block whose memory is as long as \<open>data_len\<close> says.\<close>

definition blk_ok :: "data_block_t \<Rightarrow> bool" where
  "blk_ok blk \<longleftrightarrow> blk_data blk \<noteq> None \<and> length (blk_mem blk) = blk_len blk"

definition blk_put :: "data_block_t \<Rightarrow> nat \<Rightarrow> u8 list \<Rightarrow> data_block_t" where
  "blk_put blk idx w = blk\<lparr>blk_data := Some (slot_put (blk_mem blk) idx w)\<rparr>"

abbreviation blk_slots :: "data_block_t \<Rightarrow> nat" where
  "blk_slots blk \<equiv> slot_count (blk_mem blk)"

abbreviation blk_get :: "data_block_t \<Rightarrow> nat \<Rightarrow> u8 list" where
  "blk_get blk idx \<equiv> slot_get (blk_mem blk) idx"

lemma blk_mem_update [simp]: "blk_mem (blk\<lparr>blk_data := Some mem\<rparr>) = mem"
  by (simp add: blk_mem_def)

lemma blk_mem_put [simp]: "blk_mem (blk_put blk idx w) = slot_put (blk_mem blk) idx w"
  by (simp add: blk_put_def)

lemma blk_put_ok: "blk_ok blk \<Longrightarrow> idx < blk_slots blk \<Longrightarrow> length w = 32 \<Longrightarrow> blk_ok (blk_put blk idx w)"
  using write_at_length [OF slot_put_write [of idx "blk_mem blk" w]]
  by (simp add: blk_ok_def) (simp add: blk_put_def)

lemma item_clear_put:
  "idx < blk_slots blk \<Longrightarrow> item_clear blk idx = Inr (blk_put blk idx (replicate 32 0))"
  using slot_put_write [of idx "blk_mem blk" "replicate 32 0"]
  by (simp add: item_clear_def blk_write_def compute_item_index_def DATA_ITEM_LEN_def
      SELECTOR_LEN_def blk_put_def)

text \<open>Clearing the word and writing \<open>bs\<close> at position \<open>k\<close> of it.\<close>

lemma cleared_write:
  assumes "idx < blk_slots blk" "k + length bs + n = 32"
  shows "blk_write (blk_put blk idx (replicate 32 0)) (compute_item_index idx + k) bs =
    Inr (blk_put blk idx (replicate k 0 @ bs @ replicate n 0))"
proof -
  have "write_at (slot_put (blk_mem blk) idx (replicate 32 0)) (idx * 32 + 4 + k) bs =
      Inr (slot_put (blk_mem blk) idx (replicate k 0 @ bs @ replicate n 0))"
    using assms by (auto simp: slot_put_def slot_in write_at_def min_def)
  then show ?thesis
    by (simp add: blk_write_def compute_item_index_def DATA_ITEM_LEN_def SELECTOR_LEN_def blk_put_def
        add.commute add.left_commute) 
qed

lemma encode_uint_put:
  assumes "idx < blk_slots blk"
  shows "encode_uint blk idx val = Inr (0, blk_put blk idx (be_bytes 32 (unat val)))"
proof -
  have "be_bytes (24 + 8) (unat val) = replicate 24 0 @ be_bytes 8 (unat val)"
    using u64_bound [of val] by (intro be_bytes_high_0) simp
  then have "be_bytes 32 (unat val) = replicate 24 0 @ be_bytes 8 (unat val) @ replicate 0 0" by simp
  with cleared_write [OF assms, of 24 "be_bytes 8 (unat val)" 0] show ?thesis
    by (simp add: encode_uint_def item_clear_put [OF assms] Let_def store_swap_be)
qed

lemma encode_uint128_put:
  assumes "idx < blk_slots blk"
  shows "encode_uint128 blk idx val = Inr (0, blk_put blk idx (replicate 16 0 @ bytes_of_uint128 val))"
  using cleared_write [OF assms, of 16 "bytes_of_uint128 val" 0]
  by (simp add: encode_uint128_def item_clear_put [OF assms] Let_def bytes_of_uint128_def)

lemma encode_uint256_put:
  assumes "idx < blk_slots blk"
  shows "encode_uint256 blk idx val = Inr (0, blk_put blk idx (bytes_of_uint256 val))"
  using cleared_write [OF assms, of 0 "bytes_of_uint256 val" 0]
  by (simp add: encode_uint256_def item_clear_put [OF assms] Let_def)

lemma encode_address_put:
  assumes "idx < blk_slots blk" "length (addr_a val) = 20"
  shows "encode_address blk idx val = Inr (0, blk_put blk idx (replicate 12 0 @ addr_a val))"
  using cleared_write [OF assms(1), of 12 "addr_a val" 0] assms(2)
  by (simp add: encode_address_def item_clear_put [OF assms(1)] Let_def)

lemma encode_data_put:
  assumes "idx < blk_slots blk" "blk_ok blk" "n \<le> 32" "n \<le> length data"
  shows "encode_data blk idx data n = Inr (0, blk_put blk idx (take n data @ replicate (32 - n) 0))"
  using cleared_write [OF assms(1), of 0 "take n data" "32 - n"] assms
  by (simp add: encode_data_def item_clear_put Let_def read_at_def slot_in blk_ok_def
      compute_item_index_def DATA_ITEM_LEN_def SELECTOR_LEN_def)

text \<open>The selector is stored big-endian.\<close>

lemma store_u32_bytes:
  "store_u32 v = [ucast v, ucast (drop_bit 8 v), ucast (drop_bit 16 v), ucast (drop_bit 24 v)]"
proof -
  have b: "(of_nat (unat v div 2 ^ n) :: u8) = ucast (drop_bit n v)" for n
    by (simp only: word_unat_eq_iff unsigned_ucast_eq take_bit_eq_mod unat_of_nat unat_drop_bit_nat)
  show ?thesis
    using b [of 0] b [of 8] b [of 16] b [of 24]
    by (simp add: store_u32_def le_bytes_numeral div_mult2_eq [symmetric])
qed

lemma swap_uint32_masks:
  "(0xFF00FF00 :: u32) = push_bit 8 (mask 8) OR push_bit 24 (mask 8)"
  "(0xFF00FF :: u32) = mask 8 OR push_bit 16 (mask 8)"
  by (simp_all add: mask_eq_exp_minus_1 push_bit_eq_mult)

lemma store_swap_uint32: "store_u32 (swap_uint32 v) = be_bytes 4 (unat v)"
proof -
  have "store_u32 (swap_uint32 v) = rev (store_u32 v)"
    unfolding store_u32_bytes swap_uint32_def swap_uint32_masks Let_def
    by (auto simp: bit_eq_iff bit_simps)
  then show ?thesis by (simp add: store_u32_def rev_le_bytes)
qed

text \<open>Decoding reads the last eight bytes of the word, big-endian.\<close>

lemma decode_uint_get:
  assumes "blk_ok blk" "idx < blk_slots blk"
  shows "decode_uint blk idx = Inr (of_nat (be_val (drop 24 (blk_get blk idx))))"
proof -
  have len: "length (blk_get blk idx) = 32" using assms(2) by (simp add: slot_in slot_get_def)
  have "read_at (blk_mem blk) (compute_item_index idx + 16) 16 = Inr (drop 16 (blk_get blk idx))"
    using assms(2)
    by (simp add: slot_in slot_get_def compute_item_index_def DATA_ITEM_LEN_def SELECTOR_LEN_def
        read_at_def drop_take add.commute)
  moreover have "ENDIAN_SWAP_U64 (load_u64 bs) = of_nat (be_val bs)" if "length bs = 8" for bs
  proof -
    have "store_u64 (ENDIAN_SWAP_U64 (load_u64 bs)) = rev bs"
      using that by (simp add: store_endian_swap store_load_u64)
    then have "ENDIAN_SWAP_U64 (load_u64 bs) = load_u64 (rev bs)" by (metis load_store_u64)
    then show ?thesis by (simp add: load_u64_def)
  qed
  ultimately show ?thesis
    using assms len
    by (simp add: decode_uint_def Let_def uint128_of_bytes_def blk_ok_def slot_in
        compute_item_index_def DATA_ITEM_LEN_def SELECTOR_LEN_def)
qed

lemma decode_be_bytes: "of_nat (be_val (drop 24 (be_bytes 32 (unat v)))) = (v :: u64)"
proof -
  have "be_bytes (24 + 8) (unat v) = be_bytes 24 (unat v div 256 ^ 8) @ be_bytes 8 (unat v)"
    by (rule be_bytes_add)
  then have "drop 24 (be_bytes 32 (unat v)) = be_bytes 8 (unat v)" by simp
  then show ?thesis using u64_bound [of v] by (simp add: be_val_be_bytes)
qed

text \<open>Encoding a list of numbers one after the other, as a caller does.\<close>

fun encode_uints :: "data_block_t \<Rightarrow> (nat \<times> u64) list \<Rightarrow> data_block_t outcome" where
  "encode_uints blk [] = Inr blk"
| "encode_uints blk ((idx, val) # rest) =
    bindE (encode_uint blk idx val) (\<lambda>(_, blk). encode_uints blk rest)"

lemma encode_uints_put_all:
  assumes "blk_ok blk" "\<forall>(idx, val) \<in> set ivs. idx < blk_slots blk"
  shows "\<exists>blk'. encode_uints blk ivs = Inr blk' \<and> blk_ok blk' \<and>
    blk_mem blk' = items.put_all (blk_mem blk) (map (\<lambda>(i, v). (i, be_bytes 32 (unat v))) ivs)"
  using assms
proof (induction blk ivs rule: encode_uints.induct)
  case (2 blk idx val rest)
  let ?blk = "blk_put blk idx (be_bytes 32 (unat val))"
  have i: "idx < blk_slots blk" using 2(3) by simp
  have "blk_ok ?blk" "\<forall>(idx, val) \<in> set rest. idx < blk_slots ?blk"
    using 2(2,3) i by (auto simp: blk_put_ok items.size_put)
  with 2(1) [OF encode_uint_put [OF i] refl] show ?case by (simp add: encode_uint_put [OF i])
qed simp

section \<open>Properties\<close>

text \<open>
  Numbers encoded at distinct indices of a block, in any order, are all decoded again, and the
  items at other indices keep their content.
\<close>

lemma encode_uints_decode:
  assumes "blk_ok blk" "\<forall>(idx, val) \<in> set ivs. idx < blk_slots blk" "distinct (map fst ivs)"
  shows "\<exists>blk'. encode_uints blk ivs = Inr blk' \<and>
    (\<forall>(idx, val) \<in> set ivs. decode_uint blk' idx = Inr val) \<and>
    (\<forall>idx < blk_slots blk. idx \<notin> fst ` set ivs \<longrightarrow> blk_get blk' idx = blk_get blk idx)"
proof -
  let ?ws = "map (\<lambda>(i, v). (i, be_bytes 32 (unat v))) ivs"
  obtain blk' where b: "encode_uints blk ivs = Inr blk'" "blk_ok blk'"
      "blk_mem blk' = items.put_all (blk_mem blk) ?ws"
    using encode_uints_put_all [OF assms(1,2)] by blast
  have fits: "items.fits (blk_mem blk) ?ws" using assms(2) by (auto simp: items.fits_def)
  have fst: "fst ` set ?ws = fst ` set ivs" "distinct (map fst ?ws)"
    using assms(3) by (auto simp: image_image case_prod_beta comp_def)
  have "decode_uint blk' idx = Inr val" if "(idx, val) \<in> set ivs" for idx val
  proof -
    from that have "(idx, be_bytes 32 (unat val)) \<in> set ?ws" by auto
    with fits fst(2) have "blk_get blk' idx = be_bytes 32 (unat val)"
      unfolding b(3) by (rule items.get_put_all)
    moreover have "idx < blk_slots blk'"
      using that assms(2) fits by (auto simp: b(3) items.size_put_all)
    ultimately show ?thesis using b(2) by (simp add: decode_uint_get decode_be_bytes)
  qed
  moreover have "blk_get blk' idx = blk_get blk idx"
    if "idx < blk_slots blk" "idx \<notin> fst ` set ivs" for idx
    unfolding b(3) using fits that fst(1) by (intro items.get_put_all_other) simp_all
  ultimately show ?thesis using b(1) by blast
qed

lemma encode_uints_decode_witness:
  "\<exists>blk. encode_uints \<lparr>blk_len = 100, blk_data = Some (replicate 100 0)\<rparr> [(2, 7), (0, 300)] = Inr blk \<and>
    decode_uint blk 2 = Inr 7 \<and> decode_uint blk 0 = Inr 300"
  using encode_uints_decode [of "\<lparr>blk_len = 100, blk_data = Some (replicate 100 0)\<rparr>" "[(2, 7), (0, 300)]"]
  by (simp add: blk_ok_def blk_mem_def slot_count_def) blast

text \<open>
  C26: the layout of a call's arguments. Initialising a block of four items, setting the selector and encoding
  an address, a 64-bit number, a 256-bit number and up to 32 bytes of data gives, whatever the memory held
  before: the selector big-endian; address and 64-bit number with their zeros before them, the number
  big-endian; the 256-bit number as it lies in memory; the data with its zeros behind it. From the block the
  number and the data are decoded again. (The comments in \<open>data.h\<close> name the paddings the other way round.)
\<close>

theorem abi_block_layout:
  assumes "length mem = 132" "length (addr_a to) = 20" "length data = n" "n \<le> 32"
  shows "\<exists>blk. bindE (data_init \<lparr>blk_len = 132, blk_data = Some mem\<rparr>) (\<lambda>(_, blk).
      bindE (data_set_selector blk selector) (\<lambda>(_, blk).
      bindE (encode_address blk 0 to) (\<lambda>(_, blk).
      bindE (encode_uint blk 1 v) (\<lambda>(_, blk).
      bindE (encode_uint256 blk 2 w) (\<lambda>(_, blk).
      encode_data blk 3 data n))))) = Inr (0, blk) \<and>
    blk = \<lparr>blk_len = 132, blk_data = Some
      (be_bytes 4 (unat selector) @ (replicate 12 0 @ addr_a to) @ be_bytes 32 (unat v) @ bytes_of_uint256 w @ data @ replicate (32 - n) 0)\<rparr> \<and>
    decode_uint blk 1 = Inr v \<and> decode_data blk 3 out n = bindE (write_at out 0 data) (\<lambda>out. Inr (0, out))"
proof -
  let ?sel = "be_bytes 4 (unat selector)" and ?a = "replicate 12 0 @ addr_a to" and ?v = "be_bytes 32 (unat v)"
    and ?w = "bytes_of_uint256 w" and ?d = "data @ replicate (32 - n) 0"
  let ?blk = "\<lambda>mem. \<lparr>blk_len = 132, blk_data = Some mem\<rparr>" and ?final = "?sel @ ?a @ ?v @ ?w @ ?d"
  have init: "data_init (?blk mem) = Inr (0, ?blk (replicate 132 0))"
    using assms(1)
    by (simp add: data_init_def SELECTOR_LEN_def DATA_ITEM_LEN_def blk_write_def blk_mem_def write_at_def)
  have sel: "data_set_selector (?blk (replicate 132 0)) selector = Inr (0, ?blk (?sel @ replicate 128 0))"
    by (simp add: data_set_selector_def blk_write_def blk_mem_def write_at_def store_swap_uint32)
  have s1: "encode_address (?blk (?sel @ replicate 128 0)) 0 to = Inr (0, ?blk (?sel @ ?a @ replicate 96 0))"
    using assms(2) by (subst encode_address_put) (simp_all add: slot_in blk_mem_def blk_put_def slot_put_def)
  have s2: "encode_uint (?blk (?sel @ ?a @ replicate 96 0)) 1 v = Inr (0, ?blk (?sel @ ?a @ ?v @ replicate 64 0))"
    using assms(2) by (subst encode_uint_put) (simp_all add: slot_in blk_mem_def blk_put_def slot_put_def)
  have s3: "encode_uint256 (?blk (?sel @ ?a @ ?v @ replicate 64 0)) 2 w = Inr (0, ?blk (?sel @ ?a @ ?v @ ?w @ replicate 32 0))"
    using assms(2) by (subst encode_uint256_put) (simp_all add: slot_in blk_mem_def blk_put_def slot_put_def)
  have s4: "encode_data (?blk (?sel @ ?a @ ?v @ ?w @ replicate 32 0)) 3 data n = Inr (0, ?blk ?final)"
    using assms(2-4) by (subst encode_data_put) (simp_all add: slot_in blk_ok_def blk_mem_def blk_put_def slot_put_def)
  have g: "blk_get (?blk ?final) 1 = ?v"
    using assms(2) by (simp add: slot_get_def blk_mem_def)
  have "blk_ok (?blk ?final)" "1 < blk_slots (?blk ?final)" using assms(2-4) by (simp_all add: blk_ok_def slot_in blk_mem_def)
  then have "decode_uint (?blk ?final) 1 = Inr v" using decode_uint_get [of "?blk ?final" 1] unfolding g decode_be_bytes by blast
  moreover have "decode_data (?blk ?final) 3 out n = bindE (write_at out 0 data) (\<lambda>out. Inr (0, out))"
    using assms(2-4) by (simp add: decode_data_def read_at_def blk_mem_def compute_item_index_def DATA_ITEM_LEN_def SELECTOR_LEN_def)
  ultimately show ?thesis
    by (intro exI [of _ "?blk ?final"]) (simp only: init sel s1 s2 s3 s4 bindE_Inr prod.case simp_thms)
qed

theorem abi_block_layout_witness:
  "\<exists>blk. bindE (data_init \<lparr>blk_len = 132, blk_data = Some (replicate 132 9)\<rparr>) (\<lambda>(_, blk).
      bindE (data_set_selector blk 0xa9059cbb) (\<lambda>(_, blk).
      bindE (encode_address blk 0 \<lparr>addr_a = replicate 20 5\<rparr>) (\<lambda>(_, blk).
      bindE (encode_uint blk 1 1000) (\<lambda>(_, blk).
      bindE (encode_uint256 blk 2 (uint256_of_bytes (replicate 32 6))) (\<lambda>(_, blk).
      encode_data blk 3 [1, 2] 2))))) = Inr (0, blk) \<and>
    take 68 (blk_mem blk) = [0xa9, 0x05, 0x9c, 0xbb] @ replicate 12 0 @ replicate 20 5 @ be_bytes 32 1000 \<and>
    decode_uint blk 1 = Inr 1000 \<and> decode_data blk 3 [7, 7, 7] 2 = Inr (0, [1, 2, 7])"
  using abi_block_layout [of "replicate 132 9" "\<lparr>addr_a = replicate 20 5\<rparr>" "[1, 2]" 2 "0xa9059cbb" 1000 "uint256_of_bytes (replicate 32 6)" "[7, 7, 7]"]
  by (auto simp: be_bytes_def le_bytes_numeral blk_mem_def write_at_def)

text \<open>
  An index past the last item. \<open>encode_data\<close>, \<open>decode_uint\<close> and \<open>decode_data\<close> stop at an assertion,
  while the number and address encoders have no check and write outside the memory of the block.
\<close>

lemma abi_index_out_of_range:
  assumes "blk_ok blk" "blk_len blk mod 32 = 4" "blk_slots blk \<le> idx" "n \<le> 32"
  shows "encode_data blk idx data n = Inl Assertion_failed \<and>
    decode_uint blk idx = Inl Assertion_failed \<and> decode_data blk idx out m = Inl Assertion_failed \<and>
    encode_uint blk idx v = Inl Out_of_bounds \<and> encode_uint128 blk idx v128 = Inl Out_of_bounds \<and>
    encode_uint256 blk idx v256 = Inl Out_of_bounds \<and> encode_address blk idx a = Inl Out_of_bounds"
proof -
  have len: "length (blk_mem blk) = blk_len blk" using assms(1) by (simp add: blk_ok_def)
  have "blk_len blk = blk_len blk div 32 * 32 + 4"
    using div_mult_mod_eq [of "blk_len blk" 32] assms(2) by simp
  then obtain q where q: "blk_len blk = q * 32 + 4" ..
  then have ge: "length (blk_mem blk) \<le> idx * 32 + 4"
    using assms(3) len by (simp add: slot_count_def)
  have "item_clear blk idx = Inl Out_of_bounds"
    using ge by (simp add: item_clear_def blk_write_def write_at_def compute_item_index_def
        DATA_ITEM_LEN_def SELECTOR_LEN_def)
  with ge len assms(4) show ?thesis
    by (simp add: encode_data_def decode_uint_def decode_data_def encode_uint_def encode_uint128_def
        encode_uint256_def encode_address_def compute_item_index_def DATA_ITEM_LEN_def
        SELECTOR_LEN_def Let_def)
qed

lemma abi_index_out_of_range_witness:
  "encode_uint \<lparr>blk_len = 36, blk_data = Some (replicate 36 0)\<rparr> 1 5 = Inl Out_of_bounds"
  using abi_index_out_of_range [of "\<lparr>blk_len = 36, blk_data = Some (replicate 36 0)\<rparr>" 1 0 "[]" "[]" 0 5]
  by (simp add: blk_ok_def blk_mem_def slot_count_def)

end
