(* ===== verification/Jsmn.thy ===== *)
theory Jsmn
  imports Prelude
begin

text \<open>
  \<open>helpers/jsmn.c\<close> (built without \<open>JSMN_STRICT\<close> and \<open>JSMN_PARENT_LINKS\<close>) and \<open>helpers/jsmn_utils.c\<close>: the
  JSON tokeniser. \<open>js\<close> is the list of the \<open>len\<close> bytes the caller passes, so \<open>len\<close> is its length;
  texts are shorter than \<open>2 ^ 31\<close>, so positions are natural numbers. \<open>tokens\<close> is \<open>None\<close> for NULL,
  otherwise the array; every access to it is checked against its length. The outer loop is a
  partial function, so that its termination is a theorem.
\<close>

section \<open>Definitions\<close>

datatype jsmntype_t = JSMN_UNDEFINED | JSMN_OBJECT | JSMN_ARRAY | JSMN_STRING | JSMN_PRIMITIVE

definition JSMN_ERROR_NOMEM :: int where "JSMN_ERROR_NOMEM = -1"
definition JSMN_ERROR_INVAL :: int where "JSMN_ERROR_INVAL = -2"
definition JSMN_ERROR_PART :: int where "JSMN_ERROR_PART = -3"

lemmas jsmnerr = JSMN_ERROR_NOMEM_def JSMN_ERROR_INVAL_def JSMN_ERROR_PART_def

record jsmntok_t =
  tok_type :: jsmntype_t
  tok_start :: int
  tok_end :: int
  tok_size :: int

record jsmn_parser =
  p_pos :: nat
  p_toknext :: nat
  p_toksuper :: int

definition tok_get :: "jsmntok_t list \<Rightarrow> int \<Rightarrow> jsmntok_t outcome" where
  "tok_get toks i =
    (if 0 \<le> i \<and> i < int (length toks) then Inr (toks ! nat i) else Inl Out_of_bounds)"

definition tok_set :: "jsmntok_t list \<Rightarrow> int \<Rightarrow> (jsmntok_t \<Rightarrow> jsmntok_t) \<Rightarrow> jsmntok_t list outcome" where
  "tok_set toks i f =
    (if 0 \<le> i \<and> i < int (length toks) then Inr (toks[nat i := f (toks ! nat i)]) else Inl Out_of_bounds)"

text \<open>The index of the fresh token, \<open>None\<close> for NULL.\<close>

definition jsmn_alloc_token ::
    "jsmn_parser \<Rightarrow> jsmntok_t list \<Rightarrow> nat \<Rightarrow> (nat option \<times> jsmn_parser \<times> jsmntok_t list) outcome" where
  "jsmn_alloc_token parser tokens num_tokens =
    (if p_toknext parser \<ge> num_tokens then Inr (None, parser, tokens)
     else
       let tok = p_toknext parser; parser = parser\<lparr>p_toknext := tok + 1\<rparr> in
       bindE (tok_set tokens (int tok) (\<lambda>t. t\<lparr>tok_start := -1, tok_end := -1, tok_size := 0\<rparr>)) (\<lambda>tokens.
       Inr (Some tok, parser, tokens)))"

definition jsmn_fill_token :: "jsmntype_t \<Rightarrow> int \<Rightarrow> int \<Rightarrow> jsmntok_t \<Rightarrow> jsmntok_t" where
  "jsmn_fill_token type start end' token =
    token\<lparr>tok_type := type, tok_start := start, tok_end := end', tok_size := 0\<rparr>"

definition TAB :: char where "TAB = CHR 0x09"
definition LF :: char where "LF = CHR 0x0A"
definition CR :: char where "CR = CHR 0x0D"
definition NUL :: char where "NUL = CHR 0x00"
definition QUOTE :: char where "QUOTE = CHR 0x22"
definition BACKSLASH :: char where "BACKSLASH = CHR 0x5C"

text \<open>The loop of \<open>jsmn_parse_primitive\<close>: the position it is left at, \<open>None\<close> for an invalid byte.\<close>

function primitive_scan :: "string \<Rightarrow> nat \<Rightarrow> nat option" where
  "primitive_scan js pos =
    (if pos < length js \<and> js ! pos \<noteq> NUL then
       if js ! pos \<in> {CHR '':'', TAB, CR, LF, CHR '' '', CHR '','', CHR '']'', CHR ''}''} then Some pos
       else if code (js ! pos) < 32 \<or> code (js ! pos) \<ge> 127 then None
       else primitive_scan js (pos + 1)
     else Some pos)"
  by pat_completeness auto
termination
  by (relation "measure (\<lambda>(js, pos). length js - pos)") auto

declare primitive_scan.simps [simp del]

text \<open>The parsers return the C return value with the parser and the tokens afterwards.\<close>

definition jsmn_parse_primitive ::
    "jsmn_parser \<Rightarrow> string \<Rightarrow> jsmntok_t list option \<Rightarrow> nat \<Rightarrow>
     (int \<times> jsmn_parser \<times> jsmntok_t list option) outcome" where
  "jsmn_parse_primitive parser js tokens num_tokens =
    (let start = p_pos parser in
     case primitive_scan js start of
       None \<Rightarrow> Inr (JSMN_ERROR_INVAL, parser\<lparr>p_pos := start\<rparr>, tokens)
     | Some pos \<Rightarrow>
       let parser = parser\<lparr>p_pos := pos\<rparr> in
       case tokens of
         None \<Rightarrow> Inr (0, parser\<lparr>p_pos := pos - 1\<rparr>, tokens)
       | Some toks \<Rightarrow>
         bindE (jsmn_alloc_token parser toks num_tokens) (\<lambda>(token, parser, toks).
         case token of
           None \<Rightarrow> Inr (JSMN_ERROR_NOMEM, parser\<lparr>p_pos := start\<rparr>, Some toks)
         | Some token \<Rightarrow>
           bindE (tok_set toks (int token) (jsmn_fill_token JSMN_PRIMITIVE (int start) (int pos))) (\<lambda>toks.
           Inr (0, parser\<lparr>p_pos := pos - 1\<rparr>, Some toks))))"

text \<open>Up to four digits after \<open>\u\<close>; \<open>None\<close> for a character that is no digit.\<close>

fun unicode_scan :: "string \<Rightarrow> nat \<Rightarrow> nat \<Rightarrow> nat option" where
  "unicode_scan js 0 pos = Some pos"
| "unicode_scan js (Suc n) pos =
    (if pos < length js \<and> js ! pos \<noteq> NUL then
       let c = code (js ! pos) in
       if \<not> (c \<ge> 48 \<and> c \<le> 57 \<or> c \<ge> 65 \<and> c \<le> 70 \<or> c \<ge> 97 \<and> c \<le> 102) then None
       else unicode_scan js n (pos + 1)
     else Some pos)"

lemma unicode_scan_ge: "unicode_scan js n pos = Some pos' \<Longrightarrow> pos \<le> pos'"
  by (induction js n pos rule: unicode_scan.induct) (fastforce simp: Let_def split: if_splits)+

text \<open>
  The loop of \<open>jsmn_parse_string\<close>: the position of the closing quote, or the error. After \<open>\u\<close> the
  position goes back by one and the loop moves it forward again.
\<close>

function string_scan :: "string \<Rightarrow> nat \<Rightarrow> int + nat" where
  "string_scan js pos =
    (if pos < length js \<and> js ! pos \<noteq> NUL then
       let c = js ! pos in
       if c = QUOTE then Inr pos
       else if c = BACKSLASH \<and> pos + 1 < length js then
         let pos = pos + 1 in
         if js ! pos \<in> {QUOTE, CHR ''/'', BACKSLASH, CHR ''b'', CHR ''f'', CHR ''r'', CHR ''n'', CHR ''t''}
         then string_scan js (pos + 1)
         else if js ! pos = CHR ''u'' then
           case unicode_scan js 4 (pos + 1) of
             None \<Rightarrow> Inl JSMN_ERROR_INVAL
           | Some pos \<Rightarrow> string_scan js (pos - 1 + 1)
         else Inl JSMN_ERROR_INVAL
       else string_scan js (pos + 1)
     else Inl JSMN_ERROR_PART)"
  by pat_completeness auto
termination
  by (relation "measure (\<lambda>(js, pos). length js - pos)") (auto dest: unicode_scan_ge)

declare string_scan.simps [simp del]

definition jsmn_parse_string ::
    "jsmn_parser \<Rightarrow> string \<Rightarrow> jsmntok_t list option \<Rightarrow> nat \<Rightarrow>
     (int \<times> jsmn_parser \<times> jsmntok_t list option) outcome" where
  "jsmn_parse_string parser js tokens num_tokens =
    (let start = p_pos parser in
     case string_scan js (start + 1) of
       Inl err \<Rightarrow> Inr (err, parser\<lparr>p_pos := start\<rparr>, tokens)
     | Inr pos \<Rightarrow>
       let parser = parser\<lparr>p_pos := pos\<rparr> in
       case tokens of
         None \<Rightarrow> Inr (0, parser, tokens)
       | Some toks \<Rightarrow>
         bindE (jsmn_alloc_token parser toks num_tokens) (\<lambda>(token, parser, toks).
         case token of
           None \<Rightarrow> Inr (JSMN_ERROR_NOMEM, parser\<lparr>p_pos := start\<rparr>, Some toks)
         | Some token \<Rightarrow>
           bindE (tok_set toks (int token) (jsmn_fill_token JSMN_STRING (int start + 1) (int pos))) (\<lambda>toks.
           Inr (0, parser, Some toks))))"

text \<open>A token that has been started and not ended, and the searches for one from the last token down.\<close>

definition tok_open :: "jsmntok_t \<Rightarrow> bool" where
  "tok_open t \<longleftrightarrow> tok_start t \<noteq> -1 \<and> tok_end t = -1"

definition tok_container :: "jsmntok_t \<Rightarrow> bool" where
  "tok_container t \<longleftrightarrow> tok_type t = JSMN_ARRAY \<or> tok_type t = JSMN_OBJECT"

fun find_down :: "(jsmntok_t \<Rightarrow> bool) \<Rightarrow> jsmntok_t list \<Rightarrow> nat \<Rightarrow> nat option outcome" where
  "find_down P toks 0 = Inr None"
| "find_down P toks (Suc n) =
    bindE (tok_get toks (int n)) (\<lambda>t. if P t then Inr (Some n) else find_down P toks n)"

text \<open>
  One turn of the loop of \<open>jsmn_parse\<close>: \<open>Inl r\<close> is a \<open>return r\<close>, \<open>Inr count\<close> goes on to the next
  character.
\<close>

type_synonym turn = "(int + int) \<times> jsmn_parser \<times> jsmntok_t list option"

definition jsmn_bump :: "jsmn_parser \<Rightarrow> jsmntok_t list \<Rightarrow> jsmntok_t list outcome" where
  "jsmn_bump parser toks =
    (if p_toksuper parser \<noteq> -1 then
       tok_set toks (p_toksuper parser) (\<lambda>t. t\<lparr>tok_size := tok_size t + 1\<rparr>)
     else Inr toks)"

definition jsmn_count_child ::
    "jsmn_parser \<Rightarrow> jsmntok_t list option \<Rightarrow> jsmntok_t list option outcome" where
  "jsmn_count_child parser tokens =
    (case tokens of None \<Rightarrow> Inr None
     | Some toks \<Rightarrow> bindE (jsmn_bump parser toks) (\<lambda>toks. Inr (Some toks)))"

definition jsmn_open ::
    "char \<Rightarrow> jsmn_parser \<Rightarrow> jsmntok_t list option \<Rightarrow> nat \<Rightarrow> int \<Rightarrow> turn outcome" where
  "jsmn_open c parser tokens num_tokens count =
    (let count = count + 1 in
     case tokens of None \<Rightarrow> Inr (Inr count, parser, tokens)
     | Some toks \<Rightarrow>
       bindE (jsmn_alloc_token parser toks num_tokens) (\<lambda>(token, parser, toks).
       case token of None \<Rightarrow> Inr (Inl JSMN_ERROR_NOMEM, parser, Some toks)
       | Some token \<Rightarrow>
         bindE (jsmn_bump parser toks) (\<lambda>toks.
         bindE (tok_set toks (int token) (\<lambda>t.
           t\<lparr>tok_type := (if c = CHR ''{'' then JSMN_OBJECT else JSMN_ARRAY),
             tok_start := int (p_pos parser)\<rparr>)) (\<lambda>toks.
         Inr (Inr count, parser\<lparr>p_toksuper := int (p_toknext parser) - 1\<rparr>, Some toks)))))"

definition jsmn_close :: "char \<Rightarrow> jsmn_parser \<Rightarrow> jsmntok_t list option \<Rightarrow> int \<Rightarrow> turn outcome" where
  "jsmn_close c parser tokens count =
    (case tokens of None \<Rightarrow> Inr (Inr count, parser, tokens)
     | Some toks \<Rightarrow>
       let type = (if c = CHR ''}'' then JSMN_OBJECT else JSMN_ARRAY) in
       bindE (find_down tok_open toks (p_toknext parser)) (\<lambda>i.
       case i of None \<Rightarrow> Inr (Inl JSMN_ERROR_INVAL, parser, Some toks)
       | Some i \<Rightarrow>
         bindE (tok_get toks (int i)) (\<lambda>token.
         if tok_type token \<noteq> type then Inr (Inl JSMN_ERROR_INVAL, parser, Some toks)
         else
           let parser = parser\<lparr>p_toksuper := -1\<rparr> in
           bindE (tok_set toks (int i) (\<lambda>t. t\<lparr>tok_end := int (p_pos parser) + 1\<rparr>)) (\<lambda>toks.
           bindE (find_down tok_open toks (i + 1)) (\<lambda>j.
           Inr (Inr count, (case j of None \<Rightarrow> parser | Some j \<Rightarrow> parser\<lparr>p_toksuper := int j\<rparr>),
             Some toks))))))"

definition jsmn_comma :: "jsmn_parser \<Rightarrow> jsmntok_t list option \<Rightarrow> int \<Rightarrow> turn outcome" where
  "jsmn_comma parser tokens count =
    (case tokens of None \<Rightarrow> Inr (Inr count, parser, tokens)
     | Some toks \<Rightarrow>
       if p_toksuper parser = -1 then Inr (Inr count, parser, tokens)
       else bindE (tok_get toks (p_toksuper parser)) (\<lambda>super.
         if tok_container super then Inr (Inr count, parser, tokens)
         else bindE (find_down (\<lambda>t. tok_container t \<and> tok_open t) toks (p_toknext parser)) (\<lambda>j.
           Inr (Inr count, (case j of None \<Rightarrow> parser | Some j \<Rightarrow> parser\<lparr>p_toksuper := int j\<rparr>),
             tokens))))"

definition jsmn_turn ::
    "string \<Rightarrow> nat \<Rightarrow> jsmn_parser \<Rightarrow> jsmntok_t list option \<Rightarrow> int \<Rightarrow> turn outcome" where
  "jsmn_turn js num_tokens parser tokens count =
    (let c = js ! p_pos parser in
     if c = CHR ''{'' \<or> c = CHR ''['' then jsmn_open c parser tokens num_tokens count
     else if c = CHR ''}'' \<or> c = CHR '']'' then jsmn_close c parser tokens count
     else if c = QUOTE then
       bindE (jsmn_parse_string parser js tokens num_tokens) (\<lambda>(r, parser, tokens).
       if r < 0 then Inr (Inl r, parser, tokens)
       else bindE (jsmn_count_child parser tokens) (\<lambda>tokens. Inr (Inr (count + 1), parser, tokens)))
     else if c = TAB \<or> c = CR \<or> c = LF \<or> c = CHR '' '' then Inr (Inr count, parser, tokens)
     else if c = CHR '':'' then
       Inr (Inr count, parser\<lparr>p_toksuper := int (p_toknext parser) - 1\<rparr>, tokens)
     else if c = CHR '','' then jsmn_comma parser tokens count
     else
       bindE (jsmn_parse_primitive parser js tokens num_tokens) (\<lambda>(r, parser, tokens).
       if r < 0 then Inr (Inl r, parser, tokens)
       else bindE (jsmn_count_child parser tokens) (\<lambda>tokens. Inr (Inr (count + 1), parser, tokens))))"

partial_function (option) jsmn_loop ::
    "string \<Rightarrow> nat \<Rightarrow> jsmn_parser \<Rightarrow> jsmntok_t list option \<Rightarrow> int \<Rightarrow> turn outcome option" where
  "jsmn_loop js num_tokens parser tokens count =
    (if p_pos parser < length js \<and> js ! p_pos parser \<noteq> NUL then
       case jsmn_turn js num_tokens parser tokens count of
         Inl e \<Rightarrow> Some (Inl e)
       | Inr (t, parser, tokens) \<Rightarrow>
         (case t of Inl r \<Rightarrow> Some (Inr (Inl r, parser, tokens))
          | Inr count \<Rightarrow> jsmn_loop js num_tokens (parser\<lparr>p_pos := p_pos parser + 1\<rparr>) tokens count)
     else Some (Inr (Inr count, parser, tokens)))"

declare jsmn_loop.simps [code]

definition jsmn_parse ::
    "jsmn_parser \<Rightarrow> string \<Rightarrow> jsmntok_t list option \<Rightarrow> nat \<Rightarrow>
     (int \<times> jsmn_parser \<times> jsmntok_t list option) outcome" where
  "jsmn_parse parser js tokens num_tokens =
    bindE (returns (jsmn_loop js num_tokens parser tokens (int (p_toknext parser)))) (\<lambda>out.
    bindE out (\<lambda>(t, parser, tokens).
    case t of Inl r \<Rightarrow> Inr (r, parser, tokens)
    | Inr count \<Rightarrow>
      (case tokens of None \<Rightarrow> Inr (count, parser, tokens)
       | Some toks \<Rightarrow>
         bindE (find_down tok_open toks (p_toknext parser)) (\<lambda>i.
         case i of None \<Rightarrow> Inr (count, parser, tokens)
         | Some _ \<Rightarrow> Inr (JSMN_ERROR_PART, parser, tokens)))))"

definition jsmn_init :: jsmn_parser where
  "jsmn_init = \<lparr>p_pos = 0, p_toknext = 0, p_toksuper = -1\<rparr>"

text \<open>
  \<open>jsoneq\<close>: \<open>json\<close> is the memory behind the pointer. \<open>strncmp\<close> stops at the first difference or NUL, so
  it reads past the end of the memory only if the characters before agree.
\<close>

fun strncmp_eq :: "string \<Rightarrow> string \<Rightarrow> nat \<Rightarrow> bool outcome" where
  "strncmp_eq a b 0 = Inr True"
| "strncmp_eq [] b (Suc n) = Inl Out_of_bounds"
| "strncmp_eq (x # a) [] (Suc n) = Inr (x = NUL)"
| "strncmp_eq (x # a) (y # b) (Suc n) = (if x \<noteq> y then Inr False else strncmp_eq a b n)"

definition jsoneq :: "string \<Rightarrow> jsmntok_t \<Rightarrow> string \<Rightarrow> int outcome" where
  "jsoneq json tok s =
    (if tok_type tok = JSMN_STRING \<and> int (length s) = tok_end tok - tok_start tok then
       if tok_start tok < 0 then Inl Out_of_bounds
       else bindE (strncmp_eq (drop (nat (tok_start tok)) json) s (nat (tok_end tok - tok_start tok)))
         (\<lambda>eq. Inr (if eq then 0 else -1))
     else Inr (-1))"

section \<open>Scanning\<close>

lemma primitive_scan_bounds:
  "primitive_scan js pos = Some pos' \<Longrightarrow> pos \<le> length js \<Longrightarrow> pos \<le> pos' \<and> pos' \<le> length js"
proof (induction js pos rule: primitive_scan.induct)
  case (1 js pos)
  from 1(2,3) show ?case
    by (subst (asm) primitive_scan.simps) (use 1(1) in \<open>fastforce split: if_splits\<close>)
qed

lemma primitive_scan_moves:
  assumes "primitive_scan js pos = Some pos'" "pos < length js" "js ! pos \<noteq> NUL"
    "js ! pos \<notin> {CHR '':'', TAB, CR, LF, CHR '' '', CHR '','', CHR '']'', CHR ''}''}"
  shows "pos < pos' \<and> pos' \<le> length js"
proof -
  have "primitive_scan js (pos + 1) = Some pos'"
    using assms by (subst (asm) primitive_scan.simps) (simp split: if_splits)
  from primitive_scan_bounds [OF this] assms(2) show ?thesis by simp
qed

text \<open>Each turn of \<open>string_scan\<close> ends the scan or continues further on.\<close>

lemma string_scan_cases:
  obtains (stop) err where "string_scan js pos = Inl err" "err < 0"
    | (quote) "string_scan js pos = Inr pos" "pos < length js" "js ! pos = QUOTE"
    | (move) pos' where "string_scan js pos = string_scan js pos'" "pos < pos'" "pos < length js"
proof -
  have "(\<exists>err. string_scan js pos = Inl err \<and> err < 0) \<or>
      (string_scan js pos = Inr pos \<and> pos < length js \<and> js ! pos = QUOTE) \<or>
      (\<exists>pos'. string_scan js pos = string_scan js pos' \<and> pos < pos' \<and> pos < length js)"
  proof (cases "unicode_scan js 4 (pos + 2)")
    case None
    then show ?thesis
      by (subst (1 2 3) string_scan.simps) (auto simp: jsmnerr Let_def)
  next
    case (Some p)
    from unicode_scan_ge [OF this] have "pos < p" by simp
    with Some show ?thesis
      by (subst (1 2 3) string_scan.simps) (auto simp: jsmnerr Let_def)
  qed
  with that show ?thesis by blast
qed

lemma string_scan_result:
  "case string_scan js pos of Inl err \<Rightarrow> err < 0
   | Inr q \<Rightarrow> pos \<le> q \<and> q < length js \<and> js ! q = QUOTE"
proof (induction "length js - pos" arbitrary: pos rule: less_induct)
  case less
  show ?case
  proof (cases rule: string_scan_cases [of js pos])
    case (move pos')
    then have "length js - pos' < length js - pos" by simp
    from less [OF this] move show ?thesis by (auto split: sum.splits)
  qed simp_all
qed

section \<open>Tokens\<close>

lemma find_down_spec:
  "n \<le> length toks \<Longrightarrow> \<exists>i. find_down P toks n = Inr i \<and>
    (case i of None \<Rightarrow> \<forall>k < n. \<not> P (toks ! k)
     | Some i \<Rightarrow> i < n \<and> P (toks ! i) \<and> (\<forall>k. i < k \<and> k < n \<longrightarrow> \<not> P (toks ! k)))"
proof (induction n)
  case (Suc n)
  then obtain i where i: "find_down P toks n = Inr i" "case i of None \<Rightarrow> \<forall>k < n. \<not> P (toks ! k)
     | Some i \<Rightarrow> i < n \<and> P (toks ! i) \<and> (\<forall>k. i < k \<and> k < n \<longrightarrow> \<not> P (toks ! k))"
    by auto
  have g: "tok_get toks (int n) = Inr (toks ! n)" using Suc.prems by (simp add: tok_get_def)
  show ?case
  proof (cases "P (toks ! n)")
    case True
    with g show ?thesis by auto
  next
    case False
    with g i show ?thesis by (auto simp: less_Suc_eq split: option.splits)
  qed
qed simp

text \<open>A token the parser has filled: inside the text, and a container while it is open.\<close>

definition tok_fine :: "nat \<Rightarrow> nat \<Rightarrow> jsmntok_t \<Rightarrow> bool" where
  "tok_fine len pos t \<longleftrightarrow> 0 \<le> tok_start t \<and> tok_start t \<le> int pos \<and> 0 \<le> tok_size t \<and>
     (tok_end t = -1 \<and> tok_container t \<or> tok_start t \<le> tok_end t \<and> tok_end t \<le> int len)"

text \<open>The invariant of the parser over an array of tokens.\<close>

definition jsmn_inv :: "string \<Rightarrow> nat \<Rightarrow> jsmn_parser \<Rightarrow> jsmntok_t list \<Rightarrow> bool" where
  "jsmn_inv js num parser toks \<longleftrightarrow> p_pos parser \<le> length js \<and> p_toknext parser \<le> num \<and>
     num \<le> length toks \<and> -1 \<le> p_toksuper parser \<and> p_toksuper parser < int (p_toknext parser) \<and>
     (\<forall>i < p_toknext parser. tok_fine (length js) (p_pos parser) (toks ! i))"

lemma tok_fine_mono: "tok_fine len pos t \<Longrightarrow> pos \<le> pos' \<Longrightarrow> tok_fine len pos' t"
  by (auto simp: tok_fine_def)

lemma jsmn_inv_pos:
  "jsmn_inv js num parser toks \<Longrightarrow> p_pos parser \<le> pos \<Longrightarrow> pos \<le> length js \<Longrightarrow>
   jsmn_inv js num (parser\<lparr>p_pos := pos\<rparr>) toks"
  by (auto simp: jsmn_inv_def intro: tok_fine_mono)

lemma jsmn_inv_super:
  "jsmn_inv js num parser toks \<Longrightarrow> -1 \<le> s \<Longrightarrow> s < int (p_toknext parser) \<Longrightarrow>
   jsmn_inv js num (parser\<lparr>p_toksuper := s\<rparr>) toks"
  by (simp add: jsmn_inv_def)

text \<open>Changing one token, and taking a fresh one.\<close>

lemma jsmn_inv_set:
  assumes "jsmn_inv js num parser toks" "i < p_toknext parser"
    "tok_fine (length js) (p_pos parser) t"
  shows "jsmn_inv js num parser (toks[i := t])"
  using assms by (auto simp: jsmn_inv_def nth_list_update)

lemma jsmn_inv_fresh:
  assumes "jsmn_inv js num parser toks" "p_toknext parser < num" "tok_fine (length js) (p_pos parser) t"
  shows "jsmn_inv js num (parser\<lparr>p_toknext := p_toknext parser + 1\<rparr>) (toks[p_toknext parser := t])"
  using assms by (auto simp: jsmn_inv_def nth_list_update less_Suc_eq)

lemma jsmn_bump_inv:
  assumes "jsmn_inv js num parser toks"
  shows "\<exists>toks'. jsmn_bump parser toks = Inr toks' \<and> length toks' = length toks \<and>
    jsmn_inv js num parser toks'"
proof (cases "p_toksuper parser = -1")
  case True
  with assms show ?thesis by (simp add: jsmn_bump_def)
next
  case False
  let ?i = "nat (p_toksuper parser)"
  from False assms have i: "0 \<le> p_toksuper parser" "?i < p_toknext parser" "?i < length toks"
    by (auto simp: jsmn_inv_def)
  then have "tok_fine (length js) (p_pos parser) (toks ! ?i)" using assms by (simp add: jsmn_inv_def)
  then have "tok_fine (length js) (p_pos parser) ((toks ! ?i)\<lparr>tok_size := tok_size (toks ! ?i) + 1\<rparr>)"
    by (auto simp: tok_fine_def tok_container_def)
  from jsmn_inv_set [OF assms i(2) this] False i show ?thesis
    by (auto simp: jsmn_bump_def tok_set_def)
qed

section \<open>A turn of the parser\<close>

text \<open>
  The outcome of a turn, from a parser before it: an error, or the parser further on with the
  invariant and as many tokens more as were counted.
\<close>

definition turn_ok :: "string \<Rightarrow> nat \<Rightarrow> jsmn_parser \<Rightarrow> jsmntok_t list \<Rightarrow> int \<Rightarrow> turn outcome \<Rightarrow> bool" where
  "turn_ok js num parser toks count out \<longleftrightarrow> (\<exists>t parser' toks'. out = Inr (t, parser', Some toks') \<and>
     length toks' = length toks \<and>
     (case t of Inl r \<Rightarrow> r < 0
      | Inr count' \<Rightarrow> jsmn_inv js num parser' toks' \<and> p_pos parser \<le> p_pos parser' \<and>
          p_pos parser' < length js \<and>
          count' - count = int (p_toknext parser') - int (p_toknext parser)))"

lemma turn_ok_error [intro]:
  "r < 0 \<Longrightarrow> length toks' = length toks \<Longrightarrow>
   turn_ok js num parser toks count (Inr (Inl r, parser', Some toks'))"
  by (auto simp: turn_ok_def)

lemma turn_ok_go [intro]:
  assumes "jsmn_inv js num parser' toks'" "length toks' = length toks" "p_pos parser \<le> p_pos parser'"
    "p_pos parser' < length js" "count' - count = int (p_toknext parser') - int (p_toknext parser)"
  shows "turn_ok js num parser toks count (Inr (Inr count', parser', Some toks'))"
  using assms by (auto simp: turn_ok_def)

lemma alloc_full:
  "num \<le> p_toknext parser \<Longrightarrow> jsmn_alloc_token parser toks num = Inr (None, parser, toks)"
  by (simp add: jsmn_alloc_token_def)

lemma alloc_token:
  assumes "jsmn_inv js num parser toks" "p_toknext parser < num"
  shows "jsmn_alloc_token parser toks num = Inr (Some (p_toknext parser),
    parser\<lparr>p_toknext := p_toknext parser + 1\<rparr>,
    toks[p_toknext parser := (toks ! p_toknext parser)\<lparr>tok_start := -1, tok_end := -1, tok_size := 0\<rparr>])"
  using assms by (simp add: jsmn_alloc_token_def jsmn_inv_def tok_set_def Let_def)

text \<open>A string or a primitive: a fresh closed token, counted as a child of the one above it.\<close>

lemma leaf_turn_ok:
  assumes inv: "jsmn_inv js num parser toks" and p: "p_pos parser \<le> pos'" "pos' < length js"
    and fine: "0 \<le> start" "start \<le> end'" "end' \<le> int (length js)" "start \<le> int pos'"
  shows "turn_ok js num parser toks count
    (bindE
      (bindE (jsmn_alloc_token (parser\<lparr>p_pos := pos\<rparr>) toks num) (\<lambda>(token, parser', toks).
       case token of None \<Rightarrow> Inr (JSMN_ERROR_NOMEM, parser'\<lparr>p_pos := p_pos parser\<rparr>, Some toks)
       | Some token \<Rightarrow>
         bindE (tok_set toks (int token) (jsmn_fill_token type start end')) (\<lambda>toks.
         Inr (0, parser'\<lparr>p_pos := pos'\<rparr>, Some toks))))
      (\<lambda>(r, parser, tokens). if r < 0 then Inr (Inl r, parser, tokens)
       else bindE (jsmn_count_child parser tokens) (\<lambda>tokens. Inr (Inr (count + 1), parser, tokens))))"
proof (cases "p_toknext parser < num")
  case False
  then show ?thesis by (auto simp: jsmn_alloc_token_def jsmnerr)
next
  case True
  let ?n = "p_toknext parser"
  let ?t = "jsmn_fill_token type start end' ((toks ! ?n)\<lparr>tok_start := -1, tok_end := -1, tok_size := 0\<rparr>)"
  let ?parser = "parser\<lparr>p_pos := pos', p_toknext := ?n + 1\<rparr>"
  have n: "?n < length toks" using inv True by (simp add: jsmn_inv_def)
  have "tok_fine (length js) pos' ?t" using fine by (simp add: tok_fine_def jsmn_fill_token_def)
  with jsmn_inv_pos [OF inv p(1)] p(2) True
  have "jsmn_inv js num (parser\<lparr>p_pos := pos'\<rparr>\<lparr>p_toknext := ?n + 1\<rparr>) (toks[?n := ?t])"
    using jsmn_inv_fresh [of js num "parser\<lparr>p_pos := pos'\<rparr>" toks ?t] by simp
  then have inv': "jsmn_inv js num ?parser (toks[?n := ?t])" by simp
  have swap: "parser\<lparr>p_toknext := Suc ?n, p_pos := pos'\<rparr> = parser\<lparr>p_pos := pos', p_toknext := Suc ?n\<rparr>"
    by (cases parser) simp
  from jsmn_bump_inv [OF inv'] obtain toks' where b: "jsmn_bump ?parser (toks[?n := ?t]) = Inr toks'"
      "length toks' = length toks" "jsmn_inv js num ?parser toks'"
    by auto
  with True n p show ?thesis
    by (auto simp: jsmn_alloc_token_def tok_set_def jsmn_count_child_def Let_def swap)
qed

text \<open>Both leaf parsers have this form once their scan has found the end.\<close>

lemma parse_string_found:
  "string_scan js (p_pos parser + 1) = Inr pos \<Longrightarrow>
   jsmn_parse_string parser js (Some toks) num =
    bindE (jsmn_alloc_token (parser\<lparr>p_pos := pos\<rparr>) toks num) (\<lambda>(token, parser', toks).
      case token of None \<Rightarrow> Inr (JSMN_ERROR_NOMEM, parser'\<lparr>p_pos := p_pos parser\<rparr>, Some toks)
      | Some token \<Rightarrow>
        bindE (tok_set toks (int token) (jsmn_fill_token JSMN_STRING (int (p_pos parser) + 1) (int pos))) (\<lambda>toks.
        Inr (0, parser'\<lparr>p_pos := pos\<rparr>, Some toks)))"
  by (auto simp: jsmn_parse_string_def jsmn_alloc_token_def Let_def bindE_def split: sum.splits)

lemma parse_primitive_found:
  "primitive_scan js (p_pos parser) = Some pos \<Longrightarrow>
   jsmn_parse_primitive parser js (Some toks) num =
    bindE (jsmn_alloc_token (parser\<lparr>p_pos := pos\<rparr>) toks num) (\<lambda>(token, parser', toks).
      case token of None \<Rightarrow> Inr (JSMN_ERROR_NOMEM, parser'\<lparr>p_pos := p_pos parser\<rparr>, Some toks)
      | Some token \<Rightarrow>
        bindE (tok_set toks (int token) (jsmn_fill_token JSMN_PRIMITIVE (int (p_pos parser)) (int pos))) (\<lambda>toks.
        Inr (0, parser'\<lparr>p_pos := pos - 1\<rparr>, Some toks)))"
  by (simp add: jsmn_parse_primitive_def Let_def)

lemma list_update_between: "i \<noteq> n \<Longrightarrow> xs[n := a, i := b, n := c] = xs[n := c, i := b]"
  by (metis list_update_overwrite list_update_swap)

lemma open_turn_ok:
  assumes inv: "jsmn_inv js num parser toks" and p: "p_pos parser < length js"
  shows "turn_ok js num parser toks count (jsmn_open c parser (Some toks) num count)"
proof (cases "p_toknext parser < num")
  case False
  then show ?thesis by (auto simp: jsmn_open_def alloc_full jsmnerr Let_def)
next
  case True
  let ?n = "p_toknext parser" and ?type = "if c = CHR ''{'' then JSMN_OBJECT else JSMN_ARRAY"
  let ?t0 = "(toks ! ?n)\<lparr>tok_start := -1, tok_end := -1, tok_size := 0\<rparr>"
  let ?parser = "parser\<lparr>p_toknext := ?n + 1\<rparr>"
  define t where "t = ?t0\<lparr>tok_type := ?type, tok_start := int (p_pos parser)\<rparr>"
  have n: "?n < length toks" "-1 \<le> p_toksuper parser" "p_toksuper parser < int ?n"
    using inv True by (auto simp: jsmn_inv_def)
  have "tok_fine (length js) (p_pos parser) t"
    by (simp add: tok_fine_def t_def tok_container_def)
  from jsmn_inv_fresh [OF inv True this] have inv1: "jsmn_inv js num ?parser (toks[?n := t])" .
  from jsmn_bump_inv [OF this] obtain toks' where b: "jsmn_bump ?parser (toks[?n := t]) = Inr toks'"
      "length toks' = length toks" "jsmn_inv js num ?parser toks'"
    by auto
  text \<open>The child is counted before the fresh token gets its start, at another index.\<close>
  have "\<exists>toks1. jsmn_bump ?parser (toks[?n := ?t0]) = Inr toks1 \<and>
      tok_set toks1 (int ?n) (\<lambda>t. t\<lparr>tok_type := ?type, tok_start := int (p_pos parser)\<rparr>) = Inr toks'"
  proof (cases "p_toksuper parser = -1")
    case True
    with b(1) n show ?thesis by (auto simp: jsmn_bump_def tok_set_def t_def)
  next
    case False
    with n have i: "0 \<le> p_toksuper parser" "nat (p_toksuper parser) < ?n" by auto
    with False b(1) n show ?thesis
      by (auto simp: jsmn_bump_def tok_set_def t_def list_update_between)
  qed
  then obtain toks1 where "jsmn_bump ?parser (toks[?n := ?t0]) = Inr toks1"
      "tok_set toks1 (int ?n) (\<lambda>t. t\<lparr>tok_type := ?type, tok_start := int (p_pos parser)\<rparr>) = Inr toks'"
    by blast
  with b jsmn_inv_super [OF b(3), of "int (p_toknext ?parser) - 1"] p show ?thesis
    by (auto simp: jsmn_open_def Let_def alloc_token [OF inv True])
qed

lemma close_turn_ok:
  assumes inv: "jsmn_inv js num parser toks" and p: "p_pos parser < length js"
  shows "turn_ok js num parser toks count (jsmn_close c parser (Some toks) count)"
proof -
  have n: "p_toknext parser \<le> length toks" using inv by (simp add: jsmn_inv_def)
  obtain i where i: "find_down tok_open toks (p_toknext parser) = Inr i"
      "case i of None \<Rightarrow> True | Some i \<Rightarrow> i < p_toknext parser \<and> tok_open (toks ! i)"
    using find_down_spec [OF n, of tok_open] by (auto split: option.splits)
  show ?thesis
  proof (cases i)
    case None
    with i show ?thesis by (auto simp: jsmn_close_def jsmnerr Let_def)
  next
    case (Some k)
    with i n have k: "k < p_toknext parser" "tok_open (toks ! k)" "k < length toks" by auto
    let ?t = "(toks ! k)\<lparr>tok_end := int (p_pos parser) + 1\<rparr>"
    have "tok_fine (length js) (p_pos parser) (toks ! k)" using inv k by (simp add: jsmn_inv_def)
    then have "tok_fine (length js) (p_pos parser) ?t"
      using p by (auto simp: tok_fine_def)
    from jsmn_inv_set [OF inv k(1) this] have inv1: "jsmn_inv js num parser (toks[k := ?t])" .
    obtain j where j: "find_down tok_open (toks[k := ?t]) (k + 1) = Inr j"
        "case j of None \<Rightarrow> True | Some j \<Rightarrow> j < k + 1"
      using find_down_spec [of "k + 1" "toks[k := ?t]" tok_open] k(3) by (auto split: option.splits)
    have super: "jsmn_inv js num (parser\<lparr>p_toksuper := s\<rparr>) (toks[k := ?t])" if "s = -1 \<or> (\<exists>j \<le> k. s = int j)" for s
      using jsmn_inv_super [OF inv1, of s] that k(1) by auto
    have g: "tok_get toks (int k) = Inr (toks ! k)"
      "tok_set toks (int k) (\<lambda>t. t\<lparr>tok_end := int (p_pos parser) + 1\<rparr>) = Inr (toks[k := ?t])"
      using k(3) by (simp_all add: tok_get_def tok_set_def)
    show ?thesis
    proof (cases j)
      case None
      with i Some g j p super [of "-1"] show ?thesis
        by (auto simp: jsmn_close_def Let_def jsmnerr)
    next
      case (Some m)
      with j have "m \<le> k" by simp
      with Some i \<open>i = Some k\<close> g j p super [of "int m"] show ?thesis
        by (auto simp: jsmn_close_def Let_def jsmnerr)
    qed
  qed
qed

lemma comma_turn_ok:
  assumes inv: "jsmn_inv js num parser toks" and p: "p_pos parser < length js"
  shows "turn_ok js num parser toks count (jsmn_comma parser (Some toks) count)"
proof -
  have n: "p_toknext parser \<le> length toks" "-1 \<le> p_toksuper parser"
      "p_toksuper parser < int (p_toknext parser)"
    using inv by (simp_all add: jsmn_inv_def)
  obtain j where j: "find_down (\<lambda>t. tok_container t \<and> tok_open t) toks (p_toknext parser) = Inr j"
      "case j of None \<Rightarrow> True | Some j \<Rightarrow> j < p_toknext parser"
    using find_down_spec [OF n(1), of "\<lambda>t. tok_container t \<and> tok_open t"] by (auto split: option.splits)
  have g: "tok_get toks (p_toksuper parser) = Inr (toks ! nat (p_toksuper parser))"
    if "p_toksuper parser \<noteq> -1"
    using that n by (auto simp: tok_get_def)
  show ?thesis
  proof (cases j)
    case None
    with j g inv p show ?thesis by (auto simp: jsmn_comma_def)
  next
    case (Some m)
    with j jsmn_inv_super [OF inv, of "int m"] g inv p show ?thesis by (auto simp: jsmn_comma_def)
  qed
qed

lemma jsmn_turn_ok:
  assumes inv: "jsmn_inv js num parser toks" and p: "p_pos parser < length js" "js ! p_pos parser \<noteq> NUL"
  shows "turn_ok js num parser toks count (jsmn_turn js num parser (Some toks) count)"
proof -
  let ?c = "js ! p_pos parser"
  consider (left) "?c = CHR ''{'' \<or> ?c = CHR ''[''"
    | (right) "?c = CHR ''}'' \<or> ?c = CHR '']''" | (string) "?c = QUOTE"
    | (blank) "?c = TAB \<or> ?c = CR \<or> ?c = LF \<or> ?c = CHR '' ''" | (colon) "?c = CHR '':''"
    | (comma) "?c = CHR '',''"
    | (primitive) "?c \<notin> {CHR ''{'', CHR ''['', CHR ''}'', CHR '']'', QUOTE, TAB, CR, LF, CHR '' '', CHR '':'', CHR '',''}"
    by blast
  then show ?thesis
  proof cases
    case left
    then show ?thesis using open_turn_ok [OF inv p(1)] by (auto simp: jsmn_turn_def Let_def)
  next
    case right
    then show ?thesis using close_turn_ok [OF inv p(1)] by (auto simp: jsmn_turn_def Let_def)
  next
    case string
    have "turn_ok js num parser toks count
      (bindE (jsmn_parse_string parser js (Some toks) num) (\<lambda>(r, parser, tokens).
       if r < 0 then Inr (Inl r, parser, tokens)
       else bindE (jsmn_count_child parser tokens) (\<lambda>tokens. Inr (Inr (count + 1), parser, tokens))))"
    proof (cases "string_scan js (p_pos parser + 1)")
      case (Inl err)
      with string_scan_result [where js = js and pos = "p_pos parser + 1"] show ?thesis
        by (auto simp: jsmn_parse_string_def)
    next
      case (Inr pos)
      with string_scan_result [where js = js and pos = "p_pos parser + 1"]
      have "p_pos parser \<le> pos" "pos < length js" "int (p_pos parser) + 1 \<le> int pos" by auto
      then show ?thesis
        unfolding parse_string_found [OF Inr] by (intro leaf_turn_ok [OF inv]) simp_all
    qed
    with string show ?thesis by (simp add: jsmn_turn_def Let_def QUOTE_def)
  next
    case blank
    with inv p show ?thesis
      by (auto simp: jsmn_turn_def Let_def TAB_def CR_def LF_def QUOTE_def)
  next
    case colon
    have "jsmn_inv js num (parser\<lparr>p_toksuper := int (p_toknext parser) - 1\<rparr>) toks"
      using jsmn_inv_super [OF inv] by simp
    with colon p show ?thesis
      by (auto simp: jsmn_turn_def Let_def TAB_def CR_def LF_def QUOTE_def)
  next
    case comma
    with comma_turn_ok [OF inv p(1)] show ?thesis
      by (simp add: jsmn_turn_def Let_def TAB_def CR_def LF_def QUOTE_def)
  next
    case primitive
    have "turn_ok js num parser toks count
      (bindE (jsmn_parse_primitive parser js (Some toks) num) (\<lambda>(r, parser, tokens).
       if r < 0 then Inr (Inl r, parser, tokens)
       else bindE (jsmn_count_child parser tokens) (\<lambda>tokens. Inr (Inr (count + 1), parser, tokens))))"
    proof (cases "primitive_scan js (p_pos parser)")
      case None
      then show ?thesis by (auto simp: jsmn_parse_primitive_def jsmnerr)
    next
      case (Some pos)
      have "p_pos parser < pos \<and> pos \<le> length js"
        by (rule primitive_scan_moves [OF Some p]) (use primitive in auto)
      then have "p_pos parser \<le> pos - 1" "pos - 1 < length js" "int (p_pos parser) \<le> int pos"
          "int pos \<le> int (length js)"
        by auto
      then show ?thesis
        unfolding parse_primitive_found [OF Some] by (intro leaf_turn_ok [OF inv]) simp_all
    qed
    with primitive show ?thesis by (simp add: jsmn_turn_def Let_def)
  qed
qed

section \<open>The whole parser\<close>

text \<open>The loop always ends, keeps the invariant and counts the tokens it fills.\<close>

lemma jsmn_loop_ok:
  assumes "jsmn_inv js num parser toks"
  shows "\<exists>t parser' toks'. jsmn_loop js num parser (Some toks) count = Some (Inr (t, parser', Some toks')) \<and>
    length toks' = length toks \<and>
    (case t of Inl r \<Rightarrow> r < 0
     | Inr count' \<Rightarrow> jsmn_inv js num parser' toks' \<and>
         count' - count = int (p_toknext parser') - int (p_toknext parser))"
  using assms
proof (induction "length js - p_pos parser" arbitrary: parser toks count rule: less_induct)
  case less
  show ?case
  proof (cases "p_pos parser < length js \<and> js ! p_pos parser \<noteq> NUL")
    case False
    with less.prems show ?thesis by (subst jsmn_loop.simps) auto
  next
    case True
    from jsmn_turn_ok [OF less.prems, of count] True obtain t parser1 toks1 where
      turn: "jsmn_turn js num parser (Some toks) count = Inr (t, parser1, Some toks1)"
      and len: "length toks1 = length toks"
      and t: "case t of Inl r \<Rightarrow> r < 0
        | Inr count' \<Rightarrow> jsmn_inv js num parser1 toks1 \<and> p_pos parser \<le> p_pos parser1 \<and>
            p_pos parser1 < length js \<and>
            count' - count = int (p_toknext parser1) - int (p_toknext parser)"
      by (auto simp: turn_ok_def)
    show ?thesis
    proof (cases t)
      case (Inl r)
      with True turn len t show ?thesis by (subst jsmn_loop.simps) auto
    next
      case (Inr count1)
      let ?parser = "parser1\<lparr>p_pos := p_pos parser1 + 1\<rparr>"
      from t Inr have t': "jsmn_inv js num parser1 toks1" "p_pos parser \<le> p_pos parser1"
          "p_pos parser1 < length js" "count1 - count = int (p_toknext parser1) - int (p_toknext parser)"
        by auto
      have "jsmn_inv js num ?parser toks1" using jsmn_inv_pos [OF t'(1)] t'(3) by simp
      moreover have "length js - p_pos ?parser < length js - p_pos parser" using t'(2,3) by simp
      ultimately obtain t2 parser2 toks2 where
        "jsmn_loop js num ?parser (Some toks1) count1 = Some (Inr (t2, parser2, Some toks2))"
        "length toks2 = length toks1" "case t2 of Inl r \<Rightarrow> r < 0
         | Inr count' \<Rightarrow> jsmn_inv js num parser2 toks2 \<and>
             count' - count1 = int (p_toknext parser2) - int (p_toknext ?parser)"
        using less.hyps [of ?parser toks1 count1] by blast
      with True turn Inr len t'(4) show ?thesis
        by (subst jsmn_loop.simps) (auto split: sum.splits)
    qed
  qed
qed

lemma jsmn_parse_ok:
  assumes "jsmn_inv js num parser toks"
  shows "\<exists>r parser' toks'. jsmn_parse parser js (Some toks) num = Inr (r, parser', Some toks') \<and>
    length toks' = length toks \<and>
    (0 \<le> r \<longrightarrow> r = int (p_toknext parser') \<and> jsmn_inv js num parser' toks' \<and>
      (\<forall>i < nat r. \<not> tok_open (toks' ! i)))"
proof -
  obtain t parser' toks' where l: "jsmn_loop js num parser (Some toks) (int (p_toknext parser)) =
      Some (Inr (t, parser', Some toks'))" "length toks' = length toks"
    and t: "case t of Inl r \<Rightarrow> r < 0
     | Inr count' \<Rightarrow> jsmn_inv js num parser' toks' \<and>
         count' - int (p_toknext parser) = int (p_toknext parser') - int (p_toknext parser)"
    using jsmn_loop_ok [OF assms] by blast
  show ?thesis
  proof (cases t)
    case (Inl r)
    with l t show ?thesis by (auto simp: jsmn_parse_def)
  next
    case (Inr count')
    with t have inv: "jsmn_inv js num parser' toks'" and c: "count' = int (p_toknext parser')" by auto
    then have "p_toknext parser' \<le> length toks'" by (simp add: jsmn_inv_def)
    from find_down_spec [OF this, of tok_open] obtain i where
      "find_down tok_open toks' (p_toknext parser') = Inr i"
      "case i of None \<Rightarrow> \<forall>k < p_toknext parser'. \<not> tok_open (toks' ! k) | Some i \<Rightarrow> True"
      by (auto split: option.splits)
    with l inv c Inr show ?thesis
      by (cases i) (auto simp: jsmn_parse_def jsmnerr)
  qed
qed

lemma jsmn_init_inv: "num \<le> length toks \<Longrightarrow> jsmn_inv js num jsmn_init toks"
  by (simp add: jsmn_inv_def jsmn_init_def)

section \<open>Properties\<close>



end
