(* ===== verification/JsmnPrint.thy ===== *)
theory JsmnPrint
  imports Jsmn
begin

text \<open>
  What the tokeniser computes on JSON documents: documents as a datatype, their compact text, and
  the tokens they have. The parser of \<open>helpers/jsmn.c\<close> returns exactly these tokens. Strings have no
  escapes, primitives are non-empty and free of the structural characters.
\<close>

section \<open>Documents\<close>

datatype json = JStr string | JPrim string | JArr elems | JObj members
  and elems = ENil | ECons json elems
  and members = MNil | MCons string json members

definition quoted :: "string \<Rightarrow> string" where
  "quoted s = QUOTE # s @ [QUOTE]"

primrec json_text :: "json \<Rightarrow> string" and elems_text :: "elems \<Rightarrow> string"
  and members_text :: "members \<Rightarrow> string" where
  "json_text (JStr s) = quoted s"
| "json_text (JPrim s) = s"
| "json_text (JArr vs) = ''['' @ elems_text vs @ '']''"
| "json_text (JObj ms) = ''{'' @ members_text ms @ ''}''"
| "elems_text ENil = []"
| "elems_text (ECons v vs) = json_text v @ (if vs = ENil then [] else '','' @ elems_text vs)"
| "members_text MNil = []"
| "members_text (MCons k v ms) =
     quoted k @ '':'' @ json_text v @ (if ms = MNil then [] else '','' @ members_text ms)"

primrec elems_count :: "elems \<Rightarrow> nat" where
  "elems_count ENil = 0"
| "elems_count (ECons v vs) = Suc (elems_count vs)"

primrec members_count :: "members \<Rightarrow> nat" where
  "members_count MNil = 0"
| "members_count (MCons k v ms) = Suc (members_count ms)"

abbreviation tok :: "jsmntype_t \<Rightarrow> nat \<Rightarrow> nat \<Rightarrow> nat \<Rightarrow> jsmntok_t" where
  "tok type start end' n \<equiv>
     \<lparr>tok_type = type, tok_start = int start, tok_end = int end', tok_size = int n\<rparr>"

text \<open>The tokens of a document whose text starts at position \<open>p\<close>.\<close>

primrec json_toks :: "json \<Rightarrow> nat \<Rightarrow> jsmntok_t list" and elems_toks :: "elems \<Rightarrow> nat \<Rightarrow> jsmntok_t list"
  and members_toks :: "members \<Rightarrow> nat \<Rightarrow> jsmntok_t list" where
  "json_toks (JStr s) p = [tok JSMN_STRING (p + 1) (p + 1 + length s) 0]"
| "json_toks (JPrim s) p = [tok JSMN_PRIMITIVE p (p + length s) 0]"
| "json_toks (JArr vs) p =
     tok JSMN_ARRAY p (p + length (elems_text vs) + 2) (elems_count vs) # elems_toks vs (p + 1)"
| "json_toks (JObj ms) p =
     tok JSMN_OBJECT p (p + length (members_text ms) + 2) (members_count ms) # members_toks ms (p + 1)"
| "elems_toks ENil p = []"
| "elems_toks (ECons v vs) p = json_toks v p @ elems_toks vs (p + length (json_text v) + 1)"
| "members_toks MNil p = []"
| "members_toks (MCons k v ms) p =
     tok JSMN_STRING (p + 1) (p + 1 + length k) 1 # json_toks v (p + length k + 3) @
     members_toks ms (p + length k + 3 + length (json_text v) + 1)"

text \<open>The members of an object as a list of fields.\<close>

type_synonym field = "string \<times> json"

fun members_of :: "field list \<Rightarrow> members" where
  "members_of [] = MNil"
| "members_of ((k, v) # kvs) = MCons k v (members_of kvs)"

lemma members_of_MNil [simp]: "members_of kvs = MNil \<longleftrightarrow> kvs = []"
  by (cases kvs rule: members_of.cases) simp_all

definition plain :: "string \<Rightarrow> bool" where
  "plain s \<longleftrightarrow> (\<forall>c \<in> set s. c \<noteq> NUL \<and> c \<noteq> QUOTE \<and> c \<noteq> BACKSLASH)"

definition structural :: "char set" where
  "structural = {CHR ''{'', CHR ''['', CHR ''}'', CHR '']'', CHR '':'', CHR '','', QUOTE}"

definition primitive :: "string \<Rightarrow> bool" where
  "primitive s \<longleftrightarrow> s \<noteq> [] \<and> (\<forall>c \<in> set s. 32 < code c \<and> code c < 127 \<and> c \<notin> structural)"

primrec json_ok :: "json \<Rightarrow> bool" and elems_ok :: "elems \<Rightarrow> bool" and members_ok :: "members \<Rightarrow> bool" where
  "json_ok (JStr s) \<longleftrightarrow> plain s"
| "json_ok (JPrim s) \<longleftrightarrow> primitive s"
| "json_ok (JArr vs) \<longleftrightarrow> elems_ok vs"
| "json_ok (JObj ms) \<longleftrightarrow> members_ok ms"
| "elems_ok ENil \<longleftrightarrow> True"
| "elems_ok (ECons v vs) \<longleftrightarrow> json_ok v \<and> elems_ok vs"
| "members_ok MNil \<longleftrightarrow> True"
| "members_ok (MCons k v ms) \<longleftrightarrow> plain k \<and> json_ok v \<and> members_ok ms"

section \<open>Scanning printed leaves\<close>

lemma drop_nth: "drop p js = c # rest \<Longrightarrow> p < length js \<and> js ! p = c \<and> drop (Suc p) js = rest"
  by (metis Cons_nth_drop_Suc drop_eq_Nil list.inject not_le list.distinct(1))

lemma drop_more: "drop p js = a @ b \<Longrightarrow> drop (p + length a) js = b"
  by (metis add.commute append_eq_conv_conj drop_drop)

lemma string_scan_plain:
  "plain s \<Longrightarrow> drop p js = s @ QUOTE # rest \<Longrightarrow> string_scan js p = Inr (p + length s)"
proof (induction s arbitrary: p)
  case Nil
  then have "p < length js \<and> js ! p = QUOTE" by (auto dest: drop_nth)
  then show ?case by (subst string_scan.simps) (simp add: QUOTE_def NUL_def)
next
  case (Cons c s)
  from Cons.prems(2) have d: "p < length js" "js ! p = c" "drop (Suc p) js = s @ QUOTE # rest"
    by (auto dest: drop_nth)
  from Cons.prems(1) have c: "c \<noteq> NUL" "c \<noteq> QUOTE" "c \<noteq> BACKSLASH" "plain s"
    by (auto simp: plain_def)
  from Cons.IH [OF c(4) d(3)] d c show ?case by (subst string_scan.simps) simp
qed

text \<open>What follows a primitive: the end of the text or a character that ends it.\<close>

definition ends :: "string \<Rightarrow> bool" where
  "ends rest \<longleftrightarrow> rest = [] \<or> hd rest \<in> {CHR '','', CHR '']'', CHR ''}''}"

lemma code_eqs:
  "code NUL = 0" "code TAB = 9" "code CR = 13" "code LF = 10" "code CHR '' '' = 32"
  by (simp_all add: NUL_def TAB_def CR_def LF_def)

lemma prim_char:
  assumes "primitive (c # s)"
  shows "c \<noteq> NUL" "c \<notin> structural" "\<not> code c < 32" "\<not> code c \<ge> 127"
    "c \<noteq> TAB" "c \<noteq> CR" "c \<noteq> LF" "c \<noteq> CHR '' ''"
proof -
  have c: "32 < code c" "code c < 127" "c \<notin> structural" using assms by (simp_all add: primitive_def)
  show "c \<notin> structural" by (rule c(3))
  show "\<not> code c < 32" "\<not> code c \<ge> 127" using c(1,2) by simp_all
  show "c \<noteq> NUL" "c \<noteq> TAB" "c \<noteq> CR" "c \<noteq> LF" "c \<noteq> CHR '' ''"
    using c(1) code_eqs by auto
qed

lemma not_structural:
  assumes "c \<notin> structural"
  shows "c \<noteq> CHR ''{''" "c \<noteq> CHR ''[''" "c \<noteq> CHR ''}''" "c \<noteq> CHR '']''" "c \<noteq> CHR '':''" "c \<noteq> CHR '',''"
    "c \<noteq> QUOTE"
  using assms unfolding structural_def by blast+

lemma primitive_scan_prim:
  "\<forall>c \<in> set s. 32 < code c \<and> code c < 127 \<and> c \<notin> structural \<Longrightarrow> drop p js = s @ rest \<Longrightarrow> ends rest \<Longrightarrow>
   p \<le> length js \<Longrightarrow> primitive_scan js p = Some (p + length s)"
proof (induction s arbitrary: p)
  case Nil
  show ?case
  proof (cases rest)
    case Nil
    with Nil.prems show ?thesis by (subst primitive_scan.simps) simp
  next
    case (Cons c r)
    with Nil.prems have "p < length js \<and> js ! p = c" "c \<in> {CHR '','', CHR '']'', CHR ''}''}"
      by (auto dest: drop_nth simp: ends_def)
    then show ?thesis by (subst primitive_scan.simps) (auto simp: NUL_def)
  qed
next
  case (Cons c s)
  from Cons.prems(2) have d: "p < length js" "js ! p = c" "drop (Suc p) js = s @ rest"
    by (auto dest: drop_nth)
  have "primitive [c]" using Cons.prems(1) by (simp add: primitive_def)
  note c = prim_char [OF this] and c' = not_structural [OF prim_char(2) [OF this]]
  from Cons.IH [of "Suc p"] Cons.prems d c c' show ?case by (subst primitive_scan.simps) simp
qed

section \<open>Turns on printed text\<close>

text \<open>One more child for the token at \<open>up\<close>, none for \<open>-1\<close>.\<close>

definition bump :: "int \<Rightarrow> nat \<Rightarrow> jsmntok_t list \<Rightarrow> jsmntok_t list" where
  "bump up k ts =
    (if up < 0 then ts
     else ts[nat up := (ts ! nat up)\<lparr>tok_size := tok_size (ts ! nat up) + int k\<rparr>])"

lemma length_bump [simp]: "length (bump up k ts) = length ts"
  by (simp add: bump_def)

lemma bump_0 [simp]: "bump up 0 ts = ts"
  by (cases "nat up < length ts") (auto simp: bump_def list_update_beyond)

lemma bump_bump: "bump up j (bump up k ts) = bump up (k + j) ts"
  by (cases "nat up < length ts") (auto simp: bump_def list_update_beyond add.assoc)

lemma bump_append: "up < int (length ts) \<Longrightarrow> bump up k (ts @ us) = bump up k ts @ us"
  by (auto simp: bump_def nth_append list_update_append)

abbreviation parser :: "nat \<Rightarrow> nat \<Rightarrow> int \<Rightarrow> jsmn_parser" where
  "parser p n up \<equiv> \<lparr>p_pos = p, p_toknext = n, p_toksuper = up\<rparr>"

lemma jsmn_bump_val:
  assumes "-1 \<le> up" "up < int (length ts)"
  shows "jsmn_bump (parser p n up) ts = Inr (bump up 1 ts)"
  using assms by (auto simp: jsmn_bump_def bump_def tok_set_def)

lemma jsmn_loop_turn:
  assumes "p < length js" "js ! p \<noteq> NUL"
    "jsmn_turn js num (parser p n up) (Some toks) count = Inr (Inr count', parser p' n' up', Some toks')"
  shows "jsmn_loop js num (parser p n up) (Some toks) count =
    jsmn_loop js num (parser (p' + 1) n' up') (Some toks') count'"
  using assms by (subst jsmn_loop.simps) simp

lemma tok_eta:
  "jsmn_fill_token type s e t = \<lparr>tok_type = type, tok_start = s, tok_end = e, tok_size = 0\<rparr>"
  by (cases t) (simp add: jsmn_fill_token_def)

text \<open>The array of tokens is the filled ones and the rest, of which a turn takes the first.\<close>

lemma loop_string:
  assumes "plain s" "drop p js = quoted s @ rest" "length ts < num" "us \<noteq> []"
    "-1 \<le> up" "up < int (length ts)"
  shows "jsmn_loop js num (parser p (length ts) up) (Some (ts @ us)) count =
    jsmn_loop js num (parser (p + length s + 2) (length ts + 1) up)
      (Some (bump up 1 ts @ tok JSMN_STRING (p + 1) (p + 1 + length s) 0 # tl us)) (count + 1)"
proof -
  obtain u us' where us: "us = u # us'" using assms(4) by (cases us) auto
  have d: "p < length js" "js ! p = QUOTE" "drop (Suc p) js = s @ QUOTE # rest"
    using assms(2) by (auto dest: drop_nth simp: quoted_def)
  have s: "string_scan js (p_pos (parser p (length ts) up) + 1) = Inr (p + 1 + length s)"
    using string_scan_plain [OF assms(1) d(3)] by simp
  have "jsmn_turn js num (parser p (length ts) up) (Some (ts @ us)) count =
      Inr (Inr (count + 1), parser (p + 1 + length s) (length ts + 1) up,
        Some (bump up 1 ts @ tok JSMN_STRING (p + 1) (p + 1 + length s) 0 # us'))"
    using d(2) assms(3,5,6)
    by (simp add: jsmn_turn_def parse_string_found [OF s] us tok_eta jsmn_alloc_token_def tok_set_def
        jsmn_count_child_def jsmn_bump_val bump_append Let_def QUOTE_def list_update_append)
  from jsmn_loop_turn [OF d(1) _ this] d(2) show ?thesis by (simp add: us NUL_def QUOTE_def)
qed

lemma loop_primitive:
  assumes "primitive s" "drop p js = s @ rest" "ends rest" "length ts < num" "us \<noteq> []"
    "-1 \<le> up" "up < int (length ts)"
  shows "jsmn_loop js num (parser p (length ts) up) (Some (ts @ us)) count =
    jsmn_loop js num (parser (p + length s) (length ts + 1) up)
      (Some (bump up 1 ts @ tok JSMN_PRIMITIVE p (p + length s) 0 # tl us)) (count + 1)"
proof -
  obtain u us' where us: "us = u # us'" using assms(5) by (cases us) auto
  obtain c s' where cs: "s = c # s'" using assms(1) by (cases s) (auto simp: primitive_def)
  have d: "p < length js" "js ! p = c" using assms(2) by (auto dest: drop_nth simp: cs)
  note c = prim_char [OF assms(1) [unfolded cs]]
  note c' = not_structural [OF c(2)]
  have s: "primitive_scan js (p_pos (parser p (length ts) up)) = Some (p + length s)"
    using primitive_scan_prim [OF _ assms(2,3)] assms(1) d(1) by (simp add: primitive_def)
  have "jsmn_turn js num (parser p (length ts) up) (Some (ts @ us)) count =
      Inr (Inr (count + 1), parser (p + length s - 1) (length ts + 1) up,
        Some (bump up 1 ts @ tok JSMN_PRIMITIVE p (p + length s) 0 # us'))"
    using d(2) assms(4,6,7) c c'
    by (simp add: jsmn_turn_def parse_primitive_found [OF s] us tok_eta jsmn_alloc_token_def tok_set_def
        jsmn_count_child_def jsmn_bump_val bump_append Let_def list_update_append)
  from jsmn_loop_turn [OF d(1) _ this] d(2) c(1) show ?thesis by (simp add: us cs)
qed

lemma loop_colon:
  assumes "drop p js = CHR '':'' # rest"
  shows "jsmn_loop js num (parser p n up) (Some toks) count =
    jsmn_loop js num (parser (p + 1) n (int n - 1)) (Some toks) count"
proof -
  have d: "p < length js" "js ! p = CHR '':''" using drop_nth [OF assms] by simp_all
  have "jsmn_turn js num (parser p n up) (Some toks) count =
      Inr (Inr count, parser p n (int n - 1), Some toks)"
    by (simp add: jsmn_turn_def d(2) QUOTE_def TAB_def CR_def LF_def)
  from jsmn_loop_turn [OF d(1) _ this] d(2) show ?thesis by (simp add: NUL_def)
qed

section \<open>The innermost open token\<close>

definition top_open :: "jsmntok_t list \<Rightarrow> int \<Rightarrow> bool" where
  "top_open ts j \<longleftrightarrow> (j = -1 \<and> (\<forall>t \<in> set ts. \<not> tok_open t)) \<or>
     (0 \<le> j \<and> j < int (length ts) \<and> tok_open (ts ! nat j) \<and> tok_container (ts ! nat j) \<and>
      (\<forall>t \<in> set (drop (Suc (nat j)) ts). \<not> tok_open t))"

lemma top_open_range: "top_open ts j \<Longrightarrow> -1 \<le> j \<and> j < int (length ts)"
  by (auto simp: top_open_def)

lemma top_open_append:
  "top_open ts j \<Longrightarrow> \<forall>t \<in> set cs. \<not> tok_open t \<Longrightarrow> top_open (ts @ cs) j"
  by (auto simp: top_open_def nth_append)

lemma top_open_new:
  "tok_open t \<Longrightarrow> tok_container t \<Longrightarrow> \<forall>t \<in> set cs. \<not> tok_open t \<Longrightarrow>
   top_open (ts @ t # cs) (int (length ts))"
  by (auto simp: top_open_def)

lemma tok_size_open [simp]:
  "tok_open (t\<lparr>tok_size := n\<rparr>) = tok_open t" "tok_container (t\<lparr>tok_size := n\<rparr>) = tok_container t"
  by (simp_all add: tok_open_def tok_container_def)

lemma top_open_bump:
  assumes "top_open ts j" "up < int (length ts)"
  shows "top_open (bump up k ts) j"
proof (cases "up < 0 \<or> length ts \<le> nat up")
  case True
  with assms show ?thesis by (auto simp: bump_def list_update_beyond)
next
  case False
  have open_upd: "tok_open (ts[i := (ts ! i)\<lparr>tok_size := m\<rparr>] ! l) = tok_open (ts ! l)"
    if "l < length ts" for i l m
    using that by (cases "i = l") simp_all
  have all: "(\<forall>t \<in> set (drop a (ts[i := (ts ! i)\<lparr>tok_size := m\<rparr>])). \<not> tok_open t) \<longleftrightarrow>
      (\<forall>t \<in> set (drop a ts). \<not> tok_open t)" for a i m
    by (auto simp: all_set_conv_all_nth open_upd)
  have cont: "tok_container (ts[i := (ts ! i)\<lparr>tok_size := m\<rparr>] ! l) = tok_container (ts ! l)"
    if "l < length ts" for i l m
    using that by (cases "i = l") simp_all
  show ?thesis
    using assms all [of 0] False by (auto simp: top_open_def bump_def open_upd cont all)
qed

text \<open>Both searches from the last token down find it.\<close>

lemma find_down_skip:
  "n + k \<le> length toks \<Longrightarrow> \<forall>i. n \<le> i \<and> i < n + k \<longrightarrow> \<not> P (toks ! i) \<Longrightarrow>
   find_down P toks (n + k) = find_down P toks n"
proof (induction k)
  case (Suc k)
  then have "tok_get toks (int (n + k)) = Inr (toks ! (n + k))" "\<not> P (toks ! (n + k))"
    by (simp_all add: tok_get_def nat_add_distrib)
  with Suc show ?case by simp
qed simp

lemma find_top_open:
  assumes "top_open ts j" and P: "\<And>t. tok_open t \<and> tok_container t \<Longrightarrow> P t" "\<And>t. P t \<Longrightarrow> tok_open t"
  shows "find_down P (ts @ us) (length ts) = Inr (if j = -1 then None else Some (nat j))"
proof (cases "j = -1")
  case True
  with assms(1) have closed: "\<forall>t \<in> set ts. \<not> tok_open t" by (auto simp: top_open_def)
  have "\<not> P ((ts @ us) ! i)" if "i < length ts" for i
    using that closed P(2) [of "ts ! i"] by (auto simp: nth_append)
  then have "find_down P (ts @ us) (0 + length ts) = find_down P (ts @ us) 0"
    by (intro find_down_skip) auto
  with True show ?thesis by simp
next
  case False
  with assms(1) have j: "0 \<le> j" "nat j < length ts" "tok_open (ts ! nat j)" "tok_container (ts ! nat j)"
    and above: "\<forall>t \<in> set (drop (Suc (nat j)) ts). \<not> tok_open t"
    by (auto simp: top_open_def)
  have not_P: "\<not> P ((ts @ us) ! i)" if "Suc (nat j) \<le> i" "i < length ts" for i
  proof -
    from that have "drop (Suc (nat j)) ts ! (i - Suc (nat j)) \<in> set (drop (Suc (nat j)) ts)"
      by (intro nth_mem) simp
    with that above P(2) show ?thesis by (auto simp: nth_append)
  qed
  obtain k where k: "length ts = Suc (nat j) + k" using j(2) by (metis Suc_leI le_Suc_ex)
  have "find_down P (ts @ us) (Suc (nat j) + k) = find_down P (ts @ us) (Suc (nat j))"
    by (rule find_down_skip) (use k not_P in auto)
  moreover have "find_down P (ts @ us) (Suc (nat j)) = Inr (Some (nat j))"
    using j P(1) by (simp add: tok_get_def nth_append)
  ultimately show ?thesis using False k by (simp del: find_down.simps)
qed

lemma loop_comma:
  assumes "drop p js = CHR '','' # rest" "top_open ts j" "j \<noteq> -1" "0 \<le> up" "up < int (length ts)"
    "up = j \<or> \<not> tok_container (ts ! nat up)"
  shows "jsmn_loop js num (parser p (length ts) up) (Some (ts @ us)) count =
    jsmn_loop js num (parser (p + 1) (length ts) j) (Some (ts @ us)) count"
proof -
  have d: "p < length js" "js ! p = CHR '',''" using drop_nth [OF assms(1)] by simp_all
  have c: "tok_container (ts ! nat j)" using assms(2,3) by (auto simp: top_open_def)
  have g: "tok_get (ts @ us) up = Inr (ts ! nat up)" using assms(4,5) by (simp add: tok_get_def nth_append)
  have f: "find_down (\<lambda>t. tok_container t \<and> tok_open t) (ts @ us) (length ts) = Inr (Some (nat j))"
    using find_top_open [OF assms(2), of "\<lambda>t. tok_container t \<and> tok_open t" us] assms(3) by simp
  have j: "int (nat j) = j" using top_open_range [OF assms(2)] assms(3) by simp
  have "jsmn_comma (parser p (length ts) up) (Some (ts @ us)) count =
      Inr (Inr count, parser p (length ts) j, Some (ts @ us))"
    using c g f j assms(4,6) by (auto simp: jsmn_comma_def)
  then have "jsmn_turn js num (parser p (length ts) up) (Some (ts @ us)) count =
      Inr (Inr count, parser p (length ts) j, Some (ts @ us))"
    using d(2) by (simp add: jsmn_turn_def QUOTE_def TAB_def CR_def LF_def)
  from jsmn_loop_turn [OF d(1) _ this] d(2) show ?thesis by (simp add: NUL_def)
qed


definition open_tok :: "char \<Rightarrow> nat \<Rightarrow> nat \<Rightarrow> jsmntok_t" where
  "open_tok c p k = \<lparr>tok_type = (if c = CHR ''{'' then JSMN_OBJECT else JSMN_ARRAY),
     tok_start = int p, tok_end = -1, tok_size = int k\<rparr>"

lemma loop_open:
  assumes "drop p js = c # rest" "c = CHR ''{'' \<or> c = CHR ''[''" "length ts < num" "us \<noteq> []"
    "-1 \<le> up" "up < int (length ts)"
  shows "jsmn_loop js num (parser p (length ts) up) (Some (ts @ us)) count =
    jsmn_loop js num (parser (p + 1) (length ts + 1) (int (length ts)))
      (Some (bump up 1 ts @ open_tok c p 0 # tl us)) (count + 1)"
proof -
  have d: "p < length js" "js ! p = c" using drop_nth [OF assms(1)] by simp_all
  obtain u us' where us: "us = u # us'" using assms(4) by (cases us) auto
  have "jsmn_open c (parser p (length ts) up) (Some (ts @ us)) num count =
      Inr (Inr (count + 1), parser p (length ts + 1) (int (length ts)),
        Some (bump up 1 ts @ open_tok c p 0 # us'))"
    using assms(3,5,6)
    by (cases u) (simp add: jsmn_open_def jsmn_alloc_token_def tok_set_def us jsmn_bump_val bump_append
        open_tok_def Let_def list_update_append nth_append)
  then have "jsmn_turn js num (parser p (length ts) up) (Some (ts @ us)) count =
      Inr (Inr (count + 1), parser p (length ts + 1) (int (length ts)),
        Some (bump up 1 ts @ open_tok c p 0 # us'))"
    using d(2) assms(2) by (auto simp: jsmn_turn_def)
  from jsmn_loop_turn [OF d(1) _ this] d(2) assms(2) show ?thesis by (auto simp: NUL_def us)
qed


lemma loop_close:
  assumes d: "drop p js = c # rest" "c = (if b = CHR ''{'' then CHR ''}'' else CHR '']'')"
    "b = CHR ''{'' \<or> b = CHR ''[''"
    and top: "top_open pre j" and closed: "\<forall>t \<in> set cs. \<not> tok_open t"
  shows "jsmn_loop js num (parser p (length pre + 1 + length cs) up)
      (Some ((pre @ open_tok b q k # cs) @ us)) count =
    jsmn_loop js num (parser (p + 1) (length pre + 1 + length cs) j)
      (Some ((pre @ (open_tok b q k)\<lparr>tok_end := int p + 1\<rparr> # cs) @ us)) count"
proof -
  have e: "p < length js" "js ! p = c" using drop_nth [OF d(1)] by simp_all
  let ?t = "open_tok b q k" and ?n = "length pre"
  let ?t' = "(open_tok b q k)\<lparr>tok_end := int p + 1\<rparr>"
  have t: "tok_open ?t" "tok_container ?t" "\<not> tok_open ?t'"
    by (simp_all add: open_tok_def tok_open_def tok_container_def)
  have f1: "find_down tok_open ((pre @ ?t # cs) @ us) (?n + 1 + length cs) = Inr (Some ?n)"
    using find_top_open [OF top_open_new [OF t(1,2) closed, of pre], of tok_open us]
    by (simp del: find_down.simps)
  have "find_down tok_open ((pre @ [?t']) @ cs @ us) (length (pre @ [?t'])) =
      Inr (if j = -1 then None else Some (nat j))"
    by (rule find_top_open [OF top_open_append [OF top]]) (use t(3) in simp_all)
  then have f2: "find_down tok_open (pre @ ?t' # cs @ us) (Suc ?n) =
      Inr (if j = -1 then None else Some (nat j))"
    by (simp del: find_down.simps)
  have j: "j \<noteq> -1 \<Longrightarrow> int (nat j) = j" using top_open_range [OF top] by simp
  have "jsmn_close c (parser p (?n + 1 + length cs) up) (Some ((pre @ ?t # cs) @ us)) count =
      Inr (Inr count, parser p (?n + 1 + length cs) j, Some ((pre @ ?t' # cs) @ us))"
    using f1 f2 j d(2,3)
    by (auto simp: jsmn_close_def Let_def tok_get_def tok_set_def open_tok_def simp del: find_down.simps)
  then have "jsmn_turn js num (parser p (?n + 1 + length cs) up) (Some ((pre @ ?t # cs) @ us)) count =
      Inr (Inr count, parser p (?n + 1 + length cs) j, Some ((pre @ ?t' # cs) @ us))"
    using e(2) d(2) by (auto simp: jsmn_turn_def split: if_splits)
  from jsmn_loop_turn [OF e(1) _ this] e(2) d(2) show ?thesis by (simp add: NUL_def)
qed

section \<open>The parser on printed documents\<close>

text \<open>The number of tokens does not depend on the position, and no token is left open.\<close>

primrec json_size :: "json \<Rightarrow> nat" and elems_size :: "elems \<Rightarrow> nat" and members_size :: "members \<Rightarrow> nat"
where
  "json_size (JStr s) = 1"
| "json_size (JPrim s) = 1"
| "json_size (JArr vs) = 1 + elems_size vs"
| "json_size (JObj ms) = 1 + members_size ms"
| "elems_size ENil = 0"
| "elems_size (ECons v vs) = json_size v + elems_size vs"
| "members_size MNil = 0"
| "members_size (MCons k v ms) = 1 + json_size v + members_size ms"

lemma length_toks [simp]:
  "length (json_toks v p) = json_size v"
  "length (elems_toks vs p) = elems_size vs"
  "length (members_toks ms p) = members_size ms"
  by (induction v and vs and ms arbitrary: p and p and p) simp_all

lemma toks_closed:
  "\<forall>t \<in> set (json_toks v p). \<not> tok_open t"
  "\<forall>t \<in> set (elems_toks vs p). \<not> tok_open t"
  "\<forall>t \<in> set (members_toks ms p). \<not> tok_open t"
  by (induction v and vs and ms arbitrary: p and p and p) (simp_all add: tok_open_def ball_Un)

definition value_parsed :: "json \<Rightarrow> bool" where
  "value_parsed v \<longleftrightarrow> (\<forall>js num p rest ts us up j count.
     drop p js = json_text v @ rest \<longrightarrow> ends rest \<longrightarrow> length ts + json_size v \<le> num \<longrightarrow>
     num \<le> length ts + length us \<longrightarrow> top_open ts j \<longrightarrow> -1 \<le> up \<longrightarrow> up < int (length ts) \<longrightarrow>
     (\<exists>up'. (up' = up \<or> up' = j) \<and>
       jsmn_loop js num (parser p (length ts) up) (Some (ts @ us)) count =
       jsmn_loop js num (parser (p + length (json_text v)) (length ts + json_size v) up')
         (Some (bump up 1 ts @ json_toks v p @ drop (json_size v) us)) (count + int (json_size v))))"

text \<open>The content of a container, with the container open at index \<open>length pre\<close>.\<close>

definition content_parsed :: "char \<Rightarrow> string \<Rightarrow> nat \<Rightarrow> nat \<Rightarrow> (nat \<Rightarrow> jsmntok_t list) \<Rightarrow> bool" where
  "content_parsed b text n children toks \<longleftrightarrow> (\<forall>js num p rest pre q k cs us count.
     drop p js = text @ rest \<longrightarrow> rest \<noteq> [] \<longrightarrow> hd rest \<in> {CHR ''}'', CHR '']''} \<longrightarrow> (\<forall>t \<in> set cs. \<not> tok_open t) \<longrightarrow>
     length pre + 1 + length cs + n \<le> num \<longrightarrow> num \<le> length pre + 1 + length cs + length us \<longrightarrow>
     (\<exists>up'.
       jsmn_loop js num (parser p (length pre + 1 + length cs) (int (length pre)))
         (Some ((pre @ open_tok b q k # cs) @ us)) count =
       jsmn_loop js num (parser (p + length text) (length pre + 1 + length cs + n) up')
         (Some ((pre @ open_tok b q (k + children) # cs @ toks p) @ drop n us)) (count + int n)))"

lemma value_parsedD:
  assumes "value_parsed v" "drop p js = json_text v @ rest" "ends rest" "length ts + json_size v \<le> num"
    "num \<le> length ts + length us" "top_open ts j" "-1 \<le> up" "up < int (length ts)"
  obtains up' where "up' = up \<or> up' = j"
    "jsmn_loop js num (parser p (length ts) up) (Some (ts @ us)) count =
     jsmn_loop js num (parser (p + length (json_text v)) (length ts + json_size v) up')
       (Some (bump up 1 ts @ json_toks v p @ drop (json_size v) us)) (count + int (json_size v))"
  using assms(1) [unfolded value_parsed_def, rule_format, OF assms(2-8), of count] that by (elim exE conjE)

lemma content_parsedD:
  assumes "content_parsed b text n children toks" "drop p js = text @ rest" "rest \<noteq> []"
    "hd rest \<in> {CHR ''}'', CHR '']''}" "\<forall>t \<in> set cs. \<not> tok_open t"
    "length pre + 1 + length cs + n \<le> num" "num \<le> length pre + 1 + length cs + length us"
  obtains up' where
    "jsmn_loop js num (parser p (length pre + 1 + length cs) (int (length pre)))
       (Some ((pre @ open_tok b q k # cs) @ us)) count =
     jsmn_loop js num (parser (p + length text) (length pre + 1 + length cs + n) up')
       (Some ((pre @ open_tok b q (k + children) # cs @ toks p) @ drop n us)) (count + int n)"
  using assms(1) [unfolded content_parsed_def, rule_format (no_asm), OF assms(2-7),
    where q = q and k = k and count = count] that
  by (elim exE)

lemma open_tok_top:
  "\<forall>t \<in> set cs. \<not> tok_open t \<Longrightarrow> top_open (pre @ open_tok b q k # cs) (int (length pre))"
  by (rule top_open_new) (auto simp: open_tok_def tok_open_def tok_container_def)

lemma bump_open:
  "bump (int (length pre)) n (pre @ open_tok b q k # cs) = pre @ open_tok b q (k + n) # cs"
  by (simp add: bump_def open_tok_def)

text \<open>A container around its content.\<close>

lemma container_parsed:
  assumes content: "content_parsed b text n children toks"
    and b: "b = CHR ''{'' \<and> c = CHR ''}'' \<or> b = CHR ''['' \<and> c = CHR '']''"
    and v: "json_text v = b # text @ [c]" "json_size v = 1 + n"
      "\<And>p. json_toks v p = (open_tok b p children)\<lparr>tok_end := int (p + length text + 2)\<rparr> # toks (p + 1)"
    and len: "\<And>p. length (toks p) = n" and closed: "\<And>p t. t \<in> set (toks p) \<Longrightarrow> \<not> tok_open t"
  shows "value_parsed v"
  unfolding value_parsed_def
proof (intro allI impI)
  fix js rest :: string and num p :: nat and ts us :: "jsmntok_t list" and up j count :: int
  assume d: "drop p js = json_text v @ rest" and room: "length ts + json_size v \<le> num"
    "num \<le> length ts + length us" and top: "top_open ts j" and up: "-1 \<le> up" "up < int (length ts)"
  let ?ts = "bump up 1 ts"
  have d0: "drop p js = b # text @ c # rest" using d v(1) by simp
  have d1: "drop (p + 1) js = text @ c # rest" using drop_nth [OF d0] by simp
  have us: "us \<noteq> []" "length ts < num" using room v(2) by auto
  have o: "jsmn_loop js num (parser p (length ts) up) (Some (ts @ us)) count =
      jsmn_loop js num (parser (p + 1) (length ?ts + 1 + length []) (int (length ?ts)))
        (Some ((?ts @ open_tok b p 0 # []) @ tl us)) (count + 1)"
    using loop_open [OF d0 _ us(2,1) up, of count] b by auto
  obtain up' where m: "jsmn_loop js num (parser (p + 1) (length ?ts + 1 + length []) (int (length ?ts)))
        (Some ((?ts @ open_tok b p 0 # []) @ tl us)) (count + 1) =
      jsmn_loop js num (parser (p + 1 + length text) (length ?ts + 1 + length [] + n) up')
        (Some ((?ts @ open_tok b p (0 + children) # [] @ toks (p + 1)) @ drop n (tl us))) (count + 1 + int n)"
  proof (rule content_parsedD [OF content d1, of "[]" ?ts num "tl us" p 0 "count + 1"])
    show "hd (c # rest) \<in> {CHR ''}'', CHR '']''}" using b by auto
    show "length ?ts + 1 + length [] + n \<le> num" using room(1) v(2) by simp
    show "num \<le> length ?ts + 1 + length [] + length (tl us)" using room(2) us(1) by (cases us) auto
  qed simp_all
  have d2: "drop (p + 1 + length text) js = c # rest" using drop_more [OF d1] by simp
  have "jsmn_loop js num (parser (p + 1 + length text) (length ?ts + 1 + length (toks (p + 1))) up')
      (Some ((?ts @ open_tok b p children # toks (p + 1)) @ drop n (tl us))) (count + 1 + int n) =
    jsmn_loop js num (parser (p + 1 + length text + 1) (length ?ts + 1 + length (toks (p + 1))) j)
      (Some ((?ts @ (open_tok b p children)\<lparr>tok_end := int (p + 1 + length text) + 1\<rparr> # toks (p + 1)) @
        drop n (tl us))) (count + 1 + int n)"
    by (rule loop_close [OF d2]) (use b top_open_bump [OF top up(2)] closed in auto)
  then show "\<exists>up'. (up' = up \<or> up' = j) \<and>
       jsmn_loop js num (parser p (length ts) up) (Some (ts @ us)) count =
       jsmn_loop js num (parser (p + length (json_text v)) (length ts + json_size v) up')
         (Some (bump up 1 ts @ json_toks v p @ drop (json_size v) us)) (count + int (json_size v))"
    using o m v len by (intro exI [of _ j]) (simp add: drop_Suc add.commute add.left_commute)
qed

lemma leaf_parsed:
  assumes "plain s"
  shows "value_parsed (JStr s)"
  unfolding value_parsed_def
proof (intro allI impI)
  fix js rest :: string and num p :: nat and ts us :: "jsmntok_t list" and up j count :: int
  assume d: "drop p js = json_text (JStr s) @ rest" and room: "length ts + json_size (JStr s) \<le> num"
    "num \<le> length ts + length us" and up: "-1 \<le> up" "up < int (length ts)"
  have "us \<noteq> []" "length ts < num" using room by auto
  have q: "drop p js = quoted s @ rest" using d by simp
  from loop_string [OF assms q \<open>length ts < num\<close> \<open>us \<noteq> []\<close> up, of count]
  show "\<exists>up'. (up' = up \<or> up' = j) \<and>
       jsmn_loop js num (parser p (length ts) up) (Some (ts @ us)) count =
       jsmn_loop js num (parser (p + length (json_text (JStr s))) (length ts + json_size (JStr s)) up')
         (Some (bump up 1 ts @ json_toks (JStr s) p @ drop (json_size (JStr s)) us)) (count + int (json_size (JStr s)))"
    by (intro exI [of _ up]) (simp add: quoted_def drop_Suc)
qed

lemma primitive_parsed:
  assumes "primitive s"
  shows "value_parsed (JPrim s)"
  unfolding value_parsed_def
proof (intro allI impI)
  fix js rest :: string and num p :: nat and ts us :: "jsmntok_t list" and up j count :: int
  assume d: "drop p js = json_text (JPrim s) @ rest" "ends rest" and room: "length ts + json_size (JPrim s) \<le> num"
    "num \<le> length ts + length us" and up: "-1 \<le> up" "up < int (length ts)"
  have "us \<noteq> []" "length ts < num" using room by auto
  have q: "drop p js = s @ rest" using d(1) by simp
  from loop_primitive [OF assms q d(2) \<open>length ts < num\<close> \<open>us \<noteq> []\<close> up, of count]
  show "\<exists>up'. (up' = up \<or> up' = j) \<and>
       jsmn_loop js num (parser p (length ts) up) (Some (ts @ us)) count =
       jsmn_loop js num (parser (p + length (json_text (JPrim s))) (length ts + json_size (JPrim s)) up')
         (Some (bump up 1 ts @ json_toks (JPrim s) p @ drop (json_size (JPrim s)) us)) (count + int (json_size (JPrim s)))"
    by (intro exI [of _ up]) (simp add: drop_Suc)
qed

lemma elems_parsed_Cons:
  assumes v: "value_parsed v"
    and vs: "content_parsed b (elems_text vs) (elems_size vs) (elems_count vs) (elems_toks vs)"
  shows "content_parsed b (elems_text (ECons v vs)) (elems_size (ECons v vs)) (elems_count (ECons v vs))
    (elems_toks (ECons v vs))"
  unfolding content_parsed_def
proof (intro allI impI)
  fix js rest :: string and num p q k :: nat and pre cs us :: "jsmntok_t list" and count :: int
  assume d: "drop p js = elems_text (ECons v vs) @ rest" and rest: "rest \<noteq> []" "hd rest \<in> {CHR ''}'', CHR '']''}"
    and cs: "\<forall>t \<in> set cs. \<not> tok_open t" and room: "length pre + 1 + length cs + elems_size (ECons v vs) \<le> num"
    "num \<le> length pre + 1 + length cs + length us"
  let ?ts = "pre @ open_tok b q k # cs" and ?cs = "cs @ json_toks v p" and ?j = "int (length pre)"
  let ?rest = "(if vs = ENil then [] else '','' @ elems_text vs) @ rest"
  have top: "top_open ?ts ?j" by (rule open_tok_top [OF cs])
  have d': "drop p js = json_text v @ ?rest" using d by simp
  have e: "ends ?rest" using rest by (auto simp: ends_def)
  obtain up' where "up' = ?j \<or> up' = ?j" and
    one: "jsmn_loop js num (parser p (length ?ts) ?j) (Some (?ts @ us)) count =
     jsmn_loop js num (parser (p + length (json_text v)) (length ?ts + json_size v) up')
       (Some (bump ?j 1 ?ts @ json_toks v p @ drop (json_size v) us)) (count + int (json_size v))"
    by (rule value_parsedD [OF v d' e _ _ top, of num us ?j count]) (use room in auto)
  then have up': "up' = ?j" by simp
  have cs': "\<forall>t \<in> set ?cs. \<not> tok_open t" using cs toks_closed(1) by auto
  have d2: "drop (p + length (json_text v)) js = ?rest" using drop_more [OF d'] .
  show "\<exists>up'.
       jsmn_loop js num (parser p (length pre + 1 + length cs) (int (length pre)))
         (Some ((pre @ open_tok b q k # cs) @ us)) count =
       jsmn_loop js num (parser (p + length (elems_text (ECons v vs))) (length pre + 1 + length cs + elems_size (ECons v vs)) up')
         (Some ((pre @ open_tok b q (k + elems_count (ECons v vs)) # cs @ elems_toks (ECons v vs) p) @
           drop (elems_size (ECons v vs)) us)) (count + int (elems_size (ECons v vs)))"
  proof (cases "vs = ENil")
    case True
    with one show ?thesis by (intro exI [of _ up']) (simp add: bump_open)
  next
    case False
    let ?p = "p + length (json_text v)" and ?us = "drop (json_size v) us"
    let ?ts2 = "pre @ open_tok b q (k + 1) # ?cs"
    have d3: "drop ?p js = CHR '','' # elems_text vs @ rest" using d2 False by simp
    have "jsmn_loop js num (parser ?p (length ?ts2) ?j) (Some (?ts2 @ ?us)) (count + int (json_size v)) =
        jsmn_loop js num (parser (?p + 1) (length ?ts2) ?j) (Some (?ts2 @ ?us)) (count + int (json_size v))"
      by (rule loop_comma [OF d3 open_tok_top [OF cs']]) simp_all
    moreover obtain up2 where
      "jsmn_loop js num (parser (?p + 1) (length pre + 1 + length ?cs) ?j) (Some (?ts2 @ ?us)) (count + int (json_size v)) =
       jsmn_loop js num (parser (?p + 1 + length (elems_text vs)) (length pre + 1 + length ?cs + elems_size vs) up2)
         (Some ((pre @ open_tok b q (k + 1 + elems_count vs) # ?cs @ elems_toks vs (?p + 1)) @ drop (elems_size vs) ?us))
         (count + int (json_size v) + int (elems_size vs))"
      by (rule content_parsedD [OF vs _ rest cs', of "?p + 1" js pre num ?us q "k + 1" "count + int (json_size v)"])
        (use room drop_nth [OF d3] in auto)
    ultimately show ?thesis
      using one False by (intro exI [of _ up2]) (simp add: up' bump_open add.commute add.left_commute)
  qed
qed

lemma members_parsed_Cons:
  assumes key: "plain x" and v: "value_parsed v"
    and ms: "content_parsed b (members_text ms) (members_size ms) (members_count ms) (members_toks ms)"
  shows "content_parsed b (members_text (MCons x v ms)) (members_size (MCons x v ms))
    (members_count (MCons x v ms)) (members_toks (MCons x v ms))"
  unfolding content_parsed_def
proof (intro allI impI)
  fix js rest :: string and num p q k :: nat and pre cs us :: "jsmntok_t list" and count :: int
  assume d: "drop p js = members_text (MCons x v ms) @ rest" and rest: "rest \<noteq> []" "hd rest \<in> {CHR ''}'', CHR '']''}"
    and cs: "\<forall>t \<in> set cs. \<not> tok_open t" and room: "length pre + 1 + length cs + members_size (MCons x v ms) \<le> num"
    "num \<le> length pre + 1 + length cs + length us"
  let ?j = "int (length pre)" and ?p1 = "p + length x + 2" and ?p2 = "p + length x + 3"
  let ?ts = "pre @ open_tok b q k # cs"
  let ?key = "tok JSMN_STRING (p + 1) (p + 1 + length x)"
  let ?ts1 = "pre @ open_tok b q (k + 1) # cs @ [?key 0]"
  let ?cs = "cs @ ?key 1 # json_toks v ?p2"
  let ?ts2 = "pre @ open_tok b q (k + 1) # ?cs"
  let ?i = "int (length pre + 1 + length cs)"
  let ?rest = "(if ms = MNil then [] else '','' @ members_text ms) @ rest"
  have d0: "drop p js = quoted x @ '':'' @ json_text v @ ?rest" using d by simp
  have d1: "drop ?p1 js = CHR '':'' # json_text v @ ?rest"
    using drop_more [OF d0] by (simp add: quoted_def)
  have d2: "drop ?p2 js = json_text v @ ?rest"
    using drop_nth [OF d1] by (simp add: numeral_eq_Suc)
  have e: "ends ?rest" using rest by (auto simp: ends_def)
  have us: "us \<noteq> []" using room by auto
  have "jsmn_loop js num (parser p (length ?ts) ?j) (Some (?ts @ us)) count =
      jsmn_loop js num (parser ?p1 (length ?ts + 1) ?j) (Some (bump ?j 1 ?ts @ ?key 0 # tl us)) (count + 1)"
    by (rule loop_string [OF key d0]) (use room us in auto)
  also have "\<dots> = jsmn_loop js num (parser ?p2 (length ?ts1) ?i) (Some (?ts1 @ tl us)) (count + 1)"
    by (subst loop_colon [OF d1]) (simp add: bump_open numeral_eq_Suc)
  finally have keyed: "jsmn_loop js num (parser p (length ?ts) ?j) (Some (?ts @ us)) count =
      jsmn_loop js num (parser ?p2 (length ?ts1) ?i) (Some (?ts1 @ tl us)) (count + 1)" .
  have "top_open (pre @ open_tok b q (k + 1) # (cs @ [?key 0])) ?j"
    by (rule open_tok_top) (use cs in \<open>auto simp: tok_open_def\<close>)
  then have top1: "top_open ?ts1 ?j" by simp
  obtain up' where up': "up' = ?i \<or> up' = ?j" and
    one: "jsmn_loop js num (parser ?p2 (length ?ts1) ?i) (Some (?ts1 @ tl us)) (count + 1) =
     jsmn_loop js num (parser (?p2 + length (json_text v)) (length ?ts1 + json_size v) up')
       (Some (bump ?i 1 ?ts1 @ json_toks v ?p2 @ drop (json_size v) (tl us))) (count + 1 + int (json_size v))"
    by (rule value_parsedD [OF v d2 e _ _ top1, of num "tl us" ?i "count + 1"]) (use room us in \<open>auto simp: Suc_diff_le\<close>)
  have bumped: "bump ?i 1 ?ts1 @ json_toks v ?p2 = ?ts2"
    by (simp add: bump_def nth_append list_update_append nat_add_distrib)
  have cs': "\<forall>t \<in> set ?cs. \<not> tok_open t" using cs toks_closed(1) by (auto simp: tok_open_def)
  let ?p = "?p2 + length (json_text v)" and ?us = "drop (json_size v) (tl us)"
  have d3: "drop ?p js = ?rest" using drop_more [OF d2] .
  have two: "jsmn_loop js num (parser p (length ?ts) ?j) (Some (?ts @ us)) count =
      jsmn_loop js num (parser ?p (length ?ts2) up') (Some (?ts2 @ ?us)) (count + 1 + int (json_size v))"
    unfolding keyed one bumped [symmetric] by simp
  show "\<exists>up'.
       jsmn_loop js num (parser p (length pre + 1 + length cs) (int (length pre)))
         (Some ((pre @ open_tok b q k # cs) @ us)) count =
       jsmn_loop js num (parser (p + length (members_text (MCons x v ms)))
           (length pre + 1 + length cs + members_size (MCons x v ms)) up')
         (Some ((pre @ open_tok b q (k + members_count (MCons x v ms)) # cs @ members_toks (MCons x v ms) p) @
           drop (members_size (MCons x v ms)) us)) (count + int (members_size (MCons x v ms)))"
  proof (cases "ms = MNil")
    case True
    with two us show ?thesis
      by (intro exI [of _ up']) (simp add: quoted_def drop_Suc ac_simps numeral_eq_Suc)
  next
    case False
    have d4: "drop ?p js = CHR '','' # members_text ms @ rest" using d3 False by simp
    have "\<not> tok_container (?ts2 ! nat ?i)" by (simp add: nth_append nat_add_distrib tok_container_def)
    then have "jsmn_loop js num (parser ?p (length ?ts2) up') (Some (?ts2 @ ?us)) (count + 1 + int (json_size v)) =
        jsmn_loop js num (parser (?p + 1) (length ?ts2) ?j) (Some (?ts2 @ ?us)) (count + 1 + int (json_size v))"
      by (intro loop_comma [OF d4 open_tok_top [OF cs']]) (use up' in auto)
    moreover obtain up2 where
      "jsmn_loop js num (parser (?p + 1) (length pre + 1 + length ?cs) ?j) (Some (?ts2 @ ?us)) (count + 1 + int (json_size v)) =
       jsmn_loop js num (parser (?p + 1 + length (members_text ms)) (length pre + 1 + length ?cs + members_size ms) up2)
         (Some ((pre @ open_tok b q (k + 1 + members_count ms) # ?cs @ members_toks ms (?p + 1)) @ drop (members_size ms) ?us))
         (count + 1 + int (json_size v) + int (members_size ms))"
      by (rule content_parsedD [OF ms _ rest cs', of "?p + 1" js pre num ?us q "k + 1" "count + 1 + int (json_size v)"])
        (use room us drop_nth [OF d4] in auto)
    ultimately show ?thesis
      using two False us
      by (intro exI [of _ up2]) (simp add: quoted_def drop_Suc ac_simps numeral_eq_Suc)
  qed
qed

lemma content_parsed_Nil: "content_parsed b [] 0 0 (\<lambda>p. [])"
  by (auto simp: content_parsed_def)

lemma array_parsed:
  assumes "content_parsed CHR ''['' (elems_text vs) (elems_size vs) (elems_count vs) (elems_toks vs)"
  shows "value_parsed (JArr vs)"
proof (rule container_parsed [OF assms, where c = "CHR '']''"])
  show "\<And>p t. t \<in> set (elems_toks vs p) \<Longrightarrow> \<not> tok_open t" using toks_closed(2) by blast
qed (simp_all add: open_tok_def)

lemma object_parsed:
  assumes "content_parsed CHR ''{'' (members_text ms) (members_size ms) (members_count ms) (members_toks ms)"
  shows "value_parsed (JObj ms)"
proof (rule container_parsed [OF assms, where c = "CHR ''}''"])
  show "\<And>p t. t \<in> set (members_toks ms p) \<Longrightarrow> \<not> tok_open t" using toks_closed(3) by blast
qed (simp_all add: open_tok_def)

lemma document_parsed:
  "json_ok v \<Longrightarrow> value_parsed v"
  "elems_ok vs \<Longrightarrow> content_parsed CHR ''['' (elems_text vs) (elems_size vs) (elems_count vs) (elems_toks vs)"
  "members_ok ms \<Longrightarrow>
    content_parsed CHR ''{'' (members_text ms) (members_size ms) (members_count ms) (members_toks ms)"
proof (induction v and vs and ms)
  case ENil
  show ?case using content_parsed_Nil by (simp add: content_parsed_def)
next
  case MNil
  show ?case using content_parsed_Nil by (simp add: content_parsed_def)
next
  case (ECons v vs)
  then show ?case by (intro elems_parsed_Cons) simp_all
next
  case (MCons k v ms)
  then show ?case by (intro members_parsed_Cons) simp_all
qed (simp_all add: leaf_parsed primitive_parsed array_parsed object_parsed)

section \<open>Properties\<close>

lemma jsmn_parse_text:
  assumes ok: "json_ok v" and room: "json_size v \<le> num" "num \<le> length us"
  shows "\<exists>parser. jsmn_parse jsmn_init (json_text v) (Some us) num =
    Inr (int (json_size v), parser, Some (json_toks v 0 @ drop (json_size v) us))"
proof -
  have top: "top_open [] (-1)" by (simp add: top_open_def)
  obtain up' where l: "jsmn_loop (json_text v) num (parser 0 (length ([] :: jsmntok_t list)) (-1)) (Some ([] @ us)) 0 =
      jsmn_loop (json_text v) num (parser (0 + length (json_text v)) (length ([] :: jsmntok_t list) + json_size v) up')
        (Some (bump (-1) 1 [] @ json_toks v 0 @ drop (json_size v) us)) (0 + int (json_size v))"
    by (rule value_parsedD [OF document_parsed(1) [OF ok], of 0 "json_text v" "[]" "[]" num us "-1" "-1" 0])
      (use room top in \<open>auto simp: ends_def\<close>)
  have closed: "find_down tok_open (json_toks v 0 @ drop (json_size v) us) (0 + json_size v) = Inr None"
    using find_top_open [OF top_open_append [OF top toks_closed(1)], of tok_open v 0 "drop (json_size v) us"]
    by simp
  have "jsmn_loop (json_text v) num jsmn_init (Some us) 0 =
      Some (Inr (Inr (int (json_size v)), parser (length (json_text v)) (json_size v) up',
        Some (json_toks v 0 @ drop (json_size v) us)))"
    using l by (subst (asm) (2) jsmn_loop.simps) (simp add: jsmn_init_def bump_def)
  with closed show ?thesis by (simp add: jsmn_parse_def jsmn_init_def returns_def)
qed

text \<open>
  C9: the tokeniser refines the grammar. For every JSON document (nested arrays and objects of strings
  without escapes and of primitives), \<open>jsmn_parse\<close> on the document's text, with room for its tokens,
  returns the number of its tokens and has filled the array with exactly those: a token per value
  and per key with its kind, its span in the text and its number of children, in document order.
\<close>

theorem jsmn_parse_document:
  assumes "json_ok v" "json_size v \<le> num" "num \<le> length us"
  shows "\<exists>parser. jsmn_parse jsmn_init (json_text v) (Some us) num =
    Inr (int (json_size v), parser, Some (json_toks v 0 @ drop (json_size v) us))"
  using assms by (rule jsmn_parse_text)

theorem jsmn_parse_document_witness:
  "\<exists>parser. jsmn_parse jsmn_init
      (''{'' @ QUOTE # ''id'' @ QUOTE # '':1,'' @ QUOTE # ''a'' @ QUOTE # '':['' @ QUOTE # ''x'' @ QUOTE # '']}'')
      (Some (replicate 7 (tok JSMN_UNDEFINED 0 0 0))) 7 =
    Inr (6, parser, Some
     [tok JSMN_OBJECT 0 18 2, tok JSMN_STRING 2 4 1, tok JSMN_PRIMITIVE 6 7 0, tok JSMN_STRING 9 10 1,
      tok JSMN_ARRAY 12 17 1, tok JSMN_STRING 14 15 0, tok JSMN_UNDEFINED 0 0 0])"
proof -
  let ?v = "JObj (MCons ''id'' (JPrim ''1'') (MCons ''a'' (JArr (ECons (JStr ''x'') ENil)) MNil))"
  have "json_ok ?v"
    by (simp add: plain_def primitive_def structural_def NUL_def QUOTE_def BACKSLASH_def)
  from jsmn_parse_document [OF this, of 7 "replicate 7 (tok JSMN_UNDEFINED 0 0 0)"] show ?thesis
    by (simp add: quoted_def numeral_eq_Suc)
qed

end
