(* ===== verification/Web3.thy ===== *)
theory Web3
  imports Transaction UIntText JsmnPrint
begin

text \<open>
  \<open>eth/web3.c\<close>: JSON-RPC requests, printed piece by piece into the buffer of the context. Every piece
  is a printer from contexts to contexts; the requests are compared with the texts of JSON documents.
\<close>

section \<open>Definitions\<close>

text \<open>\<open>buf\<close> is \<open>None\<close> for NULL, otherwise the memory behind the pointer.\<close>

record web3_ctx_t =
  w_buf :: "string option"
  w_buf_size :: nat
  w_buf_used :: nat
  w_req_id :: u32

type_synonym printer = "web3_ctx_t \<Rightarrow> (int \<times> web3_ctx_t) outcome"

definition w_mem :: "web3_ctx_t \<Rightarrow> string" where
  "w_mem web3 = (case w_buf web3 of None \<Rightarrow> [] | Some mem \<Rightarrow> mem)"

text \<open>\<open>buf_size - buf_used\<close> in the type \<open>size_t\<close>: it wraps once \<open>buf_used\<close> is larger.\<close>

definition w_room :: "web3_ctx_t \<Rightarrow> nat" where
  "w_room web3 = nat ((int (w_buf_size web3) - int (w_buf_used web3)) mod 2 ^ 64)"

text \<open>
  \<open>vsnprintf\<close> writes at most \<open>n - 1\<close> characters and the terminator, nothing for \<open>n = 0\<close>, and returns
  the length of the whole text. \<open>text\<close> is the formatted text.
\<close>

definition vsnprintf :: "string \<Rightarrow> nat \<Rightarrow> nat \<Rightarrow> string \<Rightarrow> string outcome" where
  "vsnprintf mem off n text = (if n = 0 then Inr mem else write_at mem off (take (n - 1) text @ [NUL]))"

definition web3_printbuf :: "string \<Rightarrow> printer" where
  "web3_printbuf text web3 =
    bindE (vsnprintf (w_mem web3) (w_buf_used web3) (w_room web3) text) (\<lambda>mem.
    let size = length text; web3 = web3\<lparr>w_buf := Some mem\<rparr> in
    if size \<ge> w_buf_size web3 then Inr (-1, web3)
    else Inr (0, web3\<lparr>w_buf_used := w_buf_used web3 + size\<rparr>))"

text \<open>\<open>if(f(web3) < 0) { return -1; }\<close> before the rest, and a step left out.\<close>

definition ok_then :: "printer \<Rightarrow> printer \<Rightarrow> printer" where
  "ok_then f g web3 = bindE (f web3) (\<lambda>(ret, web3). if ret < 0 then Inr (-1, web3) else g web3)"

definition skip :: printer where
  "skip web3 = Inr (0, web3)"

definition show_int :: "int \<Rightarrow> string" where
  "show_int i = (if i < 0 then CHR ''-'' # digits 10 (nat (- i)) else digits 10 (nat i))"

text \<open>\<open>%x\<close> takes an \<open>unsigned int\<close>: the low half of the 64-bit argument.\<close>

definition web3_printhex :: "u64 \<Rightarrow> printer" where
  "web3_printhex val = web3_printbuf (QUOTE # ''0x'' @ digits 16 (unat (ucast val :: u32)) @ [QUOTE])"

definition web3_bintohex :: "u8 list option \<Rightarrow> nat \<Rightarrow> printer" where
  "web3_bintohex buf buf_size web3 =
    bindE (bintohex_nonull buf buf_size (drop (w_buf_used web3) (w_mem web3)) (w_room web3)) (\<lambda>(ret, out).
    Inr (ret, web3\<lparr>w_buf := Some (take (w_buf_used web3) (w_mem web3) @ out)\<rparr>))"

definition web3_printdata :: "u8 list option \<Rightarrow> nat \<Rightarrow> printer" where
  "web3_printdata buf buf_size web3 =
    (if buf_size \<ge> w_room web3 then Inr (-1, web3)
     else ok_then (web3_printbuf (QUOTE # ''0x'')) (\<lambda>web3.
       bindE (web3_bintohex buf buf_size web3) (\<lambda>(ret, web3).
       if ret < 0 then Inr (-1, web3)
       else web3_printbuf [QUOTE] (web3\<lparr>w_buf_used := w_buf_used web3 + nat ret\<rparr>))) web3)"

definition web3_printaddr :: "address_t \<Rightarrow> printer" where
  "web3_printaddr addr =
    ok_then (web3_printbuf (QUOTE # ''0x'')) (\<lambda>web3.
    bindE (web3_bintohex (Some (addr_a addr)) 20 web3) (\<lambda>(size, web3).
    if size < 0 then Inr (-1, web3)
    else if size < 40 then Inr (-1, web3)
    else web3_printbuf [QUOTE] (web3\<lparr>w_buf_used := w_buf_used web3 + nat size\<rparr>)))"

text \<open>\<open>outLength\<close> of \<open>tostring256\<close> has 32 bits; \<open>strlen\<close> reads up to the terminator it wrote.\<close>

definition web3_printuint256 :: "uint256_t \<Rightarrow> printer" where
  "web3_printuint256 val =
    ok_then (web3_printbuf (QUOTE # ''0x'')) (\<lambda>web3.
    bindE (tostring256 val 16 (drop (w_buf_used web3) (w_mem web3)) (of_nat (w_room web3))) (\<lambda>(ok, out).
    let web3 = web3\<lparr>w_buf := Some (take (w_buf_used web3) (w_mem web3) @ out)\<rparr> in
    if \<not> ok then Inr (-1, web3)
    else if NUL \<notin> set out then Inl Out_of_bounds
    else web3_printbuf [QUOTE] (web3\<lparr>w_buf_used := w_buf_used web3 + length (c_string out)\<rparr>)))"

definition TX_NO_FROM :: u8 where "TX_NO_FROM = push_bit 0 1"
definition TX_NO_GAS :: u8 where "TX_NO_GAS = push_bit 1 1"
definition TX_NO_GASPRICE :: u8 where "TX_NO_GASPRICE = push_bit 2 1"
definition TX_NO_VALUE :: u8 where "TX_NO_VALUE = push_bit 3 1"
definition TX_NO_DATA :: u8 where "TX_NO_DATA = push_bit 4 1"

definition web3_printtxparam :: "address_t \<Rightarrow> transaction_t \<Rightarrow> u8 \<Rightarrow> printer" where
  "web3_printtxparam from tx tx_flags =
    ok_then (web3_printbuf ''{'')
    (ok_then (web3_printbuf (quoted ''to'' @ '':''))
    (ok_then (web3_printaddr (tx_to tx))
    (ok_then (if tx_flags AND TX_NO_FROM = 0 then
        ok_then (web3_printbuf ('','' @ quoted ''from'' @ '':'')) (web3_printaddr from) else skip)
    (ok_then (if tx_flags AND TX_NO_GAS = 0 then
        ok_then (web3_printbuf ('','' @ quoted ''gas'' @ '':'')) (web3_printhex (ucast (tx_gas_limit tx))) else skip)
    (ok_then (if tx_flags AND TX_NO_GASPRICE = 0 then
        ok_then (web3_printbuf ('','' @ quoted ''gasPrice'' @ '':'')) (web3_printhex (ucast (tx_gas_price tx))) else skip)
    (ok_then (if tx_flags AND TX_NO_VALUE = 0 then
        ok_then (web3_printbuf ('','' @ quoted ''value'' @ '':'')) (web3_printuint256 (tx_value tx)) else skip)
    (ok_then (if tx_data tx \<noteq> None \<and> tx_data_len tx \<noteq> 0 \<and> tx_flags AND TX_NO_DATA = 0 then
        ok_then (web3_printbuf ('','' @ quoted ''data'' @ '':''))
          (web3_printdata (map_option snd (tx_data tx)) (tx_data_len tx)) else skip)
    (ok_then (web3_printbuf ''}'')
      (web3_printbuf ('','' @ quoted ''latest''))))))))))"

definition web3_resetbuf :: "web3_ctx_t \<Rightarrow> web3_ctx_t outcome" where
  "web3_resetbuf ctx =
    bindE (assertE (w_buf ctx \<noteq> None)) (\<lambda>_.
    bindE (assertE (w_buf_size ctx > 0)) (\<lambda>_.
    bindE (write_at (w_mem ctx) 0 (replicate (w_buf_size ctx) NUL)) (\<lambda>mem.
    Inr (ctx\<lparr>w_buf := Some mem, w_buf_used := 0\<rparr>))))"

definition web3_init :: "web3_ctx_t \<Rightarrow> string option \<Rightarrow> nat \<Rightarrow> web3_ctx_t outcome" where
  "web3_init web3 buf buf_size =
    web3_resetbuf (web3\<lparr>w_buf := buf, w_buf_size := buf_size, w_req_id := 0\<rparr>)"

text \<open>\<open>JSONRPC_HEADER\<close> formatted; \<open>%d\<close> reads the identifier as a signed number.\<close>

definition JSONRPC_HEADER :: "u32 \<Rightarrow> string \<Rightarrow> string" where
  "JSONRPC_HEADER req_id func =
    ''{'' @ quoted ''jsonrpc'' @ '':'' @ quoted ''2.0'' @ '','' @ quoted ''id'' @ '':'' @ show_int (sint req_id) @
    '','' @ quoted ''method'' @ '':'' @ quoted func @ '','' @ quoted ''params'' @ '':[''"

definition JSONRPC_TERMINATOR :: string where
  "JSONRPC_TERMINATOR = '']}''"

definition WEB3_PREAMBLE :: "string \<Rightarrow> printer \<Rightarrow> printer" where
  "WEB3_PREAMBLE func body web3 =
    bindE (web3_resetbuf web3) (\<lambda>web3.
    ok_then (web3_printbuf (JSONRPC_HEADER (w_req_id web3) func)) body web3)"

definition WEB3_TERMINATOR :: printer where
  "WEB3_TERMINATOR = web3_printbuf JSONRPC_TERMINATOR"

definition eth_getTransactionCount :: "address_t \<Rightarrow> printer" where
  "eth_getTransactionCount addr =
    WEB3_PREAMBLE ''eth_getTransactionCount''
      (ok_then (web3_printaddr addr) (ok_then (web3_printbuf ('','' @ quoted ''latest'')) WEB3_TERMINATOR))"

definition eth_blockNumber :: printer where
  "eth_blockNumber = WEB3_PREAMBLE ''eth_blockNumber'' WEB3_TERMINATOR"

definition eth_sendRawTransaction :: "u8 list option \<Rightarrow> nat \<Rightarrow> printer" where
  "eth_sendRawTransaction data data_len =
    WEB3_PREAMBLE ''eth_sendRawTransaction'' (ok_then (web3_printdata data data_len) WEB3_TERMINATOR)"

definition eth_getBalance :: "address_t \<Rightarrow> printer" where
  "eth_getBalance addr =
    WEB3_PREAMBLE ''eth_getBalance''
      (ok_then (web3_printaddr addr) (ok_then (web3_printbuf ('','' @ quoted ''latest'')) WEB3_TERMINATOR))"

definition eth_call :: "address_t \<Rightarrow> transaction_t \<Rightarrow> u8 \<Rightarrow> printer" where
  "eth_call from tx tx_flags =
    WEB3_PREAMBLE ''eth_call'' (ok_then (web3_printtxparam from tx tx_flags) WEB3_TERMINATOR)"

definition eth_estimateGas :: "address_t \<Rightarrow> transaction_t \<Rightarrow> printer" where
  "eth_estimateGas from tx =
    WEB3_PREAMBLE ''eth_estimateGas'' (ok_then (web3_printtxparam from tx 0) WEB3_TERMINATOR)"

record tx_hash_t =
  hash_h :: "u8 list"

definition eth_getTransactionReceipt :: "tx_hash_t \<Rightarrow> printer" where
  "eth_getTransactionReceipt tx_hash =
    WEB3_PREAMBLE ''eth_getTransactionReceipt''
      (ok_then (web3_printdata (Some (hash_h tx_hash)) 32) WEB3_TERMINATOR)"

section \<open>Printers\<close>

text \<open>
  The buffer holds \<open>text\<close>, and behind it the terminator; a printer \<open>prints\<close> a text when it appends
  it to what the buffer holds, provided there is room for it and the terminator, and changes
  nothing outside the buffer.
\<close>

definition web3_text :: "web3_ctx_t \<Rightarrow> string \<Rightarrow> bool" where
  "web3_text web3 text \<longleftrightarrow> w_buf web3 \<noteq> None \<and> w_buf_size web3 \<le> length (w_mem web3) \<and>
    take (length text) (w_mem web3) = text \<and> w_buf_used web3 = length text \<and>
    length text < w_buf_size web3 \<and> w_buf_size web3 < 2 ^ 32"

definition web3_holds :: "web3_ctx_t \<Rightarrow> string \<Rightarrow> bool" where
  "web3_holds web3 text \<longleftrightarrow> web3_text web3 text \<and> w_mem web3 ! length text = NUL"

definition web3_same :: "web3_ctx_t \<Rightarrow> web3_ctx_t \<Rightarrow> bool" where
  "web3_same web3 web3' \<longleftrightarrow> w_buf_size web3' = w_buf_size web3 \<and> w_req_id web3' = w_req_id web3 \<and>
    length (w_mem web3') = length (w_mem web3) \<and>
    drop (w_buf_size web3) (w_mem web3') = drop (w_buf_size web3) (w_mem web3)"

definition prints :: "printer \<Rightarrow> string \<Rightarrow> bool" where
  "prints f s \<longleftrightarrow> (\<forall>web3 text. web3_holds web3 text \<longrightarrow> length text + length s < w_buf_size web3 \<longrightarrow>
     (\<exists>web3'. f web3 = Inr (0, web3') \<and> web3_holds web3' (text @ s) \<and> web3_same web3 web3'))"

lemma w_mem_update [simp]:
  "w_mem (web3\<lparr>w_buf := Some mem\<rparr>) = mem"
  "w_mem (web3\<lparr>w_buf := Some mem, w_buf_used := n\<rparr>) = mem"
  "w_mem (web3\<lparr>w_buf_used := n\<rparr>) = w_mem web3"
  by (simp_all add: w_mem_def)

lemma web3_same_trans: "web3_same a b \<Longrightarrow> web3_same b c \<Longrightarrow> web3_same a c"
  by (simp add: web3_same_def)

lemma web3_room_text:
  assumes "web3_text web3 text"
  shows "w_room web3 = w_buf_size web3 - length text"
proof -
  have "0 \<le> int (w_buf_size web3) - int (length text)" "int (w_buf_size web3) - int (length text) < 2 ^ 64"
    using assms by (auto simp: web3_text_def)
  then show ?thesis using assms by (simp add: w_room_def web3_text_def)
qed

lemma take_write:
  assumes "off = length text" "take (length text) mem = text" "off + length s \<le> length mem"
  shows "take (off + length s) (take off mem @ s @ drop (off + length s) mem) = text @ s"
  using assms by simp

lemma prints_buf:
  assumes "web3_text web3 text" "length text + length s < w_buf_size web3"
  shows "\<exists>web3'. web3_printbuf s web3 = Inr (0, web3') \<and> web3_holds web3' (text @ s) \<and> web3_same web3 web3'"
proof -
  let ?mem = "w_mem web3" and ?n = "length text" and ?t = "s @ [NUL]"
  have m: "w_buf_size web3 \<le> length ?mem" "take ?n ?mem = text" "w_buf_used web3 = ?n"
      "w_buf_size web3 < 2 ^ 32"
    using assms(1) by (simp_all add: web3_text_def)
  let ?mem' = "text @ ?t @ drop (?n + length ?t) ?mem"
  have v: "vsnprintf ?mem (w_buf_used web3) (w_room web3) s = Inr ?mem'"
    using assms(2) m by (simp add: vsnprintf_def web3_room_text [OF assms(1)] write_at_def)
  have len: "length ?mem' = length ?mem" using assms(2) m(1) by simp
  let ?web3 = "web3\<lparr>w_buf := Some ?mem', w_buf_used := ?n + length s\<rparr>"
  have "web3_printbuf s web3 = Inr (0, ?web3)"
    using assms(2) m(3) unfolding web3_printbuf_def v by (simp add: Let_def)
  moreover have "web3_holds ?web3 (text @ s)"
    using assms(2) m(1,4) by (simp add: web3_holds_def web3_text_def nth_append)
  moreover have "drop (w_buf_size web3) ?mem' = drop (w_buf_size web3) ?mem"
    using assms(2) by (simp add: drop_Cons')
  then have "web3_same web3 ?web3" using len by (simp add: web3_same_def)
  ultimately show ?thesis by blast
qed

lemma printsI [intro]: "prints (web3_printbuf s) s"
  using prints_buf by (auto simp: prints_def web3_holds_def)

lemma prints_then [intro]:
  assumes "prints f s" "prints g t"
  shows "prints (ok_then f g) (s @ t)"
  unfolding prints_def
proof (intro allI impI)
  fix web3 xs assume h: "web3_holds web3 xs" and room: "length xs + length (s @ t) < w_buf_size web3"
  from room have "length xs + length s < w_buf_size web3" by simp
  with assms(1) h obtain web3' where f: "f web3 = Inr (0, web3')" "web3_holds web3' (xs @ s)" "web3_same web3 web3'"
    unfolding prints_def by blast
  from room f(3) have "length (xs @ s) + length t < w_buf_size web3'" by (simp add: web3_same_def)
  with assms(2) f(2) obtain web3'' where
    "g web3' = Inr (0, web3'')" "web3_holds web3'' ((xs @ s) @ t)" "web3_same web3' web3''"
    unfolding prints_def by blast
  with f web3_same_trans show "\<exists>web3'. ok_then f g web3 = Inr (0, web3') \<and> web3_holds web3' (xs @ s @ t) \<and> web3_same web3 web3'"
    by (auto simp: ok_then_def)
qed

lemma prints_skip [intro]: "prints skip []"
  by (auto simp: prints_def skip_def web3_same_def)

lemma prints_if [intro]: "(b \<Longrightarrow> prints f s) \<Longrightarrow> prints (if b then f else skip) (if b then s else [])"
  using prints_skip by simp

text \<open>Text put behind what the buffer holds by another routine, before \<open>buf_used\<close> moves over it.\<close>

lemma web3_fill:
  assumes "web3_text web3 xs" "length xs + length s < w_buf_size web3"
    "length (xs @ s @ r) = length (w_mem web3)"
    "drop (w_buf_size web3) (xs @ s @ r) = drop (w_buf_size web3) (w_mem web3)"
  shows "web3_text (web3\<lparr>w_buf := Some (xs @ s @ r), w_buf_used := length xs + length s\<rparr>) (xs @ s)"
    and "web3_same web3 (web3\<lparr>w_buf := Some (xs @ s @ r), w_buf_used := length xs + length s\<rparr>)"
  using assms by (simp_all add: web3_text_def web3_same_def)

lemma web3_bintohex_val:
  assumes h: "web3_text web3 xs" and bs: "0 < n" "n \<le> length bs" and room: "length xs + 2 * n < w_buf_size web3"
  shows "web3_bintohex (Some bs) n web3 = Inr (int (2 * n),
    web3\<lparr>w_buf := Some (xs @ hex_text (take n bs) @ drop (length xs + 2 * n) (w_mem web3))\<rparr>)"
proof -
  have m: "w_buf_used web3 = length xs" "take (length xs) (w_mem web3) = xs" "w_buf_size web3 \<le> length (w_mem web3)"
    using h by (simp_all add: web3_text_def)
  have "bintohex_nonull (Some bs) n (drop (length xs) (w_mem web3)) (w_room web3) =
      Inr (int (2 * n), hex_text (take n bs) @ drop (2 * n) (drop (length xs) (w_mem web3)))"
    by (rule bintohex_nonull_take [OF bs]) (use room m web3_room_text [OF h] in auto)
  with m show ?thesis by (simp add: web3_bintohex_def add.commute)
qed

lemma drop_fill: "length a \<le> k \<Longrightarrow> drop k (a @ drop (length a) m) = drop k m"
  by simp

text \<open>A quoted text whose middle part comes from \<open>bintohex_nonull\<close>.\<close>

lemma quoted_hex:
  assumes h: "web3_holds web3 xs" and bs: "0 < n" "n \<le> length bs"
    and room: "length xs + (3 + 2 * n + 1) < w_buf_size web3"
  shows "\<exists>web3' web3''. web3_printbuf (QUOTE # ''0x'') web3 = Inr (0, web3') \<and>
    web3_bintohex (Some bs) n web3' = Inr (int (2 * n), web3'') \<and>
    (\<exists>web3'''. web3_printbuf [QUOTE] (web3''\<lparr>w_buf_used := w_buf_used web3'' + 2 * n\<rparr>) = Inr (0, web3''') \<and>
      web3_holds web3''' (xs @ quoted (''0x'' @ hex_text (take n bs))) \<and> web3_same web3 web3''')"
proof -
  let ?xs = "xs @ QUOTE # ''0x''" and ?s = "hex_text (take n bs)"
  obtain web3' where p: "web3_printbuf (QUOTE # ''0x'') web3 = Inr (0, web3')" "web3_text web3' ?xs" "web3_same web3 web3'"
    using prints_buf [of web3 xs "QUOTE # ''0x''"] h room by (auto simp: web3_holds_def)
  let ?r = "drop (length ?xs + 2 * n) (w_mem web3')"
  let ?web3 = "web3'\<lparr>w_buf := Some (?xs @ ?s @ ?r), w_buf_used := length ?xs + length ?s\<rparr>"
  have len: "length ?s = 2 * n" using bs(2) by simp
  have size: "w_buf_size web3' = w_buf_size web3" using p(3) by (simp add: web3_same_def)
  have mem: "w_buf_size web3' \<le> length (w_mem web3')" "w_buf_used web3' = length ?xs"
    using p(2) by (simp_all add: web3_text_def)
  have b: "web3_bintohex (Some bs) n web3' = Inr (int (2 * n), web3'\<lparr>w_buf := Some (?xs @ ?s @ ?r)\<rparr>)"
    by (rule web3_bintohex_val [OF p(2) bs]) (use room size in simp)
  have l: "length ?xs + length ?s < w_buf_size web3'" "length (?xs @ ?s @ ?r) = length (w_mem web3')"
    using room size len mem(1) by simp_all
  moreover have "drop (w_buf_size web3') (?xs @ ?s @ ?r) = drop (w_buf_size web3') (w_mem web3')"
    using drop_fill [of "?xs @ ?s" "w_buf_size web3'" "w_mem web3'"] l(1) len by (simp del: length_hex_text)
  ultimately have fill: "web3_text ?web3 (?xs @ ?s)" "web3_same web3' ?web3"
    using web3_fill [OF p(2), of ?s ?r] by blast+
  obtain web3''' where q: "web3_printbuf [QUOTE] ?web3 = Inr (0, web3''')" "web3_holds web3''' ((?xs @ ?s) @ [QUOTE])"
      "web3_same ?web3 web3'''"
    using prints_buf [OF fill(1), of "[QUOTE]"] room size len by auto
  have "web3_same web3 web3'''" using web3_same_trans [OF web3_same_trans [OF p(3) fill(2)] q(3)] .
  with p b q len mem show ?thesis by (auto simp: quoted_def)
qed

lemma prints_data [intro]:
  assumes "0 < n" "n \<le> length bs"
  shows "prints (web3_printdata (Some bs) n) (quoted (''0x'' @ hex_text (take n bs)))"
  unfolding prints_def
proof (intro allI impI)
  fix web3 xs assume h: "web3_holds web3 xs" and room: "length xs + length (quoted (''0x'' @ hex_text (take n bs))) < w_buf_size web3"
  have r: "length xs + (3 + 2 * n + 1) < w_buf_size web3" using room assms(2) by (simp add: quoted_def)
  have "\<not> w_room web3 \<le> n" using r web3_room_text [of web3 xs] h by (simp add: web3_holds_def)
  with quoted_hex [OF h assms r]
  show "\<exists>web3'. web3_printdata (Some bs) n web3 = Inr (0, web3') \<and>
      web3_holds web3' (xs @ quoted (''0x'' @ hex_text (take n bs))) \<and> web3_same web3 web3'"
    by (auto simp: web3_printdata_def ok_then_def nat_mult_distrib)
qed

lemma prints_addr [intro]:
  assumes "length (addr_a addr) = 20"
  shows "prints (web3_printaddr addr) (quoted (''0x'' @ hex_text (addr_a addr)))"
  unfolding prints_def
proof (intro allI impI)
  fix web3 xs assume h: "web3_holds web3 xs" and room: "length xs + length (quoted (''0x'' @ hex_text (addr_a addr))) < w_buf_size web3"
  have r: "length xs + (3 + 2 * 20 + 1) < w_buf_size web3" using room assms by (simp add: quoted_def)
  have "0 < (20 :: nat)" "20 \<le> length (addr_a addr)" using assms by simp_all
  from quoted_hex [OF h this r] assms
  show "\<exists>web3'. web3_printaddr addr web3 = Inr (0, web3') \<and>
      web3_holds web3' (xs @ quoted (''0x'' @ hex_text (addr_a addr))) \<and> web3_same web3 web3'"
    by (auto simp: web3_printaddr_def ok_then_def)
qed

lemma prints_uint256 [intro]: "prints (web3_printuint256 val) (quoted (''0x'' @ digits 16 (val256 val)))"
  unfolding prints_def
proof (intro allI impI)
  fix web3 xs
  let ?ds = "digits 16 (val256 val)" and ?xs = "xs @ QUOTE # ''0x''"
  assume h: "web3_holds web3 xs" and room: "length xs + length (quoted (''0x'' @ ?ds)) < w_buf_size web3"
  have r: "length ?xs + length ?ds + 1 < w_buf_size web3" using room by (simp add: quoted_def)
  obtain web3' where p: "web3_printbuf (QUOTE # ''0x'') web3 = Inr (0, web3')" "web3_text web3' ?xs" "web3_same web3 web3'"
    using prints_buf [of web3 xs "QUOTE # ''0x''"] h r by (auto simp: web3_holds_def)
  have size: "w_buf_size web3' = w_buf_size web3" using p(3) by (simp add: web3_same_def)
  have mem: "w_buf_size web3' \<le> length (w_mem web3')" "w_buf_used web3' = length ?xs"
      "take (length ?xs) (w_mem web3') = ?xs" "w_buf_size web3' < 2 ^ 32"
    using p(2) by (simp_all add: web3_text_def)
  let ?r = "CHR 0x00 # drop (length ?xs + length ?ds + 1) (w_mem web3')"
  let ?out = "?ds @ ?r"
  have room': "unat (of_nat (w_room web3') :: u32) = w_buf_size web3 - length ?xs"
    using web3_room_text [OF p(2)] mem(4) size by (simp add: unat_of_nat)
  have u16: "unat (16 :: u32) = 16" by (simp only: unat_numeral) simp
  have t: "tostring256 val 16 (drop (w_buf_used web3') (w_mem web3')) (of_nat (w_room web3')) = Inr (True, ?out)"
    using tostring256_digits [of 16 val "of_nat (w_room web3')" "drop (length ?xs) (w_mem web3')", unfolded u16]
      room' r mem(1,2) size by (simp add: ac_simps)
  have nul: "NUL \<in> set ?out" "c_string ?out = ?ds"
    using c_string_terminated [OF digits_no_nul] by (simp_all add: NUL_def)
  let ?web3 = "web3'\<lparr>w_buf := Some (?xs @ ?ds @ ?r), w_buf_used := length ?xs + length ?ds\<rparr>"
  have l: "length ?xs + length ?ds < w_buf_size web3'" "length (?xs @ ?ds @ ?r) = length (w_mem web3')"
    using r size mem(1) by simp_all
  moreover have "drop (w_buf_size web3') (?xs @ ?ds @ ?r) = drop (w_buf_size web3') (w_mem web3')"
    using drop_fill [of "?xs @ ?ds @ [CHR 0x00]" "w_buf_size web3'" "w_mem web3'"] r size by simp
  ultimately have fill: "web3_text ?web3 (?xs @ ?ds)" "web3_same web3' ?web3"
    using web3_fill [OF p(2), of ?ds ?r] by blast+
  obtain web3'' where q: "web3_printbuf [QUOTE] ?web3 = Inr (0, web3'')" "web3_holds web3'' ((?xs @ ?ds) @ [QUOTE])"
      "web3_same ?web3 web3''"
    using prints_buf [OF fill(1), of "[QUOTE]"] r size by auto
  have "web3_printuint256 val web3 = web3_printbuf [QUOTE] ?web3"
    using p(1) t nul mem(2,3) by (simp add: web3_printuint256_def ok_then_def Let_def)
  moreover have "web3_same web3 web3''"
    using web3_same_trans [OF web3_same_trans [OF p(3) fill(2)] q(3)] .
  ultimately show "\<exists>web3'. web3_printuint256 val web3 = Inr (0, web3') \<and>
      web3_holds web3' (xs @ quoted (''0x'' @ ?ds)) \<and> web3_same web3 web3'"
    using q by (simp add: quoted_def)
qed

lemma prints_hex [intro]:
  "prints (web3_printhex val) (quoted (''0x'' @ digits 16 (unat val mod 2 ^ 32)))"
  using printsI [of "quoted (''0x'' @ digits 16 (unat (ucast val :: u32)))"]
  by (simp add: web3_printhex_def quoted_def unsigned_ucast_eq take_bit_eq_mod)

section \<open>Requests as JSON documents\<close>

fun elems :: "json list \<Rightarrow> elems" where
  "elems [] = ENil"
| "elems (v # vs) = ECons v (elems vs)"

lemma elems_ENil [simp]: "elems vs = ENil \<longleftrightarrow> vs = []"
  by (cases vs) simp_all

definition hex_json :: "u8 list \<Rightarrow> json" where
  "hex_json bs = JStr (''0x'' @ hex_text bs)"

definition num_json :: "nat \<Rightarrow> json" where
  "num_json n = JStr (''0x'' @ digits 16 n)"

definition request :: "string \<Rightarrow> u32 \<Rightarrow> json list \<Rightarrow> json" where
  "request func ident params = JObj (members_of
    [(''jsonrpc'', JStr ''2.0''), (''id'', JPrim (show_int (sint ident))), (''method'', JStr func),
     (''params'', JArr (elems params))])"

text \<open>The call object: the fields the flags leave in it.\<close>

definition call_fields :: "address_t \<Rightarrow> transaction_t \<Rightarrow> u8 \<Rightarrow> field list" where
  "call_fields from tx flags = (''to'', hex_json (addr_a (tx_to tx))) #
    (if flags AND TX_NO_FROM = 0 then [(''from'', hex_json (addr_a from))] else []) @
    (if flags AND TX_NO_GAS = 0 then [(''gas'', num_json (unat (tx_gas_limit tx)))] else []) @
    (if flags AND TX_NO_GASPRICE = 0 then [(''gasPrice'', num_json (unat (tx_gas_price tx)))] else []) @
    (if flags AND TX_NO_VALUE = 0 then [(''value'', num_json (val256 (tx_value tx)))] else []) @
    (case tx_data tx of None \<Rightarrow> []
     | Some (_, content) \<Rightarrow>
         if tx_data_len tx \<noteq> 0 \<and> flags AND TX_NO_DATA = 0
         then [(''data'', hex_json (take (tx_data_len tx) content))] else [])"

definition web3_ready :: "web3_ctx_t \<Rightarrow> bool" where
  "web3_ready web3 \<longleftrightarrow> w_buf web3 \<noteq> None \<and> 0 < w_buf_size web3 \<and>
    w_buf_size web3 \<le> length (w_mem web3) \<and> w_buf_size web3 < 2 ^ 32"

text \<open>A builder writes a request: whatever the buffer held, with enough room it holds the text of the document.\<close>

definition writes_request :: "printer \<Rightarrow> string \<Rightarrow> json list \<Rightarrow> bool" where
  "writes_request f func params \<longleftrightarrow> (\<forall>web3. web3_ready web3 \<longrightarrow>
     length (json_text (request func (w_req_id web3) params)) < w_buf_size web3 \<longrightarrow>
     (\<exists>web3'. f web3 = Inr (0, web3') \<and> web3_same web3 web3' \<and>
       web3_holds web3' (json_text (request func (w_req_id web3) params))))"

definition field_text :: "field \<Rightarrow> string" where
  "field_text kv = quoted (fst kv) @ '':'' @ json_text (snd kv)"

lemma members_text_fields:
  "members_text (members_of (kv # kvs)) = field_text kv @ concat (map (\<lambda>kv. '','' @ field_text kv) kvs)"
proof (induction kvs arbitrary: kv)
  case Nil
  show ?case by (cases kv) (simp add: field_text_def)
next
  case (Cons kv' kvs)
  show ?case using Cons [of kv'] by (cases kv) (simp add: field_text_def del: members_of.simps(2) add: members_of.simps(2) [of _ _ "kv' # kvs"])
qed

lemma request_text:
  "json_text (request func ident params) = JSONRPC_HEADER ident func @ elems_text (elems params) @ JSONRPC_TERMINATOR"
  by (simp add: request_def JSONRPC_HEADER_def JSONRPC_TERMINATOR_def)

lemma resetbuf_holds:
  assumes "web3_ready web3"
  shows "\<exists>web3'. web3_resetbuf web3 = Inr web3' \<and> web3_holds web3' [] \<and> web3_same web3 web3'"
  using assms
  by (auto simp: web3_resetbuf_def web3_ready_def web3_holds_def web3_text_def web3_same_def write_at_def nth_append)

lemma writes_requestI:
  assumes "prints body (elems_text (elems params))"
  shows "writes_request (WEB3_PREAMBLE func (ok_then body WEB3_TERMINATOR)) func params"
  unfolding writes_request_def
proof (intro allI impI)
  fix web3 assume ready: "web3_ready web3"
  let ?doc = "json_text (request func (w_req_id web3) params)"
  assume room: "length ?doc < w_buf_size web3"
  obtain web3' where r: "web3_resetbuf web3 = Inr web3'" "web3_holds web3' []" "web3_same web3 web3'"
    using resetbuf_holds [OF ready] by blast
  have id: "w_req_id web3' = w_req_id web3" "w_buf_size web3' = w_buf_size web3"
    using r(3) by (simp_all add: web3_same_def)
  have "prints (ok_then (web3_printbuf (JSONRPC_HEADER (w_req_id web3) func)) (ok_then body WEB3_TERMINATOR)) ?doc"
    unfolding request_text WEB3_TERMINATOR_def using assms by (intro prints_then printsI)
  then obtain web3'' where "ok_then (web3_printbuf (JSONRPC_HEADER (w_req_id web3) func)) (ok_then body WEB3_TERMINATOR) web3' = Inr (0, web3'')"
      "web3_holds web3'' ?doc" "web3_same web3' web3''"
    using r(2) room id(2) unfolding prints_def by fastforce
  with r id web3_same_trans [OF r(3)] show "\<exists>web3'. WEB3_PREAMBLE func (ok_then body WEB3_TERMINATOR) web3 = Inr (0, web3') \<and>
      web3_same web3 web3' \<and> web3_holds web3' ?doc"
    by (auto simp: WEB3_PREAMBLE_def)
qed

text \<open>Printers are put together in any order of brackets.\<close>

lemma ok_then_assoc: "ok_then (ok_then f g) h = ok_then f (ok_then g h)"
  by (auto simp: ok_then_def bindE_def fun_eq_iff split: sum.splits)

lemma concat_if: "concat (map f (if b then [x] else [])) = (if b then f x else [])"
  by simp

lemma prints_field:
  assumes "prints f (json_text v)"
  shows "prints (ok_then (web3_printbuf ('','' @ quoted k @ '':'')) f) ('','' @ field_text (k, v))"
  using prints_then [OF printsI [of "'','' @ quoted k @ '':''"] assms] by (simp add: field_text_def)

text \<open>The call object printed by \<open>__web3_printtxparam\<close>.\<close>

definition tx_ok :: "transaction_t \<Rightarrow> bool" where
  "tx_ok tx \<longleftrightarrow> length (addr_a (tx_to tx)) = 20 \<and>
    (case tx_data tx of None \<Rightarrow> True | Some (_, content) \<Rightarrow> tx_data_len tx \<le> length content)"

lemma prints_eq: "prints f s \<Longrightarrow> s = t \<Longrightarrow> prints f t"
  by simp

lemma prints_num: "prints (web3_printhex (ucast (v :: u32))) (json_text (num_json (unat v)))"
proof -
  have "unat (ucast v :: u64) mod 2 ^ 32 = unat v"
    using unat_less_2p [of v] by (simp add: unsigned_ucast_eq take_bit_eq_mod)
  then show ?thesis using prints_hex [of "ucast v"] by (simp add: num_json_def)
qed

lemma prints_txparam:
  assumes "tx_ok tx" "length (addr_a from) = 20"
  shows "prints (web3_printtxparam from tx flags)
    (elems_text (elems [JObj (members_of (call_fields from tx flags)), JStr ''latest'']))"
proof -
  let ?f = "\<lambda>kv. '','' @ field_text kv"
  have data: "prints (if tx_data tx \<noteq> None \<and> tx_data_len tx \<noteq> 0 \<and> flags AND TX_NO_DATA = 0 then
        ok_then (web3_printbuf ('','' @ quoted ''data'' @ '':''))
          (web3_printdata (map_option snd (tx_data tx)) (tx_data_len tx)) else skip)
      (concat (map ?f (case tx_data tx of None \<Rightarrow> [] | Some (_, content) \<Rightarrow>
         if tx_data_len tx \<noteq> 0 \<and> flags AND TX_NO_DATA = 0
         then [(''data'', hex_json (take (tx_data_len tx) content))] else [])))"
  proof (cases "tx_data tx")
    case None
    then show ?thesis using prints_skip by simp
  next
    case (Some p)
    obtain a content where p: "p = (a, content)" by (cases p)
    have "prints (web3_printdata (Some content) (tx_data_len tx)) (json_text (hex_json (take (tx_data_len tx) content)))"
      if "tx_data_len tx \<noteq> 0"
      using prints_data [of "tx_data_len tx" content] that assms(1) Some p by (simp add: tx_ok_def hex_json_def)
    from prints_field [OF this] show ?thesis using Some p prints_skip by simp
  qed
  have addr: "prints (web3_printaddr a) (json_text (hex_json (addr_a a)))" if "length (addr_a a) = 20" for a
    using prints_addr [OF that] by (simp add: hex_json_def)
  have val: "prints (web3_printuint256 v) (json_text (num_json (val256 v)))" for v
    using prints_uint256 [of v] by (simp add: num_json_def)
  have to: "length (addr_a (tx_to tx)) = 20" using assms(1) by (simp add: tx_ok_def)
  have "prints (web3_printtxparam from tx flags)
    (''{'' @ (quoted ''to'' @ '':'') @ json_text (hex_json (addr_a (tx_to tx))) @
     (if flags AND TX_NO_FROM = 0 then ?f (''from'', hex_json (addr_a from)) else []) @
     (if flags AND TX_NO_GAS = 0 then ?f (''gas'', num_json (unat (tx_gas_limit tx))) else []) @
     (if flags AND TX_NO_GASPRICE = 0 then ?f (''gasPrice'', num_json (unat (tx_gas_price tx))) else []) @
     (if flags AND TX_NO_VALUE = 0 then ?f (''value'', num_json (val256 (tx_value tx))) else []) @
     concat (map ?f (case tx_data tx of None \<Rightarrow> [] | Some (_, content) \<Rightarrow>
         if tx_data_len tx \<noteq> 0 \<and> flags AND TX_NO_DATA = 0
         then [(''data'', hex_json (take (tx_data_len tx) content))] else [])) @
     ''}'' @ '','' @ quoted ''latest'')"
    unfolding web3_printtxparam_def
    by (intro prints_then printsI prints_if prints_field addr to assms(2) prints_num val data)
  then show ?thesis
    by (rule prints_eq)
      (simp add: call_fields_def members_text_fields field_text_def concat_if del: members_of.simps(2))
qed

lemma printed_address:
  assumes "length (addr_a addr) = 20"
  shows "prints (ok_then (web3_printaddr addr) (web3_printbuf ('','' @ quoted ''latest'')))
    (elems_text (elems [hex_json (addr_a addr), JStr ''latest'']))"
  using prints_then [OF prints_addr [OF assms] printsI [of "'','' @ quoted ''latest''"]]
  by (simp add: hex_json_def)

lemma printed_data:
  assumes "0 < n" "n \<le> length data"
  shows "prints (web3_printdata (Some data) n) (elems_text (elems [hex_json (take n data)]))"
  using prints_data [OF assms] by (simp add: hex_json_def)

lemma writes_address:
  assumes "length (addr_a addr) = 20"
  shows "writes_request (WEB3_PREAMBLE func
    (ok_then (web3_printaddr addr) (ok_then (web3_printbuf ('','' @ quoted ''latest'')) WEB3_TERMINATOR)))
    func [hex_json (addr_a addr), JStr ''latest'']"
  using writes_requestI [OF printed_address [OF assms], of func] by (simp add: ok_then_assoc)

lemma writes_blockNumber: "writes_request eth_blockNumber ''eth_blockNumber'' []"
proof -
  have "ok_then skip f = f" for f by (simp add: ok_then_def skip_def fun_eq_iff)
  then show ?thesis
    using writes_requestI [of skip "[]" "''eth_blockNumber''"] prints_skip by (simp add: eth_blockNumber_def)
qed

text \<open>The buffer overrun: the length of a piece is compared with the size of the whole buffer.\<close>

lemma overrun_printbuf:
  assumes "web3_text web3 xs" "w_buf_size web3 < length xs + length s" "length s < w_buf_size web3"
    "length (w_mem web3) = w_buf_size web3"
  shows "\<exists>web3'. web3_printbuf s web3 = Inr (0, web3') \<and> w_buf_used web3' = length xs + length s \<and>
    w_buf_size web3' = w_buf_size web3 \<and> length (w_mem web3') = w_buf_size web3"
proof -
  let ?n = "w_buf_size web3 - length xs"
  have m: "w_buf_used web3 = length xs" "0 < ?n" using assms(1) by (simp_all add: web3_text_def)
  have t: "length (take (?n - 1) s @ [NUL]) = ?n" using assms(2) m(2) by simp
  have "\<exists>mem. vsnprintf (w_mem web3) (w_buf_used web3) (w_room web3) s = Inr mem \<and> length mem = length (w_mem web3)"
    using m t assms(1,4) web3_room_text [OF assms(1)]
    by (intro exI [of _ "take (length xs) (w_mem web3) @ (take (?n - 1) s @ [NUL]) @ drop (length xs + ?n) (w_mem web3)"])
      (simp add: vsnprintf_def write_at_def web3_text_def)
  with assms(3,4) m show ?thesis by (auto simp: web3_printbuf_def Let_def)
qed

lemma overrun_next:
  assumes "w_buf_size web3 < w_buf_used web3" "w_buf_used web3 < 2 ^ 33" "length s < 2 ^ 32"
    "length (w_mem web3) = w_buf_size web3"
  shows "web3_printbuf s web3 = Inl Out_of_bounds"
proof -
  have "(int (w_buf_size web3) - int (w_buf_used web3)) mod 2 ^ 64 =
      (int (w_buf_size web3) - int (w_buf_used web3) + 2 ^ 64) mod 2 ^ 64"
    by simp
  also have "\<dots> = int (w_buf_size web3) - int (w_buf_used web3) + 2 ^ 64"
    using assms(1,2) by (intro mod_pos_pos_trivial) simp_all
  finally have "length s < w_room web3" using assms(2,3) by (simp add: w_room_def nat_less_iff)
  then have "vsnprintf (w_mem web3) (w_buf_used web3) (w_room web3) s = Inl Out_of_bounds"
    using assms(1,4) by (simp add: vsnprintf_def write_at_def)
  then show ?thesis by (simp add: web3_printbuf_def)
qed

text \<open>The documents are within the grammar of the tokeniser.\<close>

lemma HEXDIGITS_chars: "c \<in> set HEXDIGITS \<Longrightarrow> 48 \<le> code c \<and> code c \<le> 102 \<and> c \<notin> structural \<and> c \<noteq> BACKSLASH"
  by (auto simp: HEXDIGITS_def structural_def QUOTE_def BACKSLASH_def)

lemma digits_chars: "2 \<le> b \<Longrightarrow> b \<le> 16 \<Longrightarrow> set (digits b n) \<subseteq> set HEXDIGITS"
proof (induction b n rule: digits.induct)
  case (1 b n)
  have m: "n mod b < 16" using 1(2,3) mod_less_divisor [of b n] by linarith
  have len: "length HEXDIGITS = 16" by (simp add: HEXDIGITS_def)
  show ?case
  proof (cases "n < b")
    case True
    with 1(3) len show ?thesis by (simp add: digits_less)
  next
    case False
    with 1 m len show ?thesis by (simp add: digits_ge)
  qed
qed

lemma primitive_show_int: "primitive (show_int i)"
proof -
  have d: "32 < code c \<and> code c < 127 \<and> c \<notin> structural" if "c \<in> set (digits 10 n)" for c n
    using digits_chars [of 10 n] HEXDIGITS_chars [of c] that by auto
  moreover have "digits 10 n \<noteq> []" for n using length_digits_pos [of 10 n] by auto
  moreover have "CHR ''-'' \<notin> structural" by (simp add: structural_def QUOTE_def)
  ultimately show ?thesis by (auto simp: primitive_def show_int_def)
qed

lemma plain_hex_text: "plain (''0x'' @ hex_text bs)"
proof -
  have "set (hex_text bs) \<subseteq> set HEXDIGITS"
  proof (induction bs)
    case (Cons b bs)
    have "HEX ! n \<in> set HEXDIGITS" if "n < 16" for n
      using that nth_mem [of n HEX] by (simp add: HEX_def HEXDIGITS_def)
    with Cons nibbles(1,2) [of b] show ?case by simp
  qed simp
  then have "c \<noteq> NUL \<and> c \<noteq> QUOTE \<and> c \<noteq> BACKSLASH" if "c \<in> set (hex_text bs)" for c
    using HEXDIGITS_chars [of c] not_structural [of c] that code_eqs(1) by auto
  then show ?thesis by (auto simp: plain_def NUL_def QUOTE_def BACKSLASH_def)
qed

section \<open>Properties\<close>

text \<open>
  C15: the requests are JSON-RPC documents. With room in the buffer for the document and its
  terminator, each builder returns 0 and leaves in the buffer exactly the text of the document with
  version, identifier, method and parameters, whatever the buffer held; memory outside the buffer and
  the identifier are untouched.
\<close>

theorem web3_requests:
  assumes "length (addr_a addr) = 20" "0 < n" "n \<le> length data" "length h = 32"
  shows "writes_request (eth_getTransactionCount addr) ''eth_getTransactionCount'' [hex_json (addr_a addr), JStr ''latest''] \<and>
    writes_request (eth_getBalance addr) ''eth_getBalance'' [hex_json (addr_a addr), JStr ''latest''] \<and>
    writes_request eth_blockNumber ''eth_blockNumber'' [] \<and>
    writes_request (eth_sendRawTransaction (Some data) n) ''eth_sendRawTransaction'' [hex_json (take n data)] \<and>
    writes_request (eth_getTransactionReceipt \<lparr>hash_h = h\<rparr>) ''eth_getTransactionReceipt'' [hex_json h]"
  using writes_address [OF assms(1)] writes_blockNumber writes_requestI [OF printed_data [OF assms(2,3)]]
    writes_requestI [OF printed_data [of 32 h]] assms(4)
  by (simp add: eth_getTransactionCount_def eth_getBalance_def eth_sendRawTransaction_def
      eth_getTransactionReceipt_def)

theorem web3_requests_witness:
  "writes_request (eth_sendRawTransaction (Some [0xf8, 0x6b, 0]) 2) ''eth_sendRawTransaction'' [JStr ''0xf86b'']"
proof -
  have "hex_json (take 2 [0xf8, 0x6b, 0]) = JStr ''0xf86b''"
    by (simp add: hex_json_def hex_text_def HEX_def)
  with web3_requests [of "\<lparr>addr_a = replicate 20 0\<rparr>" 2 "[0xf8, 0x6b, 0]" "replicate 32 0"] show ?thesis
    by simp
qed

text \<open>
  C16: the call object of \<open>eth_call\<close> and \<open>eth_estimateGas\<close>. With room, the parameters are the object
  with the recipient and exactly the fields the flags leave in (sender, gas, gas price, value, and
  the data when there is any), then \<open>latest\<close>.
\<close>

theorem web3_call_requests:
  assumes "tx_ok tx" "length (addr_a from) = 20"
  shows "writes_request (eth_call from tx flags) ''eth_call''
      [JObj (members_of (call_fields from tx flags)), JStr ''latest''] \<and>
    writes_request (eth_estimateGas from tx) ''eth_estimateGas''
      [JObj (members_of (call_fields from tx 0)), JStr ''latest'']"
  unfolding eth_call_def eth_estimateGas_def
  by (intro conjI writes_requestI prints_txparam assms)

theorem web3_call_requests_witness:
  "writes_request (eth_call \<lparr>addr_a = replicate 20 0\<rparr>
      \<lparr>tx_nonce = 0, tx_gas_price = 0, tx_gas_limit = 0, tx_to = \<lparr>addr_a = replicate 20 1\<rparr>, tx_value = clear256,
       tx_data = Some (64, [0xab, 0]), tx_data_len = 1\<rparr> 0xF) ''eth_call''
    [JObj (MCons ''to'' (hex_json (replicate 20 1)) (MCons ''data'' (hex_json [0xab]) MNil)), JStr ''latest'']"
proof -
  let ?tx = "\<lparr>tx_nonce = 0, tx_gas_price = 0, tx_gas_limit = 0, tx_to = \<lparr>addr_a = replicate 20 1\<rparr>, tx_value = clear256,
       tx_data = Some (64, [0xab, 0]), tx_data_len = 1\<rparr>"
  have ok: "tx_ok ?tx" by (simp add: tx_ok_def)
  have "members_of (call_fields \<lparr>addr_a = replicate 20 0\<rparr> ?tx 0xF) =
      MCons ''to'' (hex_json (replicate 20 1)) (MCons ''data'' (hex_json [0xab]) MNil)"
    by (simp add: call_fields_def TX_NO_FROM_def TX_NO_GAS_def TX_NO_GASPRICE_def TX_NO_VALUE_def TX_NO_DATA_def)
  with web3_call_requests [OF ok, of "\<lparr>addr_a = replicate 20 0\<rparr>" "0xF"] show ?thesis by simp
qed

text \<open>
  A request that does not fit. When the buffer ends within the last parameter of \<open>eth_getBalance\<close>,
  the truncation is taken for success, \<open>buf_used\<close> passes the end, the room wraps around, and the
  terminator is written outside the buffer.
\<close>

lemma web3_getBalance_overrun:
  assumes "length (addr_a addr) = 20" "web3_ready web3" "length (w_mem web3) = w_buf_size web3"
    and "h = length (JSONRPC_HEADER (w_req_id web3) ''eth_getBalance'')"
    and "h + 44 < w_buf_size web3" "w_buf_size web3 < h + 44 + 9"
  shows "eth_getBalance addr web3 = Inl Out_of_bounds"
proof -
  let ?h = "JSONRPC_HEADER (w_req_id web3) ''eth_getBalance''" and ?a = "quoted (''0x'' @ hex_text (addr_a addr))"
  let ?l = "'','' @ quoted ''latest''"
  have len: "length ?a = 44" "length ?l = 9" using assms(1) by (simp_all add: quoted_def)
  obtain web3' where r: "web3_resetbuf web3 = Inr web3'" "web3_holds web3' []" "web3_same web3 web3'"
    using resetbuf_holds [OF assms(2)] by blast
  have same: "w_req_id web3' = w_req_id web3" "w_buf_size web3' = w_buf_size web3"
    "length (w_mem web3') = w_buf_size web3"
    using r(3) assms(3) by (simp_all add: web3_same_def)
  have "prints (ok_then (web3_printbuf ?h) (web3_printaddr addr)) (?h @ ?a)"
    using assms(1) by (intro prints_then printsI prints_addr)
  then obtain web3'' where p: "ok_then (web3_printbuf ?h) (web3_printaddr addr) web3' = Inr (0, web3'')"
      "web3_holds web3'' (?h @ ?a)" "web3_same web3' web3''"
    using r(2) same len assms(4,5) unfolding prints_def by fastforce
  have size: "w_buf_size web3'' = w_buf_size web3" "length (w_mem web3'') = w_buf_size web3''"
    using p(3) same by (simp_all add: web3_same_def)
  obtain web3''' where q: "web3_printbuf ?l web3'' = Inr (0, web3''')"
      "w_buf_used web3''' = length (?h @ ?a) + length ?l" "w_buf_size web3''' = w_buf_size web3''"
      "length (w_mem web3''') = w_buf_size web3''"
    using overrun_printbuf [of web3'' "?h @ ?a" ?l] p(2) size len assms(4-6)
    by (auto simp: web3_holds_def)
  have "w_buf_size web3 < 2 ^ 32" using assms(2) by (simp add: web3_ready_def)
  then have "w_buf_used web3''' < 2 ^ 33" using q(2) len assms(4,5) by simp
  with overrun_next [of web3''' JSONRPC_TERMINATOR] q size len assms(4,6)
  have "WEB3_TERMINATOR web3''' = Inl Out_of_bounds"
    by (simp add: WEB3_TERMINATOR_def JSONRPC_TERMINATOR_def)
  with r(1) same(1) p(1) q(1) show ?thesis
    by (simp add: eth_getBalance_def WEB3_PREAMBLE_def ok_then_assoc [symmetric]) (simp add: ok_then_def)
qed

lemma web3_getBalance_overrun_witness:
  "eth_getBalance \<lparr>addr_a = replicate 20 0\<rparr>
    \<lparr>w_buf = Some (replicate 108 NUL), w_buf_size = 108, w_buf_used = 0, w_req_id = 0\<rparr> = Inl Out_of_bounds"
proof -
  let ?web3 = "\<lparr>w_buf = Some (replicate 108 NUL), w_buf_size = 108, w_buf_used = 0, w_req_id = 0\<rparr>"
  have h: "length (JSONRPC_HEADER (w_req_id ?web3) ''eth_getBalance'') = 60"
    by (simp add: JSONRPC_HEADER_def quoted_def show_int_def digits_less HEXDIGITS_def)
  show ?thesis
    by (rule web3_getBalance_overrun [OF _ _ _ h [symmetric]])
      (simp_all add: web3_ready_def w_mem_def)
qed

text \<open>
  The requests round-trip through the tokeniser. What \<open>eth_getBalance\<close> leaves in the buffer up to
  \<open>buf_used\<close> is split by \<open>jsmn_parse\<close> into exactly the tokens of the request document.
\<close>

lemma web3_getBalance_tokens:
  assumes "length (addr_a addr) = 20" "web3_ready web3" "length t = 64"
    and "length (json_text (request ''eth_getBalance'' (w_req_id web3) [hex_json (addr_a addr), JStr ''latest'']))
      < w_buf_size web3"
  shows "\<exists>web3' parser. eth_getBalance addr web3 = Inr (0, web3') \<and>
    jsmn_parse jsmn_init (take (w_buf_used web3') (w_mem web3')) (Some t) 64 = Inr (11, parser, Some
      (json_toks (request ''eth_getBalance'' (w_req_id web3) [hex_json (addr_a addr), JStr ''latest'']) 0 @ drop 11 t))"
proof -
  let ?doc = "request ''eth_getBalance'' (w_req_id web3) [hex_json (addr_a addr), JStr ''latest'']"
  have "writes_request (eth_getBalance addr) ''eth_getBalance'' [hex_json (addr_a addr), JStr ''latest'']"
    unfolding eth_getBalance_def by (rule writes_address [OF assms(1)])
  with assms(2,4) obtain web3' where w: "eth_getBalance addr web3 = Inr (0, web3')" "web3_holds web3' (json_text ?doc)"
    unfolding writes_request_def by blast
  have buf: "take (w_buf_used web3') (w_mem web3') = json_text ?doc"
    using w(2) by (simp add: web3_holds_def web3_text_def)
  have plain: "plain ''2.0'' \<and> plain ''latest'' \<and> plain ''eth_getBalance'' \<and> plain ''jsonrpc'' \<and> plain ''id'' \<and>
      plain ''method'' \<and> plain ''params''"
    by (simp add: plain_def NUL_def QUOTE_def BACKSLASH_def)
  have ok: "json_ok ?doc"
    using plain plain_hex_text [of "addr_a addr"] primitive_show_int by (simp add: request_def hex_json_def)
  have "json_size ?doc = 11" by (simp add: request_def hex_json_def)
  with jsmn_parse_text [OF ok, of 64 t] assms(3) w(1) buf show ?thesis by auto
qed

lemma web3_getBalance_tokens_witness:
  "\<exists>web3' parser toks. eth_getBalance \<lparr>addr_a = replicate 20 0\<rparr>
      \<lparr>w_buf = Some (replicate 512 NUL), w_buf_size = 512, w_buf_used = 7, w_req_id = 0\<rparr> = Inr (0, web3') \<and>
    jsmn_parse jsmn_init (take (w_buf_used web3') (w_mem web3'))
      (Some (replicate 64 (tok JSMN_UNDEFINED 0 0 0))) 64 = Inr (11, parser, Some toks)"
proof -
  let ?web3 = "\<lparr>w_buf = Some (replicate 512 NUL), w_buf_size = 512, w_buf_used = 7, w_req_id = 0\<rparr>"
  have "length (json_text (request ''eth_getBalance'' (w_req_id ?web3) [hex_json (replicate 20 0), JStr ''latest''])) < 512"
    by (simp add: request_def hex_json_def quoted_def show_int_def digits_less HEXDIGITS_def)
  with web3_getBalance_tokens [of "\<lparr>addr_a = replicate 20 0\<rparr>" ?web3 "replicate 64 (tok JSMN_UNDEFINED 0 0 0)"]
  show ?thesis by (auto simp: web3_ready_def w_mem_def)
qed

end
