(* ===== verification/Jsonp.thy ===== *)
theory Jsonp
  imports Jsmn Transaction
begin

text \<open>
  \<open>eth/web3_jsonp.c\<close>: reading JSON-RPC responses. \<open>buf\<close> is the memory behind the buffer pointer, of
  which the first \<open>buf_size\<close> bytes are the response. A pointer into the token array is the array and
  an index. \<open>lbits\<close> is the width of \<open>long\<close>: 32 on the targets, 64 on the host of the tests. An output
  that is a C struct is passed in with its old content and returned.
\<close>

section \<open>Number parsers of the C library\<close>

text \<open>
  \<open>strtoul\<close> and \<open>strtol\<close> read the string at a position of the memory: blanks, a sign, for base 16 an
  optional \<open>0x\<close>, digits. Without digits nothing is consumed.
\<close>

definition mem_char :: "string \<Rightarrow> nat \<Rightarrow> char outcome" where
  "mem_char mem i = (if i < length mem then Inr (mem ! i) else Inl Out_of_bounds)"

definition is_space :: "char \<Rightarrow> bool" where
  "is_space c \<longleftrightarrow> c = CHR '' '' \<or> (9 \<le> code c \<and> code c \<le> 13)"

function skip_space :: "string \<Rightarrow> nat \<Rightarrow> nat outcome" where
  "skip_space mem i =
    (if i < length mem then if is_space (mem ! i) then skip_space mem (i + 1) else Inr i
     else Inl Out_of_bounds)"
  by pat_completeness auto
termination
  by (relation "measure (\<lambda>(mem, i). length mem - i)") auto

function scan_digits :: "nat \<Rightarrow> string \<Rightarrow> nat \<Rightarrow> nat \<Rightarrow> (nat \<times> nat) outcome" where
  "scan_digits base mem i acc =
    (if i < length mem then
       let d = map_hex (mem ! i) in
       if 0 \<le> d \<and> d < int base then scan_digits base mem (i + 1) (acc * base + nat d) else Inr (acc, i)
     else Inl Out_of_bounds)"
  by pat_completeness auto
termination
  by (relation "measure (\<lambda>(base, mem, i, acc). length mem - i)") auto

declare skip_space.simps [simp del] scan_digits.simps [simp del]

text \<open>Sign, magnitude and the end position.\<close>

definition strto :: "nat \<Rightarrow> string \<Rightarrow> nat \<Rightarrow> (bool \<times> nat \<times> nat) outcome" where
  "strto base mem start =
    bindE (skip_space mem start) (\<lambda>i.
    bindE (mem_char mem i) (\<lambda>c.
    let neg = (c = CHR ''-''); i = (if c = CHR ''-'' \<or> c = CHR ''+'' then i + 1 else i) in
    bindE (mem_char mem i) (\<lambda>c.
    bindE (if base = 16 \<and> c = CHR ''0'' then
        bindE (mem_char mem (i + 1)) (\<lambda>x.
        if x = CHR ''x'' \<or> x = CHR ''X'' then
          bindE (mem_char mem (i + 2)) (\<lambda>h. Inr (if 0 \<le> map_hex h then i + 2 else i))
        else Inr i)
      else Inr i) (\<lambda>i.
    bindE (scan_digits base mem i 0) (\<lambda>(v, j).
    Inr (if j = i then (False, 0, start) else (neg, v, j)))))))"

text \<open>The value, whether \<open>errno\<close> is set, and the end position.\<close>

definition strtoul :: "nat \<Rightarrow> nat \<Rightarrow> string \<Rightarrow> nat \<Rightarrow> (nat \<times> bool \<times> nat) outcome" where
  "strtoul lbits base mem start =
    bindE (strto base mem start) (\<lambda>(neg, v, j).
    Inr (if 2 ^ lbits \<le> v then (2 ^ lbits - 1, True, j)
      else (if neg then (2 ^ lbits - v) mod 2 ^ lbits else v, False, j)))"

definition strtol :: "nat \<Rightarrow> nat \<Rightarrow> string \<Rightarrow> nat \<Rightarrow> (int \<times> bool \<times> nat) outcome" where
  "strtol lbits base mem start =
    bindE (strto base mem start) (\<lambda>(neg, v, j).
    let x = (if neg then - int v else int v) in
    Inr (if x < - (2 ^ (lbits - 1)) then (- (2 ^ (lbits - 1)), True, j)
      else if x \<ge> 2 ^ (lbits - 1) then (2 ^ (lbits - 1) - 1, True, j) else (x, False, j)))"

section \<open>Definitions\<close>

text \<open>\<open>message\<close> points into the buffer: its offset, or \<open>None\<close> before it is set.\<close>

record jsonrpc_error_t =
  err_code :: int
  err_message :: "nat option"

record jsonrpc_result_t =
  res_id :: nat
  res_error :: jsonrpc_error_t

record tx_receipt_t =
  rcpt_blockNumber :: u64
  rcpt_status :: u8

text \<open>The start of a token as a position in the buffer; a negative one is outside.\<close>

definition tok_pos :: "jsmntok_t \<Rightarrow> nat outcome" where
  "tok_pos tok = (if 0 \<le> tok_start tok then Inr (nat (tok_start tok)) else Inl Out_of_bounds)"

definition json_uint10 :: "nat \<Rightarrow> string \<Rightarrow> jsmntok_t \<Rightarrow> (int \<times> nat) outcome" where
  "json_uint10 lbits buf tok =
    bindE (tok_pos tok) (\<lambda>start.
    bindE (strtoul lbits 10 buf start) (\<lambda>(out, errno, endptr).
    Inr (if errno \<or> int endptr \<noteq> tok_end tok then -1 else 0, out)))"

definition json_int10 :: "nat \<Rightarrow> string \<Rightarrow> jsmntok_t \<Rightarrow> (int \<times> int) outcome" where
  "json_int10 lbits buf tok =
    bindE (tok_pos tok) (\<lambda>start.
    bindE (strtol lbits 10 buf start) (\<lambda>(out, errno, endptr).
    Inr (if errno \<or> int endptr \<noteq> tok_end tok then -1 else 0, out)))"

definition json_uint64_hex :: "nat \<Rightarrow> string \<Rightarrow> jsmntok_t \<Rightarrow> (int \<times> u64) outcome" where
  "json_uint64_hex lbits buf tok =
    bindE (tok_pos tok) (\<lambda>start.
    bindE (strtol lbits 16 buf start) (\<lambda>(out, errno, endptr).
    Inr (if errno \<or> int endptr \<noteq> tok_end tok then -1 else 0, of_int out)))"

text \<open>
  The text of the token is copied into \<open>tmp[68]\<close> without a check of its length; \<open>fromstring256\<close> then
  reads up to the first NUL.
\<close>

definition json_uint256_hex :: "string \<Rightarrow> jsmntok_t \<Rightarrow> uint256_t \<Rightarrow> (int \<times> uint256_t) outcome" where
  "json_uint256_hex buf tok out =
    bindE (tok_pos tok) (\<lambda>start.
    if tok_end tok < tok_start tok then Inl Out_of_bounds
    else bindE (read_at buf start (nat (tok_end tok - tok_start tok))) (\<lambda>text.
      bindE (write_at (replicate 68 NUL) 0 text) (\<lambda>tmp.
      if NUL \<notin> set tmp then Inl Out_of_bounds else fromstring256 (c_string tmp) out)))"

text \<open>\<open>toks\<close> starts at index \<open>k\<close> of the array; \<open>i\<close> and its bound are C integers.\<close>

function error_obj_loop ::
    "nat \<Rightarrow> string \<Rightarrow> jsmntok_t list \<Rightarrow> nat \<Rightarrow> nat \<Rightarrow> int \<Rightarrow> jsonrpc_error_t \<Rightarrow>
     (int \<times> string \<times> jsonrpc_error_t) outcome" where
  "error_obj_loop lbits buf toks k i n out =
    (if int i < n then
       bindE (tok_get toks (int (k + i))) (\<lambda>t.
       if tok_type t \<noteq> JSMN_STRING then Inr (-1, buf, out)
       else bindE (jsoneq buf t ''code'') (\<lambda>eq.
       if eq = 0 then
         bindE (tok_get toks (int (k + i + 1))) (\<lambda>t1.
         bindE (json_int10 lbits buf t1) (\<lambda>(ret, v).
         if ret \<noteq> 0 then Inr (-1, buf, out\<lparr>err_code := v\<rparr>)
         else error_obj_loop lbits buf toks k (i + 2) n (out\<lparr>err_code := v\<rparr>)))
       else bindE (jsoneq buf t ''message'') (\<lambda>eq.
       if eq = 0 then
         bindE (tok_get toks (int (k + i + 1))) (\<lambda>t1.
         bindE (tok_pos t1) (\<lambda>start.
         if tok_end t1 < 0 then Inl Out_of_bounds
         else bindE (write_at buf (nat (tok_end t1)) [NUL]) (\<lambda>buf.
         error_obj_loop lbits buf toks k (i + 2) n (out\<lparr>err_message := Some start\<rparr>))))
       else error_obj_loop lbits buf toks k (i + 1) n out)))
     else Inr (0, buf, out))"
  by pat_completeness auto
termination
  by (relation "measure (\<lambda>(lbits, buf, toks, k, i, n, out). nat (n - int i))") auto

declare error_obj_loop.simps [simp del]

definition jsonrpc_error_obj ::
    "nat \<Rightarrow> string \<Rightarrow> jsmntok_t list \<Rightarrow> nat \<Rightarrow> jsonrpc_error_t \<Rightarrow>
     (int \<times> string \<times> jsonrpc_error_t) outcome" where
  "jsonrpc_error_obj lbits buf toks k out =
    bindE (tok_get toks (int k)) (\<lambda>t.
    if tok_type t \<noteq> JSMN_OBJECT then Inr (-1, buf, out)
    else error_obj_loop lbits buf toks k 1 (tok_size t * 2 + 1) out)"

function txreceipt_loop ::
    "nat \<Rightarrow> string \<Rightarrow> jsmntok_t list \<Rightarrow> nat \<Rightarrow> nat \<Rightarrow> int \<Rightarrow> tx_receipt_t \<Rightarrow>
     (int \<times> tx_receipt_t) outcome" where
  "txreceipt_loop lbits buf toks k i n out =
    (if int i < n then
       bindE (tok_get toks (int (k + (i * 2 + 1)))) (\<lambda>t.
       if tok_type t \<noteq> JSMN_STRING then Inr (-1, out)
       else bindE (jsoneq buf t ''status'') (\<lambda>eq.
       if eq = 0 then
         bindE (tok_get toks (int (k + (i * 2 + 2)))) (\<lambda>t1.
         bindE (json_uint64_hex lbits buf t1) (\<lambda>(ret, tmp).
         if ret \<noteq> 0 then Inr (-1, out)
         else txreceipt_loop lbits buf toks k (i + 1) n (out\<lparr>rcpt_status := of_bool (tmp > 0)\<rparr>)))
       else bindE (jsoneq buf t ''blockNumber'') (\<lambda>eq.
       if eq = 0 then
         bindE (tok_get toks (int (k + (i * 2 + 2)))) (\<lambda>t1.
         bindE (json_uint64_hex lbits buf t1) (\<lambda>(ret, v).
         if ret \<noteq> 0 then Inr (-1, out\<lparr>rcpt_blockNumber := v\<rparr>)
         else txreceipt_loop lbits buf toks k (i + 1) n (out\<lparr>rcpt_blockNumber := v\<rparr>)))
       else txreceipt_loop lbits buf toks k (i + 1) n out)))
     else Inr (0, out))"
  by pat_completeness auto
termination
  by (relation "measure (\<lambda>(lbits, buf, toks, k, i, n, out). nat (n - int i))") auto

declare txreceipt_loop.simps [simp del]

definition json_txreceipt ::
    "nat \<Rightarrow> string \<Rightarrow> jsmntok_t list \<Rightarrow> nat \<Rightarrow> tx_receipt_t \<Rightarrow> (int \<times> tx_receipt_t) outcome" where
  "json_txreceipt lbits buf toks k out =
    bindE (tok_get toks (int k)) (\<lambda>t.
    if tok_type t \<noteq> JSMN_OBJECT then Inr (-1, out)
    else txreceipt_loop lbits buf toks k 1 (tok_size t) out)"

function result_loop ::
    "nat \<Rightarrow> string \<Rightarrow> jsmntok_t list \<Rightarrow> nat \<Rightarrow> nat \<Rightarrow> jsonrpc_result_t \<Rightarrow>
     (int \<times> string \<times> jsonrpc_result_t) outcome" where
  "result_loop lbits buf toks i ntoks out =
    (if i < ntoks then
       bindE (tok_get toks (int i)) (\<lambda>t.
       bindE (jsoneq buf t ''error'') (\<lambda>eq.
       if eq = 0 then
         bindE (jsonrpc_error_obj lbits buf toks (i + 1) (res_error out)) (\<lambda>(ret, buf, err).
         if ret < 0 then Inr (ret, buf, out\<lparr>res_error := err\<rparr>)
         else result_loop lbits buf toks (i + 2) ntoks (out\<lparr>res_error := err\<rparr>))
       else bindE (jsoneq buf t ''id'') (\<lambda>eq.
       if eq = 0 then
         bindE (tok_get toks (int (i + 1))) (\<lambda>t1.
         bindE (json_uint10 lbits buf t1) (\<lambda>(ret, v).
         if ret < 0 then Inr (ret, buf, out\<lparr>res_id := v\<rparr>)
         else result_loop lbits buf toks (i + 2) ntoks (out\<lparr>res_id := v\<rparr>)))
       else result_loop lbits buf toks (i + 1) ntoks out)))
     else Inr (0, buf, out))"
  by pat_completeness auto
termination
  by (relation "measure (\<lambda>(lbits, buf, toks, i, ntoks, out). ntoks - i)") auto

declare result_loop.simps [simp del]

definition jsonrpc_result ::
    "nat \<Rightarrow> string \<Rightarrow> jsmntok_t list \<Rightarrow> nat \<Rightarrow> jsonrpc_result_t \<Rightarrow>
     (int \<times> string \<times> jsonrpc_result_t) outcome" where
  "jsonrpc_result lbits buf toks ntoks out =
    bindE (assertE (ntoks > 0)) (\<lambda>_.
    bindE (tok_get toks 0) (\<lambda>t.
    if ntoks < 1 \<or> tok_type t \<noteq> JSMN_OBJECT then Inr (-1, buf, out)
    else result_loop lbits buf toks 1 ntoks out))"

text \<open>
  \<open>r\<close> is the number of tokens, an \<open>int\<close>; the \<open>result\<close> loops read the token behind the key even when
  the key is the last one. \<open>t\<close> is the uninitialised local array of 64 tokens.
\<close>

function hexencoded_loop ::
    "string \<Rightarrow> jsmntok_t list \<Rightarrow> nat \<Rightarrow> nat \<Rightarrow> int \<Rightarrow> uint256_t \<Rightarrow> (int \<times> uint256_t) outcome" where
  "hexencoded_loop buf toks i r ret out =
    (if i < r then
       bindE (tok_get toks (int i)) (\<lambda>t.
       bindE (jsoneq buf t ''result'') (\<lambda>eq.
       if eq = 0 then
         bindE (tok_get toks (int (i + 1))) (\<lambda>t1.
         bindE (json_uint256_hex buf t1 out) (\<lambda>(ret, out).
         if ret < 0 then Inr (ret, out) else hexencoded_loop buf toks (i + 2) r ret out))
       else hexencoded_loop buf toks (i + 1) r ret out))
     else Inr (ret, out))"
  by pat_completeness auto
termination
  by (relation "measure (\<lambda>(buf, toks, i, r, ret, out). r - i)") auto

declare hexencoded_loop.simps [simp del]

definition jsonrpc_decode_hexencoded ::
    "nat \<Rightarrow> jsmntok_t list \<Rightarrow> string \<Rightarrow> nat \<Rightarrow> jsonrpc_result_t \<Rightarrow> uint256_t \<Rightarrow>
     (int \<times> string \<times> jsonrpc_result_t \<times> uint256_t) outcome" where
  "jsonrpc_decode_hexencoded lbits t buf buf_size result out =
    bindE (read_at buf 0 buf_size) (\<lambda>js.
    bindE (jsmn_parse jsmn_init js (Some t) 64) (\<lambda>(r, p, tokens).
    let toks = (case tokens of None \<Rightarrow> [] | Some toks \<Rightarrow> toks) in
    if r < 0 then Inr (-1, buf, result, out)
    else bindE (jsonrpc_result lbits buf toks (nat r) result) (\<lambda>(ret, buf, result).
    if ret < 0 then Inr (-1, buf, result, out)
    else bindE (tok_get toks 0) (\<lambda>t0.
    if r < 1 \<or> tok_type t0 \<noteq> JSMN_OBJECT then Inr (-1, buf, result, out)
    else bindE (hexencoded_loop buf toks 1 (nat r) 0 out) (\<lambda>(ret, out).
      Inr (ret, buf, result, out))))))"

function receipt_loop ::
    "nat \<Rightarrow> string \<Rightarrow> jsmntok_t list \<Rightarrow> nat \<Rightarrow> nat \<Rightarrow> int \<Rightarrow> tx_receipt_t \<Rightarrow> (int \<times> tx_receipt_t) outcome" where
  "receipt_loop lbits buf toks i r ret out =
    (if i < r then
       bindE (tok_get toks (int i)) (\<lambda>t.
       bindE (jsoneq buf t ''result'') (\<lambda>eq.
       if eq = 0 then
         bindE (json_txreceipt lbits buf toks (i + 1) out) (\<lambda>(ret, out).
         if ret < 0 then Inr (ret, out) else receipt_loop lbits buf toks (i + 2) r ret out)
       else receipt_loop lbits buf toks (i + 1) r ret out))
     else Inr (ret, out))"
  by pat_completeness auto
termination
  by (relation "measure (\<lambda>(lbits, buf, toks, i, r, ret, out). r - i)") auto

declare receipt_loop.simps [simp del]

definition jsonrpc_decode_txreceipt ::
    "nat \<Rightarrow> jsmntok_t list \<Rightarrow> string \<Rightarrow> nat \<Rightarrow> jsonrpc_result_t \<Rightarrow> tx_receipt_t \<Rightarrow>
     (int \<times> string \<times> jsonrpc_result_t \<times> tx_receipt_t) outcome" where
  "jsonrpc_decode_txreceipt lbits t buf buf_size result out =
    bindE (read_at buf 0 buf_size) (\<lambda>js.
    bindE (jsmn_parse jsmn_init js (Some t) 64) (\<lambda>(r, p, tokens).
    let toks = (case tokens of None \<Rightarrow> [] | Some toks \<Rightarrow> toks) in
    if r < 0 then Inr (-1, buf, result, out)
    else bindE (jsonrpc_result lbits buf toks (nat r) result) (\<lambda>(ret, buf, result).
    if ret < 0 then Inr (-1, buf, result, out)
    else bindE (tok_get toks 0) (\<lambda>t0.
    if r < 1 \<or> tok_type t0 \<noteq> JSMN_OBJECT then Inr (-1, buf, result, out)
    else bindE (receipt_loop lbits buf toks 1 (nat r) 0 out) (\<lambda>(ret, out).
      Inr (ret, buf, result, out))))))"

end
