(* ===== verification/JsonpDecode.thy ===== *)
theory JsonpDecode
  imports Jsonp JsmnPrint
begin

text \<open>
  What the decoders of \<open>eth/web3_jsonp.c\<close> return on JSON-RPC responses: the tokens of a response are
  those of its document (theory \<open>JsmnPrint\<close>), and every field is read from its own token. Responses
  are objects whose fields, in any order, are strings and primitives, or an error object.
\<close>

section \<open>Reading one token\<close>

text \<open>Decimal texts and their value.\<close>

definition decimal :: "string \<Rightarrow> bool" where
  "decimal ds \<longleftrightarrow> ds \<noteq> [] \<and> (\<forall>c \<in> set ds. 48 \<le> code c \<and> code c \<le> 57)"

definition dec_val :: "string \<Rightarrow> nat" where
  "dec_val ds = foldl (\<lambda>a c. a * 10 + nat (map_hex c)) 0 ds"

lemma dec_digit: "48 \<le> code c \<Longrightarrow> code c \<le> 57 \<Longrightarrow> 0 \<le> map_hex c \<and> map_hex c < 10"
  by (simp add: map_hex_def)

lemma not_dec_digit: "c \<in> {CHR '','', CHR '']'', CHR ''}''} \<Longrightarrow> \<not> (0 \<le> map_hex c \<and> map_hex c < 10)"
  by (auto simp: map_hex_def)

lemma scan_digits_decimal:
  "\<forall>c \<in> set ds. 48 \<le> code c \<and> code c \<le> 57 \<Longrightarrow> drop p buf = ds @ c # r \<Longrightarrow>
   \<not> (0 \<le> map_hex c \<and> map_hex c < 10) \<Longrightarrow>
   scan_digits 10 buf p acc = Inr (foldl (\<lambda>a c. a * 10 + nat (map_hex c)) acc ds, p + length ds)"
proof (induction ds arbitrary: p acc)
  case Nil
  from drop_nth [of p buf c r] Nil.prems show ?case
    by (subst scan_digits.simps) (auto simp: Let_def)
next
  case (Cons d ds)
  from drop_nth [of p buf d "ds @ c # r"] Cons.prems have "p < length buf" "buf ! p = d"
      "drop (Suc p) buf = ds @ c # r"
    by simp_all
  with Cons.IH [of "Suc p"] Cons.prems dec_digit [of d] show ?case
    by (subst scan_digits.simps) (simp add: Let_def)
qed

lemma mem_char_at: "drop p buf = c # r \<Longrightarrow> mem_char buf p = Inr c"
  using drop_nth [of p buf c r] by (simp add: mem_char_def)

lemma skip_space_none: "drop p buf = c # r \<Longrightarrow> \<not> is_space c \<Longrightarrow> skip_space buf p = Inr p"
  using drop_nth [of p buf c r] by (subst skip_space.simps) simp

lemma decimal_Cons:
  assumes "decimal (d # ds)"
  shows "\<not> is_space d" "d \<noteq> CHR ''-''" "d \<noteq> CHR ''+''"
  using assms by (auto simp: decimal_def is_space_def)

lemma strto_decimal_before:
  assumes "decimal ds" "drop p buf = ds @ c # r" "\<not> (0 \<le> map_hex c \<and> map_hex c < 10)"
  shows "strto 10 buf p = Inr (False, dec_val ds, p + length ds)"
proof -
  obtain d ds' where ds: "ds = d # ds'" using assms(1) by (cases ds) (auto simp: decimal_def)
  note d = decimal_Cons [OF assms(1) [unfolded ds]]
  have p: "drop p buf = d # ds' @ c # r" using assms(2) ds by simp
  have "scan_digits 10 buf p 0 = Inr (dec_val ds, p + length ds)"
    unfolding dec_val_def
    by (rule scan_digits_decimal [OF _ assms(2)])
      (use assms(1,3) in \<open>auto simp: decimal_def\<close>)
  with p d ds show ?thesis
    by (simp add: strto_def skip_space_none mem_char_at Let_def)
qed

lemma strto_decimal:
  "decimal ds \<Longrightarrow> drop p buf = ds @ c # r \<Longrightarrow> ends (c # r) \<Longrightarrow> strto 10 buf p = Inr (False, dec_val ds, p + length ds)"
  using not_dec_digit [of c] by (intro strto_decimal_before) (auto simp: ends_def)

lemma strto_negative:
  assumes "decimal ds" "drop p buf = CHR ''-'' # ds @ c # r" "ends (c # r)"
  shows "strto 10 buf p = Inr (True, dec_val ds, p + 1 + length ds)"
proof -
  obtain d ds' where ds: "ds = d # ds'" using assms(1) by (cases ds) (auto simp: decimal_def)
  note d = decimal_Cons [OF assms(1) [unfolded ds]]
  have p: "drop (p + 1) buf = ds @ c # r" using drop_nth [OF assms(2)] by simp
  have "scan_digits 10 buf (p + 1) 0 = Inr (dec_val ds, p + 1 + length ds)"
    unfolding dec_val_def
    by (rule scan_digits_decimal [OF _ p])
      (use assms(1,3) not_dec_digit [of c] in \<open>auto simp: decimal_def ends_def\<close>)
  moreover have "\<not> is_space CHR ''-''" by (simp add: is_space_def)
  ultimately show ?thesis
    using mem_char_at [OF assms(2)] mem_char_at [of "p + 1" buf d "ds' @ c # r"] p d ds
    by (simp add: strto_def skip_space_none [OF assms(2)] Let_def)
qed

lemma json_uint10_decimal:
  assumes "decimal ds" "drop p buf = ds @ c # r" "ends (c # r)" "dec_val ds < 2 ^ lbits"
  shows "json_uint10 lbits buf (tok type p (p + length ds) n) = Inr (0, dec_val ds)"
  using assms by (simp add: json_uint10_def tok_pos_def strtoul_def strto_decimal)

lemma json_int10_negative:
  assumes "decimal ds" "drop p buf = CHR ''-'' # ds @ c # r" "ends (c # r)"
    "dec_val ds \<le> 2 ^ (lbits - 1)" "1 < lbits"
  shows "json_int10 lbits buf (tok type p (p + 1 + length ds) n) = Inr (0, - int (dec_val ds))"
proof -
  have "int (dec_val ds) \<le> 2 ^ (lbits - 1)" using assms(4) by (metis of_nat_le_iff of_nat_numeral of_nat_power)
  moreover have "- int (dec_val ds) < 2 ^ (lbits - 1)"
    by (rule le_less_trans [of _ 0]) simp_all
  then have "\<not> 2 ^ (lbits - Suc 0) \<le> - int (dec_val ds)" by simp
  ultimately show ?thesis
    using assms by (simp add: json_int10_def tok_pos_def strtol_def strto_negative Let_def)
qed

lemma strncmp_eq_same: "length s = length name \<Longrightarrow> strncmp_eq (s @ r) name (length name) = Inr (s = name)"
  by (induction s name rule: list_induct2) simp_all

lemma jsoneq_string:
  assumes "drop p buf = quoted s @ r"
  shows "jsoneq buf (tok JSMN_STRING (p + 1) (p + 1 + length s) n) name = Inr (if s = name then 0 else -1)"
proof (cases "length s = length name")
  case True
  have "drop (p + 1) buf = s @ QUOTE # r" using assms drop_nth [of p buf QUOTE "s @ QUOTE # r"]
    by (simp add: quoted_def)
  with True strncmp_eq_same [OF True, of "QUOTE # r"] show ?thesis
    by (simp add: jsoneq_def nat_add_distrib)
next
  case False
  then have "s \<noteq> name" by auto
  with False show ?thesis by (simp add: jsoneq_def)
qed

lemma jsoneq_other: "tok_type t \<noteq> JSMN_STRING \<Longrightarrow> jsoneq buf t name = Inr (-1)"
  by (simp add: jsoneq_def)

text \<open>The text of a string token up to 67 characters is parsed as a number; a longer one overruns \<open>tmp\<close>.\<close>

lemma json_uint256_hex_string:
  assumes "drop p buf = quoted s @ r" "NUL \<notin> set s"
  shows "json_uint256_hex buf (tok JSMN_STRING (p + 1) (p + 1 + length s) n) out =
    (if length s \<le> 67 then fromstring256 s out else Inl Out_of_bounds)"
proof -
  have d: "drop (p + 1) buf = s @ QUOTE # r" using assms(1) drop_nth [of p buf QUOTE "s @ QUOTE # r"]
    by (simp add: quoted_def)
  have "length buf - (p + 1) = length s + 1 + length r" using arg_cong [OF d, of length] by simp
  then have "p + 1 + length s \<le> length buf" by linarith
  then have r: "read_at buf (p + 1) (length s) = Inr s" using d by (simp add: read_at_def)
  consider "length s \<le> 67" | "length s = 68" | "68 < length s" by linarith
  then show ?thesis
  proof cases
    case 1
    then have w: "write_at (replicate 68 NUL) 0 s = Inr (s @ NUL # replicate (67 - length s) NUL)"
      by (simp add: write_at_def Suc_diff_le replicate_Suc [symmetric] del: replicate_Suc)
    have "c_string (s @ NUL # replicate (67 - length s) NUL) = s"
      using c_string_terminated [of s] assms(2) by (simp add: NUL_def)
    with 1 r w show ?thesis by (simp add: json_uint256_hex_def tok_pos_def nat_add_distrib)
  next
    case 2
    then have "write_at (replicate 68 NUL) 0 s = Inr s" by (simp add: write_at_def)
    with 2 r assms(2) show ?thesis by (simp add: json_uint256_hex_def tok_pos_def nat_add_distrib)
  next
    case 3
    then have "write_at (replicate 68 NUL) 0 s = Inl Out_of_bounds" by (simp add: write_at_def)
    with 3 r show ?thesis by (simp add: json_uint256_hex_def tok_pos_def nat_add_distrib)
  qed
qed

section \<open>The fields of an object\<close>

fun leaf :: "json \<Rightarrow> bool" where
  "leaf (JStr s) \<longleftrightarrow> True"
| "leaf (JPrim s) \<longleftrightarrow> True"
| "leaf v \<longleftrightarrow> False"

lemma leaf_cases [consumes 1, case_names Str Prim]:
  assumes "leaf v"
  obtains s where "v = JStr s" | s where "v = JPrim s"
  using assms by (cases v) simp_all

text \<open>The fields \<open>kvs\<close> start at position \<open>p\<close> of the text, their tokens at index \<open>i\<close> of the array.\<close>

definition at_fields :: "string \<Rightarrow> jsmntok_t list \<Rightarrow> nat \<Rightarrow> nat \<Rightarrow> field list \<Rightarrow> bool" where
  "at_fields buf toks i p kvs \<longleftrightarrow>
    (kvs \<noteq> [] \<longrightarrow> (\<exists>c r. drop p buf = members_text (members_of kvs) @ c # r \<and> ends (c # r))) \<and>
    (\<exists>ts. drop i toks = members_toks (members_of kvs) p @ ts)"

definition key_tok :: "nat \<Rightarrow> string \<Rightarrow> jsmntok_t" where
  "key_tok p k = tok JSMN_STRING (p + 1) (p + 1 + length k) 1"

definition width :: "field \<Rightarrow> nat" where
  "width kv = length (fst kv) + length (json_text (snd kv)) + 4"

lemma tok_get_drop: "drop i toks = t # ts \<Longrightarrow> tok_get toks (int i) = Inr t"
  using drop_nth [of i toks t ts] by (simp add: tok_get_def)

lemma at_fields_Cons:
  assumes "at_fields buf toks i p ((k, v) # kvs)"
  shows "\<exists>c r. drop p buf = quoted k @ CHR '':'' # json_text v @ c # r \<and> ends (c # r)"
    and "tok_get toks (int i) = Inr (key_tok p k)"
    and "\<exists>ts. drop (i + 1) toks = json_toks v (p + length k + 3) @ ts"
    and "at_fields buf toks (i + 1 + json_size v) (p + width (k, v)) kvs"
proof -
  from assms obtain c r ts where d: "drop p buf = members_text (members_of ((k, v) # kvs)) @ c # r" "ends (c # r)"
    and t: "drop i toks = members_toks (members_of ((k, v) # kvs)) p @ ts"
    by (auto simp: at_fields_def)
  show "\<exists>c r. drop p buf = quoted k @ CHR '':'' # json_text v @ c # r \<and> ends (c # r)"
    using d by (cases "kvs = []") (auto simp: ends_def)
  show "tok_get toks (int i) = Inr (key_tok p k)"
    using t by (simp add: tok_get_drop key_tok_def)
  let ?rest = "members_toks (members_of kvs) (p + width (k, v)) @ ts"
  have "drop i toks = tok JSMN_STRING (p + 1) (p + 1 + length k) 1 # json_toks v (p + length k + 3) @ ?rest"
    using t by (simp add: width_def ac_simps)
  then have t1: "drop (i + 1) toks = json_toks v (p + length k + 3) @ ?rest"
    using drop_nth [of i toks] by auto
  then show "\<exists>ts. drop (i + 1) toks = json_toks v (p + length k + 3) @ ts" by blast
  have "drop (i + 1 + json_size v) toks = ?rest" using drop_more [OF t1] by simp
  moreover have "\<exists>c r. drop (p + width (k, v)) buf = members_text (members_of kvs) @ c # r \<and> ends (c # r)"
    if "kvs \<noteq> []"
  proof -
    have "drop p buf = (quoted k @ CHR '':'' # json_text v @ [CHR '','']) @ members_text (members_of kvs) @ c # r"
      using d that by simp
    from drop_more [OF this] d(2) show ?thesis by (auto simp: width_def quoted_def ac_simps numeral_eq_Suc)
  qed
  ultimately show "at_fields buf toks (i + 1 + json_size v) (p + width (k, v)) kvs"
    unfolding at_fields_def by blast
qed

text \<open>The value of a leaf field and the token of it.\<close>

lemma at_fields_leaf:
  assumes "at_fields buf toks i p ((k, v) # kvs)" "leaf v"
  shows "\<exists>c r. drop (p + length k + 3) buf = json_text v @ c # r \<and> ends (c # r)"
    and "tok_get toks (int (i + 1)) = Inr (hd (json_toks v (p + length k + 3)))"
    and "at_fields buf toks (i + 2) (p + width (k, v)) kvs"
proof -
  note f = at_fields_Cons [OF assms(1)]
  from f(1) obtain c r where "drop p buf = (quoted k @ [CHR '':'']) @ json_text v @ c # r" "ends (c # r)"
    by auto
  from drop_more [OF this(1)] this(2)
  show "\<exists>c r. drop (p + length k + 3) buf = json_text v @ c # r \<and> ends (c # r)"
    by (auto simp: quoted_def numeral_eq_Suc)
  show "tok_get toks (int (i + 1)) = Inr (hd (json_toks v (p + length k + 3)))"
    using assms(2) f(3) by (cases v) (auto intro: tok_get_drop simp del: of_nat_add of_nat_Suc)
  show "at_fields buf toks (i + 2) (p + width (k, v)) kvs"
    using assms(2) f(4) by (cases v) simp_all
qed

lemma at_fields_append:
  "at_fields buf toks i p (xs @ ys) \<Longrightarrow> \<forall>kv \<in> set xs. leaf (snd kv) \<Longrightarrow>
   at_fields buf toks (i + 2 * length xs) (p + sum_list (map width xs)) ys"
proof (induction xs arbitrary: i p)
  case (Cons kv xs)
  obtain k v where kv: "kv = (k, v)" by (cases kv)
  with Cons.prems at_fields_leaf(3) [of buf toks i p k v "xs @ ys"]
  have "at_fields buf toks (i + 2) (p + width (k, v)) (xs @ ys)" by simp
  from Cons.IH [OF this] Cons.prems(2) kv show ?case by (simp add: ac_simps)
qed simp

text \<open>A field a loop that looks for the keys \<open>names\<close> passes over: its value is not taken for a key either.\<close>

definition quiet :: "string set \<Rightarrow> field \<Rightarrow> bool" where
  "quiet names kv \<longleftrightarrow> leaf (snd kv) \<and> fst kv \<notin> names \<and> snd kv \<notin> JStr ` names"

lemma key_eq:
  assumes "at_fields buf toks i p ((k, v) # kvs)"
  shows "jsoneq buf (key_tok p k) name = Inr (if k = name then 0 else -1)"
proof -
  from at_fields_Cons(1) [OF assms] obtain r where "drop p buf = quoted k @ r" by auto
  then show ?thesis unfolding key_tok_def by (rule jsoneq_string)
qed

lemma leaf_eq:
  assumes "at_fields buf toks i p ((k, v) # kvs)" "leaf v"
  shows "jsoneq buf (hd (json_toks v (p + length k + 3))) name = Inr (if v = JStr name then 0 else -1)"
proof -
  from at_fields_leaf(1) [OF assms] obtain r where r: "drop (p + length k + 3) buf = json_text v @ r" by auto
  from assms(2) show ?thesis
  proof (cases rule: leaf_cases)
    case (Str s)
    with r jsoneq_string [of "p + length k + 3" buf s r 0 name] show ?thesis by simp
  next
    case (Prim s)
    then show ?thesis by (simp add: jsoneq_other)
  qed
qed

section \<open>The loops over the fields\<close>

lemma result_loop_skip:
  "at_fields buf toks i p (xs @ ys) \<Longrightarrow> \<forall>kv \<in> set xs. quiet {''error'', ''id''} kv \<Longrightarrow>
   i + 2 * length xs \<le> ntoks \<Longrightarrow>
   result_loop lbits buf toks i ntoks out = result_loop lbits buf toks (i + 2 * length xs) ntoks out"
proof (induction xs arbitrary: i p)
  case (Cons kv xs)
  obtain k v where kv: "kv = (k, v)" by (cases kv)
  have f: "at_fields buf toks i p ((k, v) # xs @ ys)" using Cons.prems(1) kv by simp
  have q: "leaf v" "k \<noteq> ''error''" "k \<noteq> ''id''" "v \<noteq> JStr ''error''" "v \<noteq> JStr ''id''"
    using Cons.prems(2) kv by (auto simp: quiet_def)
  note value' = at_fields_leaf [OF f q(1)]
  have "result_loop lbits buf toks i ntoks out = result_loop lbits buf toks (i + 1) ntoks out"
    using Cons.prems(3) at_fields_Cons(2) [OF f] q
    by (subst result_loop.simps) (simp add: key_eq [OF f])
  also have "\<dots> = result_loop lbits buf toks (i + 2) ntoks out"
    using Cons.prems(3) value'(2) q
    by (subst result_loop.simps) (simp add: leaf_eq [OF f q(1)])
  also have "\<dots> = result_loop lbits buf toks (i + 2 + 2 * length xs) ntoks out"
    by (rule Cons.IH [OF value'(3)]) (use Cons.prems(2,3) in auto)
  finally show ?case by simp
qed simp

lemma hexencoded_loop_skip:
  "at_fields buf toks i p (xs @ ys) \<Longrightarrow> \<forall>kv \<in> set xs. quiet {''result''} kv \<Longrightarrow>
   i + 2 * length xs \<le> n \<Longrightarrow>
   hexencoded_loop buf toks i n ret out = hexencoded_loop buf toks (i + 2 * length xs) n ret out"
proof (induction xs arbitrary: i p)
  case (Cons kv xs)
  obtain k v where kv: "kv = (k, v)" by (cases kv)
  have f: "at_fields buf toks i p ((k, v) # xs @ ys)" using Cons.prems(1) kv by simp
  have q: "leaf v" "k \<noteq> ''result''" "v \<noteq> JStr ''result''"
    using Cons.prems(2) kv by (auto simp: quiet_def)
  note value' = at_fields_leaf [OF f q(1)]
  have "hexencoded_loop buf toks i n ret out = hexencoded_loop buf toks (i + 1) n ret out"
    using Cons.prems(3) at_fields_Cons(2) [OF f] q
    by (subst hexencoded_loop.simps) (simp add: key_eq [OF f])
  also have "\<dots> = hexencoded_loop buf toks (i + 2) n ret out"
    using Cons.prems(3) value'(2) q
    by (subst hexencoded_loop.simps) (simp add: leaf_eq [OF f q(1)])
  also have "\<dots> = hexencoded_loop buf toks (i + 2 + 2 * length xs) n ret out"
    by (rule Cons.IH [OF value'(3)]) (use Cons.prems(2,3) in auto)
  finally show ?case by simp
qed simp

lemma result_loop_id:
  assumes f: "at_fields buf toks i p ((''id'', JPrim ds) # kvs)" and n: "i < ntoks"
    and ds: "decimal ds" "dec_val ds < 2 ^ lbits"
  shows "result_loop lbits buf toks i ntoks out =
    result_loop lbits buf toks (i + 2) ntoks (out\<lparr>res_id := dec_val ds\<rparr>)"
proof -
  let ?q = "p + length ''id'' + 3"
  obtain c r where "drop ?q buf = ds @ c # r" "ends (c # r)" using at_fields_leaf(1) [OF f] by auto
  from json_uint10_decimal [OF ds(1) this ds(2), of JSMN_PRIMITIVE 0]
  have "json_uint10 lbits buf (hd (json_toks (JPrim ds) ?q)) = Inr (0, dec_val ds)" by simp
  with n at_fields_Cons(2) [OF f] at_fields_leaf(2) [OF f] show ?thesis
    by (subst result_loop.simps) (simp add: key_eq [OF f] del: json_toks.simps of_nat_add)
qed

lemma hexencoded_loop_result:
  assumes f: "at_fields buf toks i p ((''result'', JStr s) # kvs)" and n: "i < n" and s: "NUL \<notin> set s"
  shows "hexencoded_loop buf toks i n ret out =
    bindE (if length s \<le> 67 then fromstring256 s out else Inl Out_of_bounds)
      (\<lambda>(ret, x). if ret < 0 then Inr (ret, x) else hexencoded_loop buf toks (i + 2) n ret x)"
proof -
  let ?q = "p + length ''result'' + 3"
  obtain r where "drop ?q buf = quoted s @ r" using at_fields_leaf(1) [OF f] by auto
  from json_uint256_hex_string [OF this s, of 0 out]
  have "json_uint256_hex buf (hd (json_toks (JStr s) ?q)) out =
      (if length s \<le> 67 then fromstring256 s out else Inl Out_of_bounds)"
    by simp
  with n at_fields_Cons(2) [OF f] at_fields_leaf(2) [OF f] show ?thesis
    by (subst hexencoded_loop.simps) (simp add: key_eq [OF f] del: json_toks.simps of_nat_add)
qed

section \<open>Whole responses\<close>

definition response_field :: "field \<Rightarrow> bool" where
  "response_field kv \<longleftrightarrow> plain (fst kv) \<and> leaf (snd kv) \<and> json_ok (snd kv) \<and> fst kv \<noteq> ''error'' \<and>
    snd kv \<notin> JStr ` {''error'', ''id'', ''result''}"

abbreviation document :: "field list \<Rightarrow> string" where
  "document kvs \<equiv> json_text (JObj (members_of kvs))"

lemma fields_ok: "\<forall>kv \<in> set kvs. plain (fst kv) \<and> json_ok (snd kv) \<Longrightarrow> members_ok (members_of kvs)"
  by (induction kvs rule: members_of.induct) simp_all

lemma fields_size: "\<forall>kv \<in> set kvs. leaf (snd kv) \<Longrightarrow> members_size (members_of kvs) = 2 * length kvs"
  by (induction kvs rule: members_of.induct) (auto elim: leaf_cases)

lemma at_fields_document:
  "at_fields (document kvs @ tail) (json_toks (JObj (members_of kvs)) 0 @ rest) 1 1 kvs"
  by (auto simp: at_fields_def ends_def)

lemma result_loop_end: "result_loop lbits buf toks n n out = Inr (0, buf, out)"
  by (subst result_loop.simps) simp

lemma hexencoded_loop_end: "hexencoded_loop buf toks n n ret out = Inr (ret, out)"
  by (subst hexencoded_loop.simps) simp

text \<open>An object whose fields but one are passed over.\<close>

lemma result_loop_fields:
  assumes f: "at_fields buf toks i p (xs @ (''id'', JPrim ds) # ys)"
    and q: "\<forall>kv \<in> set xs. quiet {''error'', ''id''} kv" "\<forall>kv \<in> set ys. quiet {''error'', ''id''} kv"
    and ds: "decimal ds" "dec_val ds < 2 ^ lbits" and n: "n = i + 2 * (length xs + 1 + length ys)"
  shows "result_loop lbits buf toks i n out = Inr (0, buf, out\<lparr>res_id := dec_val ds\<rparr>)"
proof -
  let ?i = "i + 2 * length xs" and ?p = "p + sum_list (map width xs)"
  have g: "at_fields buf toks ?i ?p ((''id'', JPrim ds) # ys)"
    using at_fields_append [OF f] q(1) by (simp add: quiet_def)
  have h: "at_fields buf toks (?i + 2) (?p + width (''id'', JPrim ds)) (ys @ [])"
    using at_fields_leaf(3) [OF g] by simp
  have "result_loop lbits buf toks i n out = result_loop lbits buf toks ?i n out"
    by (rule result_loop_skip [OF f q(1)]) (use n in simp)
  also have "\<dots> = result_loop lbits buf toks (?i + 2) n (out\<lparr>res_id := dec_val ds\<rparr>)"
    by (rule result_loop_id [OF g _ ds]) (use n in simp)
  also have "\<dots> = result_loop lbits buf toks (?i + 2 + 2 * length ys) n (out\<lparr>res_id := dec_val ds\<rparr>)"
    by (rule result_loop_skip [OF h q(2)]) (use n in simp)
  also have "?i + 2 + 2 * length ys = n" using n by simp
  finally show ?thesis by (simp add: result_loop_end)
qed

lemma hexencoded_loop_fields:
  assumes f: "at_fields buf toks i p (xs @ (''result'', JStr s) # ys)"
    and q: "\<forall>kv \<in> set xs. quiet {''result''} kv" "\<forall>kv \<in> set ys. quiet {''result''} kv"
    and s: "NUL \<notin> set s" and n: "n = i + 2 * (length xs + 1 + length ys)"
  shows "hexencoded_loop buf toks i n ret out =
    (if length s \<le> 67 then fromstring256 s out else Inl Out_of_bounds)"
proof -
  let ?i = "i + 2 * length xs" and ?p = "p + sum_list (map width xs)"
  have g: "at_fields buf toks ?i ?p ((''result'', JStr s) # ys)"
    using at_fields_append [OF f] q(1) by (simp add: quiet_def)
  have h: "at_fields buf toks (?i + 2) (?p + width (''result'', JStr s)) (ys @ [])"
    using at_fields_leaf(3) [OF g] by simp
  have "hexencoded_loop buf toks i n ret out = hexencoded_loop buf toks ?i n ret out"
    by (rule hexencoded_loop_skip [OF f q(1)]) (use n in simp)
  also have "\<dots> = bindE (if length s \<le> 67 then fromstring256 s out else Inl Out_of_bounds)
      (\<lambda>(ret, x). if ret < 0 then Inr (ret, x) else hexencoded_loop buf toks (?i + 2) n ret x)"
    by (rule hexencoded_loop_result [OF g _ s]) (use n in simp)
  also have "(\<lambda>(ret, x). if ret < 0 then Inr (ret, x) else hexencoded_loop buf toks (?i + 2) n ret x) = Inr"
  proof (intro ext, clarify)
    fix ret :: int and x
    have "hexencoded_loop buf toks (?i + 2) n ret x = hexencoded_loop buf toks (?i + 2 + 2 * length ys) n ret x"
      by (rule hexencoded_loop_skip [OF h q(2)]) (use n in simp)
    also have "?i + 2 + 2 * length ys = n" using n by simp
    finally show "(if ret < 0 then Inr (ret, x) else hexencoded_loop buf toks (?i + 2) n ret x) = Inr (ret, x)"
      by (simp add: hexencoded_loop_end)
  qed
  finally show ?thesis by (simp add: bindE_def split: sum.splits)
qed

lemma split_field:
  assumes "distinct (map fst kvs)" "(k, v) \<in> set kvs"
  obtains xs ys where "kvs = xs @ (k, v) # ys" "k \<notin> fst ` set xs" "k \<notin> fst ` set ys"
proof -
  from split_list [OF assms(2)] obtain xs ys where "kvs = xs @ (k, v) # ys" by blast
  with assms(1) that show ?thesis by auto
qed

lemma decode_document:
  assumes kvs: "\<forall>kv \<in> set kvs. response_field kv" "distinct (map fst kvs)"
    and id: "(''id'', JPrim ds) \<in> set kvs" "decimal ds" "dec_val ds < 2 ^ lbits"
    and res: "(''result'', JStr s) \<in> set kvs"
    and room: "length kvs \<le> 31" "length t = 64"
  shows "jsonrpc_decode_hexencoded lbits t (document kvs @ tail) (length (document kvs)) result out =
    bindE (if length s \<le> 67 then fromstring256 s out else Inl Out_of_bounds)
      (\<lambda>(ret, x). Inr (ret, document kvs @ tail, result\<lparr>res_id := dec_val ds\<rparr>, x))"
proof -
  let ?v = "JObj (members_of kvs)" and ?buf = "document kvs @ tail"
  have leafs: "\<forall>kv \<in> set kvs. leaf (snd kv)" using kvs(1) by (simp add: response_field_def)
  have size: "json_size ?v = 1 + 2 * length kvs" using fields_size [OF leafs] by simp
  have ok: "json_ok ?v" using fields_ok [of kvs] kvs(1) by (simp add: response_field_def)
  let ?toks = "json_toks ?v 0 @ drop (json_size ?v) t"
  obtain parser' where parse: "jsmn_parse jsmn_init (document kvs) (Some t) 64 =
      Inr (int (json_size ?v), parser', Some ?toks)"
    using jsmn_parse_text [OF ok, of 64 t] room size by auto
  have r: "read_at ?buf 0 (length (document kvs)) = Inr (document kvs)" by (simp add: read_at_def)
  have at: "at_fields ?buf ?toks 1 1 kvs" by (rule at_fields_document)
  have t0: "tok_get ?toks 0 = Inr (tok JSMN_OBJECT 0 (length (members_text (members_of kvs)) + 2) (members_count (members_of kvs)))"
    by (simp add: tok_get_def)
  have quiet: "\<forall>kv \<in> set zs. quiet names kv"
    if "set zs \<subseteq> set kvs" "names \<inter> fst ` set zs = {}" "names \<subseteq> {''error'', ''id'', ''result''}" for zs names
    using that kvs(1) unfolding quiet_def response_field_def by blast
  have plain: "NUL \<notin> set s" using bspec [OF kvs(1) res] by (auto simp: response_field_def plain_def)
  obtain xs ys where xs: "kvs = xs @ (''id'', JPrim ds) # ys" "''id'' \<notin> fst ` set xs" "''id'' \<notin> fst ` set ys"
    by (rule split_field [OF kvs(2) id(1)])
  have no_error: "''error'' \<notin> fst ` set kvs" using kvs(1) by (auto simp: response_field_def)
  have "result_loop lbits ?buf ?toks 1 (json_size ?v) result = Inr (0, ?buf, result\<lparr>res_id := dec_val ds\<rparr>)"
  proof (rule result_loop_fields [OF _ _ _ id(2,3)])
    show "at_fields ?buf ?toks 1 1 (xs @ (''id'', JPrim ds) # ys)" using at xs(1) by simp
    show "\<forall>kv \<in> set xs. quiet {''error'', ''id''} kv" "\<forall>kv \<in> set ys. quiet {''error'', ''id''} kv"
      using xs no_error by (intro quiet; auto)+
    show "json_size ?v = 1 + 2 * (length xs + 1 + length ys)" using size xs(1) by simp
  qed
  then have one: "jsonrpc_result lbits ?buf ?toks (json_size ?v) result =
      Inr (0, ?buf, result\<lparr>res_id := dec_val ds\<rparr>)"
    using size t0 by (simp add: jsonrpc_result_def)
  obtain us vs where us: "kvs = us @ (''result'', JStr s) # vs" "''result'' \<notin> fst ` set us" "''result'' \<notin> fst ` set vs"
    by (rule split_field [OF kvs(2) res])
  have two: "hexencoded_loop ?buf ?toks 1 (json_size ?v) 0 out =
      (if length s \<le> 67 then fromstring256 s out else Inl Out_of_bounds)"
  proof (rule hexencoded_loop_fields [OF _ _ _ plain])
    show "at_fields ?buf ?toks 1 1 (us @ (''result'', JStr s) # vs)" using at us(1) by simp
    show "\<forall>kv \<in> set us. quiet {''result''} kv" "\<forall>kv \<in> set vs. quiet {''result''} kv"
      using us by (intro quiet; auto)+
    show "json_size ?v = 1 + 2 * (length us + 1 + length vs)" using size us(1) by simp
  qed
  have nat: "nat (1 + 2 * int (length kvs)) = Suc (2 * length kvs)" by simp
  show ?thesis
    unfolding jsonrpc_decode_hexencoded_def r bindE_Inr parse
    using one two t0 size by (simp add: split_def Let_def nat del: json_toks.simps json_size.simps json_text.simps)
qed

lemma jsmn_loop_blank:
  "\<forall>c \<in> set (drop (p_pos ps) js). c = CHR '' '' \<or> c = TAB \<or> c = CR \<or> c = LF \<Longrightarrow>
   p_pos ps \<le> length js \<Longrightarrow>
   jsmn_loop js num ps (Some toks) count =
     Some (Inr (Inr count, ps\<lparr>p_pos := length js\<rparr>, Some toks))"
proof (induction "length js - p_pos ps" arbitrary: ps)
  case 0
  then show ?case by (subst jsmn_loop.simps) simp
next
  case (Suc n)
  let ?c = "js ! p_pos ps"
  have p: "p_pos ps < length js" using Suc.hyps(2) by simp
  then have d: "drop (p_pos ps) js = ?c # drop (Suc (p_pos ps)) js" by (simp add: Cons_nth_drop_Suc)
  have c: "?c = CHR '' '' \<or> ?c = TAB \<or> ?c = CR \<or> ?c = LF" using Suc.prems(1) d by simp
  then have "?c \<noteq> NUL" "jsmn_turn js num ps (Some toks) count = Inr (Inr count, ps, Some toks)"
    by (auto simp: jsmn_turn_def NUL_def QUOTE_def TAB_def CR_def LF_def)
  moreover have "jsmn_loop js num (ps\<lparr>p_pos := p_pos ps + 1\<rparr>) (Some toks) count =
      Some (Inr (Inr count, ps\<lparr>p_pos := length js\<rparr>, Some toks))"
    using Suc.hyps(1) [of "ps\<lparr>p_pos := p_pos ps + 1\<rparr>"] Suc.hyps(2) Suc.prems(1) d p by simp
  ultimately show ?case using p by (subst jsmn_loop.simps) simp
qed

lemma decode_hex_document:
  assumes "\<forall>kv \<in> set kvs. response_field kv" "distinct (map fst kvs)" "length kvs \<le> 31" "length t = 64"
    and "(''id'', JPrim ds) \<in> set kvs" "decimal ds" "dec_val ds < 2 ^ lbits"
    and res: "(''result'', JStr (''0x'' @ hs)) \<in> set kvs"
    and hs: "hs \<noteq> []" "length hs \<le> 64" "\<forall>c \<in> set hs. 0 \<le> map_hex c"
  shows "\<exists>x. jsonrpc_decode_hexencoded lbits t (document kvs @ tail) (length (document kvs)) result out =
      Inr (0, document kvs @ tail, result\<lparr>res_id := dec_val ds\<rparr>, x) \<and> val256 x = hex_val hs"
proof -
  have "\<not> has_0x hs" using map_hex_no_0x [OF hs(3)] .
  with fromstring256_0x [OF hs(1)] have f: "fromstring256 (''0x'' @ hs) out = fromstring256 hs out" by simp
  obtain x where x: "fromstring256 hs out = Inr (0, x)" "val256 x = hex_val hs"
    using fromstring256_digits [OF hs] by blast
  have len: "length (''0x'' @ hs) \<le> 67" using hs(2) by simp
  show ?thesis
    unfolding decode_document [OF assms(1,2,5,6,7) res assms(3,4)]
    using f x len by simp
qed

lemma decode_blank:
  assumes "\<forall>c \<in> set (take n buf). c = CHR '' '' \<or> c = TAB \<or> c = CR \<or> c = LF" "n \<le> length buf"
  shows "jsonrpc_decode_hexencoded lbits t buf n result out = Inl Assertion_failed \<and>
    jsonrpc_decode_txreceipt lbits t buf n result receipt = Inl Assertion_failed"
proof -
  have "jsmn_parse jsmn_init (take n buf) (Some t) 64 =
      Inr (0, jsmn_init\<lparr>p_pos := length (take n buf)\<rparr>, Some t)"
    using jsmn_loop_blank [of jsmn_init "take n buf" 64 t 0] assms(1)
    by (simp add: jsmn_parse_def jsmn_init_def returns_def)
  with assms(2) show ?thesis
    by (simp add: jsonrpc_decode_hexencoded_def jsonrpc_decode_txreceipt_def read_at_def
        jsonrpc_result_def Let_def)
qed

section \<open>Properties\<close>

text \<open>
  C17: decoding a response. For a JSON-RPC object whose fields, in any order and with any other
  fields among them, hold a decimal \<open>id\<close> and a \<open>result\<close> of 1 to 64 hexadecimal digits behind \<open>0x\<close>,
  \<open>jsonrpc_decode_hexencoded\<close> returns 0, the identifier and the number, whatever follows the response in
  the buffer, and leaves the buffer and the error as they were.
\<close>

theorem decode_hexencoded_response:
  assumes "\<forall>kv \<in> set kvs. response_field kv" "distinct (map fst kvs)" "length kvs \<le> 31" "length t = 64"
    and "(''id'', JPrim ds) \<in> set kvs" "decimal ds" "dec_val ds < 2 ^ lbits"
    and res: "(''result'', JStr (''0x'' @ hs)) \<in> set kvs"
    and hs: "hs \<noteq> []" "length hs \<le> 64" "\<forall>c \<in> set hs. 0 \<le> map_hex c"
  shows "\<exists>x. jsonrpc_decode_hexencoded lbits t (document kvs @ tail) (length (document kvs)) result out =
      Inr (0, document kvs @ tail, result\<lparr>res_id := dec_val ds\<rparr>, x) \<and> val256 x = hex_val hs"
  using assms by (rule decode_hex_document)

theorem decode_hexencoded_response_witness:
  "\<exists>x. jsonrpc_decode_hexencoded 32 (replicate 64 (tok JSMN_UNDEFINED 0 0 0))
      (document [(''jsonrpc'', JStr ''2.0''), (''result'', JStr ''0x2a''), (''id'', JPrim ''17'')] @ ''trailing'')
      (length (document [(''jsonrpc'', JStr ''2.0''), (''result'', JStr ''0x2a''), (''id'', JPrim ''17'')]))
      \<lparr>res_id = 0, res_error = \<lparr>err_code = 0, err_message = None\<rparr>\<rparr> clear256 =
    Inr (0, document [(''jsonrpc'', JStr ''2.0''), (''result'', JStr ''0x2a''), (''id'', JPrim ''17'')] @ ''trailing'',
      \<lparr>res_id = 17, res_error = \<lparr>err_code = 0, err_message = None\<rparr>\<rparr>, x) \<and> val256 x = 42"
proof -
  let ?kvs = "[(''jsonrpc'', JStr ''2.0''), (''result'', JStr ''0x2a''), (''id'', JPrim ''17'')]"
  have ok: "\<forall>kv \<in> set ?kvs. response_field kv"
    by (simp add: response_field_def plain_def primitive_def structural_def NUL_def QUOTE_def BACKSLASH_def)
  have v: "dec_val ''17'' = 17" "hex_val ''2a'' = 42" by (simp_all add: dec_val_def hex_val_def map_hex_def)
  show ?thesis
    using decode_hexencoded_response [of ?kvs "replicate 64 (tok JSMN_UNDEFINED 0 0 0)" "''17''" 32 "''2a''"
        "''trailing''" "\<lparr>res_id = 0, res_error = \<lparr>err_code = 0, err_message = None\<rparr>\<rparr>" clear256, OF ok] v
    by (simp add: decimal_def map_hex_def del: json_text.simps)
qed

text \<open>
  An overlong result. When the \<open>result\<close> of an otherwise well-formed response has more than 67
  characters, \<open>__json_uint256_hex\<close> copies it beyond its 68-byte buffer: the length is never checked.
\<close>

lemma decode_hexencoded_overlong:
  assumes "\<forall>kv \<in> set kvs. response_field kv" "distinct (map fst kvs)" "length kvs \<le> 31" "length t = 64"
    and "(''id'', JPrim ds) \<in> set kvs" "decimal ds" "dec_val ds < 2 ^ lbits"
    and "(''result'', JStr s) \<in> set kvs" "67 < length s"
  shows "jsonrpc_decode_hexencoded lbits t (document kvs @ tail) (length (document kvs)) result out =
    Inl Out_of_bounds"
  unfolding decode_document [OF assms(1,2,5,6,7,8,3,4)] using assms(9) by simp

lemma decode_hexencoded_overlong_witness:
  "jsonrpc_decode_hexencoded 32 (replicate 64 (tok JSMN_UNDEFINED 0 0 0))
      (document [(''id'', JPrim ''1''), (''result'', JStr (replicate 68 CHR ''f''))] @ [])
      (length (document [(''id'', JPrim ''1''), (''result'', JStr (replicate 68 CHR ''f''))]))
      \<lparr>res_id = 0, res_error = \<lparr>err_code = 0, err_message = None\<rparr>\<rparr> clear256 = Inl Out_of_bounds"
proof -
  let ?kvs = "[(''id'', JPrim ''1''), (''result'', JStr (replicate 68 CHR ''f''))]"
  have ne: "replicate 68 CHR ''f'' \<noteq> s" if "length s < 68" for s using that by auto
  have ok: "\<forall>kv \<in> set ?kvs. response_field kv"
    using ne by (auto simp: response_field_def plain_def primitive_def structural_def NUL_def QUOTE_def BACKSLASH_def)
  have v: "dec_val ''1'' = 1" by (simp add: dec_val_def map_hex_def)
  show ?thesis
    by (rule decode_hexencoded_overlong [OF ok, where ds = "''1''" and s = "replicate 68 CHR ''f''"])
      (use v in \<open>simp_all add: decimal_def\<close>)
qed

text \<open>
  No response. A body without any token (empty, or blanks only) stops the decoders at an
  assertion instead of an error result.
\<close>

lemma decode_no_response:
  assumes "\<forall>c \<in> set (take n buf). c = CHR '' '' \<or> c = TAB \<or> c = CR \<or> c = LF" "n \<le> length buf"
  shows "jsonrpc_decode_hexencoded lbits t buf n result out = Inl Assertion_failed \<and>
    jsonrpc_decode_txreceipt lbits t buf n result receipt = Inl Assertion_failed"
  using assms by (rule decode_blank)

lemma decode_no_response_witness:
  "jsonrpc_decode_hexencoded 32 [] (''  '' @ [LF]) 3
    \<lparr>res_id = 0, res_error = \<lparr>err_code = 0, err_message = None\<rparr>\<rparr> clear256 = Inl Assertion_failed"
  using decode_no_response [of 3 "''  '' @ [LF]" 32 "[]"] by simp

end
