(* ===== verification/HttpService.thy ===== *)
theory HttpService
  imports Prelude
begin

text \<open>
  \<open>zephyr-wallet/http_service.c\<close> and \<open>http_utils.c\<close>: the HTTP client shared by all threads, behind a
  mutex that a successful request keeps until the reply is released. The kernel's mutex and the
  HTTP library are arguments: a \<open>platform\<close>, with states of any type. \<open>asserts\<close> says whether assertions are
  compiled in.
\<close>

section \<open>Definitions\<close>

type_synonym thread = nat

datatype http_method = HTTP_HEAD | HTTP_OPTIONS | HTTP_PUT | HTTP_POST | HTTP_OTHER

definition E2BIG :: int where "E2BIG = 7"
definition EINVAL :: int where "EINVAL = 22"
definition RESULT_BUF_SIZE :: nat where "RESULT_BUF_SIZE = 1600"

text \<open>\<open>struct http_request\<close>; a payload is the memory behind the pointer.\<close>

record http_request =
  req_method :: http_method
  req_url :: "string option"
  req_header_fields :: "string option"
  req_content_type :: "string option"
  req_payload :: "string option"
  req_payload_size :: nat

text \<open>What the library leaves in \<open>http_ctx\<close>: \<open>body_start\<close> as an offset in the result buffer, \<open>None\<close> for NULL.\<close>

record http_rsp =
  rsp_data_len :: nat
  rsp_body_start :: "nat option"
  rsp_content_length :: nat
  rsp_http_errno :: nat
  rsp_status_code :: int

text \<open>
  The mutex state \<open>'m\<close> and the network state \<open>'n\<close> are the platform's. \<open>k_mutex_lock\<close> is \<open>None\<close> when the
  thread waits forever.
\<close>

record ('m, 'n) platform =
  k_mutex_lock :: "thread \<Rightarrow> 'm \<Rightarrow> 'm option"
  k_mutex_unlock :: "thread \<Rightarrow> 'm \<Rightarrow> 'm"
  http_client_init :: "string option \<Rightarrow> nat \<Rightarrow> 'n \<Rightarrow> int \<times> 'n"
  http_client_send_req :: "http_request \<Rightarrow> nat \<Rightarrow> string \<Rightarrow> 'n \<Rightarrow> int \<times> http_rsp \<times> string \<times> 'n"
  http_close :: "'n \<Rightarrow> 'n"
  http_release :: "'n \<Rightarrow> 'n"

text \<open>\<open>content\<close> points into the result buffer; \<open>_priv\<close> is NULL or the client's mutex.\<close>

record http_nfo_t =
  nfo_host :: "string option"
  nfo_port :: nat
  nfo_url :: "string option"
  nfo_content_type :: "string option"
  nfo_headers :: "string option"
  nfo_payload :: "string option"
  nfo_payload_size :: nat
  nfo_content :: "nat option"
  nfo_content_size :: nat
  nfo_priv :: bool

text \<open>The shared state: \<open>http_client_mutex\<close>, \<open>http_ctx\<close> and the static buffer \<open>result\<close>.\<close>

record ('m, 'n) http_world =
  w_mutex :: 'm
  w_net :: 'n
  w_result :: string

definition on_headers_complete :: "http_method \<Rightarrow> nat \<Rightarrow> int" where
  "on_headers_complete method content_length =
    (if (method = HTTP_HEAD \<or> method = HTTP_OPTIONS) \<and> content_length > 0 then 1
     else if (method = HTTP_PUT \<or> method = HTTP_POST) \<and> content_length = 0 then 1
     else 0)"

definition do_sync_http_req ::
    "('m, 'n) platform \<Rightarrow> http_method \<Rightarrow> string option \<Rightarrow> string option \<Rightarrow> string option \<Rightarrow> string option \<Rightarrow> nat \<Rightarrow>
     string \<Rightarrow> nat \<Rightarrow> 'n \<Rightarrow> int \<times> http_rsp \<times> string \<times> 'n" where
  "do_sync_http_req pf method url headers content_type payload payload_size result result_size net =
    (let req = \<lparr>req_method = method, req_url = url, req_header_fields = headers,
           req_content_type = content_type, req_payload = payload, req_payload_size = payload_size\<rparr>;
         (ret, rsp, result, net) = http_client_send_req pf req result_size result net;
         ret = (if ret < 0 then ret
           else if rsp_data_len rsp > result_size then - E2BIG
           else if rsp_http_errno rsp \<noteq> 0 then (if method = HTTP_OPTIONS then ret else - EINVAL)
           else ret)
     in (ret, rsp, result, http_close pf net))"

definition assert_nfo :: "bool \<Rightarrow> http_nfo_t \<Rightarrow> unit outcome" where
  "assert_nfo asserts nfo = assertE (asserts \<longrightarrow>
     nfo_host nfo \<noteq> None \<and> nfo_port nfo \<noteq> 0 \<and> nfo_url nfo \<noteq> None \<and> nfo_content_type nfo \<noteq> None \<and>
     \<not> nfo_priv nfo)"

text \<open>The label \<open>out\<close>: unlock on an error, release the context.\<close>

definition http_send_out ::
    "('m, 'n) platform \<Rightarrow> thread \<Rightarrow> int \<Rightarrow> http_nfo_t \<Rightarrow> ('m, 'n) http_world \<Rightarrow> int \<times> http_nfo_t \<times> ('m, 'n) http_world" where
  "http_send_out pf t ret nfo w =
    (let m = (if ret < 0 then k_mutex_unlock pf t (w_mutex w) else w_mutex w)
     in (ret, nfo, w\<lparr>w_mutex := m, w_net := http_release pf (w_net w)\<rparr>))"

definition http_send_data ::
    "('m, 'n) platform \<Rightarrow> bool \<Rightarrow> thread \<Rightarrow> http_nfo_t \<Rightarrow> ('m, 'n) http_world \<Rightarrow>
     (int \<times> http_nfo_t \<times> ('m, 'n) http_world) outcome" where
  "http_send_data pf asserts t nfo w =
    bindE (returns (k_mutex_lock pf t (w_mutex w))) (\<lambda>m.
    let w = w\<lparr>w_mutex := m\<rparr> in
    bindE (assert_nfo asserts nfo) (\<lambda>_.
    let nfo = nfo\<lparr>nfo_priv := False\<rparr>;
        (ret, net) = http_client_init pf (nfo_host nfo) (nfo_port nfo) (w_net w);
        w = w\<lparr>w_net := net\<rparr> in
    if ret < 0 then Inr (http_send_out pf t ret nfo w)
    else
      let (ret, rsp, result, net) = do_sync_http_req pf HTTP_POST (nfo_url nfo) (nfo_headers nfo)
            (nfo_content_type nfo) (nfo_payload nfo) (nfo_payload_size nfo) (w_result w) RESULT_BUF_SIZE (w_net w);
          w = w\<lparr>w_net := net, w_result := result\<rparr> in
      if ret < 0 then Inr (http_send_out pf t ret nfo w)
      else
        let nfo = nfo\<lparr>nfo_content := rsp_body_start rsp, nfo_content_size := rsp_content_length rsp,
              nfo_priv := True\<rparr>;
            ret = rsp_status_code rsp in
        bindE (assertE (asserts \<longrightarrow> ret > 0)) (\<lambda>_.
        Inr (http_send_out pf t ret nfo w))))"

definition http_nfo_free ::
    "('m, 'n) platform \<Rightarrow> thread \<Rightarrow> http_nfo_t \<Rightarrow> ('m, 'n) http_world \<Rightarrow> http_nfo_t \<times> ('m, 'n) http_world" where
  "http_nfo_free pf t nfo w =
    (if nfo_priv nfo then
       (nfo\<lparr>nfo_content := None, nfo_content_size := 0\<rparr>, w\<lparr>w_mutex := k_mutex_unlock pf t (w_mutex w)\<rparr>)
     else (nfo, w))"

section \<open>The lock\<close>

text \<open>
  The documented behaviour of the kernel's mutex: \<open>level t m\<close> is how often thread \<open>t\<close> holds it. It is
  given to a thread when no other thread holds it, counts the nested locks of its owner, and an
  unlock by the owner takes one back.
\<close>

definition mutex_laws :: "('m, 'n) platform \<Rightarrow> (thread \<Rightarrow> 'm \<Rightarrow> nat) \<Rightarrow> bool" where
  "mutex_laws pf level \<longleftrightarrow>
    (\<forall>t m m'. k_mutex_lock pf t m = Some m' \<longrightarrow>
       (\<forall>u. u \<noteq> t \<longrightarrow> level u m = 0) \<and> level t m' = level t m + 1 \<and> (\<forall>u. u \<noteq> t \<longrightarrow> level u m' = 0)) \<and>
    (\<forall>t m. (\<forall>u. u \<noteq> t \<longrightarrow> level u m = 0) \<longrightarrow> k_mutex_lock pf t m \<noteq> None) \<and>
    (\<forall>t m. 0 < level t m \<longrightarrow> level t (k_mutex_unlock pf t m) = level t m - 1 \<and>
       (\<forall>u. u \<noteq> t \<longrightarrow> level u (k_mutex_unlock pf t m) = level u m))"

lemma send_data_levels:
  assumes laws: "mutex_laws pf level" and s: "http_send_data pf asserts t nfo w = Inr (ret, nfo', w')"
  shows "(\<forall>u. u \<noteq> t \<longrightarrow> level u (w_mutex w) = 0) \<and> (\<forall>u. u \<noteq> t \<longrightarrow> level u (w_mutex w') = 0) \<and>
    level t (w_mutex w') = (if ret < 0 then level t (w_mutex w) else level t (w_mutex w) + 1) \<and>
    (0 \<le> ret \<longrightarrow> nfo_priv nfo')"
proof -
  obtain m where m: "k_mutex_lock pf t (w_mutex w) = Some m"
    using s by (cases "k_mutex_lock pf t (w_mutex w)") (simp_all add: http_send_data_def)
  then have l: "\<forall>u. u \<noteq> t \<longrightarrow> level u (w_mutex w) = 0" "level t m = level t (w_mutex w) + 1"
      "\<forall>u. u \<noteq> t \<longrightarrow> level u m = 0"
    using laws unfolding mutex_laws_def by blast+
  have ul: "level t (k_mutex_unlock pf t m) = level t (w_mutex w)" "\<forall>u. u \<noteq> t \<longrightarrow> level u (k_mutex_unlock pf t m) = 0"
    using laws l unfolding mutex_laws_def by simp_all
  from s m have "w_mutex w' = (if ret < 0 then k_mutex_unlock pf t m else m) \<and> (0 \<le> ret \<longrightarrow> nfo_priv nfo')"
    by (auto simp: http_send_data_def http_send_out_def assert_nfo_def Let_def bindE_eq_Inr assertE_def
        split: prod.splits if_splits)
  with l ul show ?thesis by auto
qed

lemma nfo_free_levels:
  assumes "mutex_laws pf level" "http_nfo_free pf t nfo w = (nfo', w')" "nfo_priv nfo" "0 < level t (w_mutex w)"
  shows "level t (w_mutex w') = level t (w_mutex w) - 1 \<and>
    (\<forall>u. u \<noteq> t \<longrightarrow> level u (w_mutex w') = level u (w_mutex w)) \<and> w_result w' = w_result w \<and> nfo_priv nfo'"
  using assms unfolding mutex_laws_def http_nfo_free_def by auto

text \<open>Only a thread that waits for the mutex does not return.\<close>

lemma send_data_blocks:
  "http_send_data pf asserts t nfo w = Inl No_return \<longleftrightarrow> k_mutex_lock pf t (w_mutex w) = None"
  by (cases "k_mutex_lock pf t (w_mutex w)")
    (auto simp: http_send_data_def assert_nfo_def Let_def assertE_def split: prod.splits)

lemma http_waits_iff:
  assumes "mutex_laws pf level"
  shows "http_send_data pf asserts t nfo w = Inl No_return \<longleftrightarrow> (\<exists>u. u \<noteq> t \<and> level u (w_mutex w) \<noteq> 0)"
proof -
  have "k_mutex_lock pf t (w_mutex w) = None \<longleftrightarrow> (\<exists>u. u \<noteq> t \<and> level u (w_mutex w) \<noteq> 0)"
    using assms unfolding mutex_laws_def by (metis not_None_eq)
  then show ?thesis by (simp add: send_data_blocks)
qed

lemma http_waits:
  "mutex_laws pf level \<Longrightarrow> 0 < level t (w_mutex w) \<Longrightarrow> u \<noteq> t \<Longrightarrow> http_send_data pf asserts u nfo w = Inl No_return"
  using http_waits_iff by fastforce

section \<open>Threads\<close>

text \<open>
  The threads that use the client: each prepares its structure, sends, reads the reply and frees it.
  \<open>s_have t\<close> is the content of the result buffer at the end of the successful request of \<open>t\<close>, until \<open>t\<close>
  frees it. The calls of the threads are interleaved in any order.
\<close>

record ('m, 'n) http_system =
  s_world :: "('m, 'n) http_world"
  s_nfo :: "thread \<Rightarrow> http_nfo_t"
  s_have :: "thread \<Rightarrow> string option"

inductive http_step :: "('m, 'n) platform \<Rightarrow> bool \<Rightarrow> ('m, 'n) http_system \<Rightarrow> ('m, 'n) http_system \<Rightarrow> bool"
  for pf asserts where
  send: "s_have s t = None \<Longrightarrow> http_send_data pf asserts t nfo (s_world s) = Inr (ret, nfo', w') \<Longrightarrow>
    http_step pf asserts s (s\<lparr>s_world := w', s_nfo := (s_nfo s)(t := nfo'),
      s_have := (s_have s)(t := if ret < 0 then None else Some (w_result w'))\<rparr>)"
| free: "s_have s t \<noteq> None \<Longrightarrow> http_nfo_free pf t (s_nfo s t) (s_world s) = (nfo', w') \<Longrightarrow>
    http_step pf asserts s (s\<lparr>s_world := w', s_nfo := (s_nfo s)(t := nfo'), s_have := (s_have s)(t := None)\<rparr>)"

inductive http_reach :: "('m, 'n) platform \<Rightarrow> bool \<Rightarrow> ('m, 'n) http_system \<Rightarrow> ('m, 'n) http_system \<Rightarrow> bool"
  for pf asserts where
  refl: "http_reach pf asserts s s"
| step: "http_reach pf asserts s s' \<Longrightarrow> http_step pf asserts s' s'' \<Longrightarrow> http_reach pf asserts s s''"

text \<open>A thread holds the mutex, once, exactly while it has a reply, which is then in the buffer.\<close>

definition http_inv :: "(thread \<Rightarrow> 'm \<Rightarrow> nat) \<Rightarrow> ('m, 'n) http_system \<Rightarrow> bool" where
  "http_inv level s \<longleftrightarrow> (\<forall>t. case s_have s t of
       None \<Rightarrow> level t (w_mutex (s_world s)) = 0
     | Some r \<Rightarrow> level t (w_mutex (s_world s)) = 1 \<and> nfo_priv (s_nfo s t) \<and> w_result (s_world s) = r \<and>
         (\<forall>u. u \<noteq> t \<longrightarrow> s_have s u = None))"

lemma http_step_inv:
  assumes laws: "mutex_laws pf level" and inv: "http_inv level s" and "http_step pf asserts s s'"
  shows "http_inv level s'"
  using assms(3)
proof (cases rule: http_step.cases)
  case (send t nfo ret nfo' w')
  note l = send_data_levels [OF laws send(3)]
  have idle: "s_have s u = None" if "u \<noteq> t" for u
  proof (cases "s_have s u")
    case (Some r)
    with inv have "level u (w_mutex (s_world s)) = 1" unfolding http_inv_def by (auto dest: spec [of _ u])
    with l that show ?thesis by simp
  qed
  have "level t (w_mutex (s_world s)) = 0" using spec [OF inv [unfolded http_inv_def], of t] send(2) by simp
  with l idle send(1) show ?thesis by (auto simp: http_inv_def)
next
  case (free t nfo' w')
  then obtain r where r: "s_have s t = Some r" by blast
  with inv have h: "level t (w_mutex (s_world s)) = 1" "nfo_priv (s_nfo s t)" "\<forall>u. u \<noteq> t \<longrightarrow> s_have s u = None"
    unfolding http_inv_def by (auto dest: spec [of _ t])
  then have others: "level u (w_mutex (s_world s)) = 0" if "u \<noteq> t" for u
    using inv that unfolding http_inv_def by (auto dest: spec [of _ u])
  from nfo_free_levels [OF laws free(3) h(2)] h(1)
  have "level t (w_mutex w') = 0" "\<forall>u. u \<noteq> t \<longrightarrow> level u (w_mutex w') = 0" using others by auto
  with free(1) h(3) show ?thesis by (auto simp: http_inv_def)
qed

lemma http_reach_inv:
  "http_reach pf asserts s s' \<Longrightarrow> mutex_laws pf level \<Longrightarrow> http_inv level s \<Longrightarrow> http_inv level s'"
  by (induction rule: http_reach.induct) (auto intro: http_step_inv)

text \<open>A platform for the witnesses: a counting mutex, and a server that answers every request.\<close>

definition demo_level :: "thread \<Rightarrow> thread \<times> nat \<Rightarrow> nat" where
  "demo_level t m = (if fst m = t then snd m else 0)"

definition demo_platform :: "string \<Rightarrow> (thread \<times> nat, unit) platform" where
  "demo_platform reply =
    \<lparr>k_mutex_lock = (\<lambda>t m. if snd m = 0 \<or> fst m = t then Some (t, snd m + 1) else None),
     k_mutex_unlock = (\<lambda>t m. (fst m, snd m - 1)),
     http_client_init = (\<lambda>host port n. (0, n)),
     http_client_send_req = (\<lambda>req size result n.
       (0, \<lparr>rsp_data_len = length reply, rsp_body_start = Some 0, rsp_content_length = length reply,
            rsp_http_errno = 0, rsp_status_code = 200\<rparr>, reply @ drop (length reply) result, n)),
     http_close = id, http_release = id\<rparr>"

lemma demo_laws: "mutex_laws (demo_platform reply) demo_level"
  unfolding mutex_laws_def demo_platform_def demo_level_def by (auto split: if_splits)

definition demo_nfo :: http_nfo_t where
  "demo_nfo = \<lparr>nfo_host = Some ''10.0.0.1'', nfo_port = 8545, nfo_url = Some ''/'',
     nfo_content_type = Some ''application/json'', nfo_headers = None, nfo_payload = Some [],
     nfo_payload_size = 0, nfo_content = None, nfo_content_size = 0, nfo_priv = False\<rparr>"

definition demo_world :: "(thread \<times> nat, unit) http_world" where
  "demo_world = \<lparr>w_mutex = (0, 0), w_net = (), w_result = replicate 1600 CHR 0x00\<rparr>"

lemmas demo_simps = demo_platform_def demo_nfo_def demo_world_def http_send_data_def http_send_out_def
  http_nfo_free_def do_sync_http_req_def assert_nfo_def RESULT_BUF_SIZE_def Let_def

section \<open>Properties\<close>

text \<open>
  C28: the reply of a request stays the requester's. In every interleaving of the threads' requests
  and releases, on any kernel and network, a thread that has a reply it has not released finds it
  unchanged in the shared result buffer, no other thread has one, and it holds the mutex exactly
  once; a thread without a reply does not hold it.
\<close>

theorem http_reply_exclusive:
  assumes "mutex_laws pf level" "\<forall>t. s_have s t = None" "\<forall>t. level t (w_mutex (s_world s)) = 0"
    and "http_reach pf asserts s s'"
  shows "(\<forall>t r. s_have s' t = Some r \<longrightarrow> w_result (s_world s') = r \<and> level t (w_mutex (s_world s')) = 1 \<and>
      (\<forall>u. u \<noteq> t \<longrightarrow> s_have s' u = None)) \<and>
    (\<forall>t. s_have s' t = None \<longrightarrow> level t (w_mutex (s_world s')) = 0)"
proof -
  have "http_inv level s" using assms(2,3) by (simp add: http_inv_def)
  from http_reach_inv [OF assms(4,1) this] have inv: "http_inv level s'" .
  show ?thesis
  proof (intro conjI allI impI)
    fix t r assume "s_have s' t = Some r"
    with spec [OF inv [unfolded http_inv_def], of t]
    show "w_result (s_world s') = r" "level t (w_mutex (s_world s')) = 1" "\<And>u. u \<noteq> t \<Longrightarrow> s_have s' u = None"
      by simp_all
  next
    fix t assume "s_have s' t = None"
    with spec [OF inv [unfolded http_inv_def], of t] show "level t (w_mutex (s_world s')) = 0" by simp
  qed
qed

theorem http_reply_exclusive_witness:
  "\<exists>s. http_reach (demo_platform ''42'') True \<lparr>s_world = demo_world, s_nfo = (\<lambda>t. demo_nfo), s_have = (\<lambda>t. None)\<rparr> s \<and>
    s_have s 7 = Some (''42'' @ replicate 1598 CHR 0x00) \<and> w_result (s_world s) = ''42'' @ replicate 1598 CHR 0x00"
proof -
  let ?pf = "demo_platform ''42''"
  let ?s = "\<lparr>s_world = demo_world, s_nfo = (\<lambda>t. demo_nfo), s_have = (\<lambda>t. None)\<rparr> :: (thread \<times> nat, unit) http_system"
  obtain nfo' w' where r: "http_send_data ?pf True 7 demo_nfo demo_world = Inr (200, nfo', w')"
      "w_result w' = ''42'' @ replicate 1598 CHR 0x00"
    by (simp add: demo_simps)
  let ?s' = "?s\<lparr>s_world := w', s_nfo := (s_nfo ?s)(7 := nfo'), s_have := (s_have ?s)(7 := Some (w_result w'))\<rparr>"
  have "http_step ?pf True ?s ?s'"
    using http_step.send [of ?s 7 ?pf True demo_nfo 200 nfo' w'] r(1) by simp
  then have reach: "http_reach ?pf True ?s ?s'" by (rule http_reach.step [OF http_reach.refl])
  have "\<forall>t. demo_level t (w_mutex (s_world ?s)) = 0" by (simp add: demo_level_def demo_world_def)
  from http_reply_exclusive [OF demo_laws _ this reach] r(2) reach show ?thesis
    by (intro exI [of _ ?s']) simp
qed

text \<open>
  Who can send. A request waits forever exactly as long as another thread holds the mutex; when
  no other thread does, it does not wait.
\<close>

lemma http_send_progress:
  assumes "mutex_laws pf level"
  shows "http_send_data pf asserts t nfo w = Inl No_return \<longleftrightarrow> (\<exists>u. u \<noteq> t \<and> level u (w_mutex w) \<noteq> 0)"
  using assms by (rule http_waits_iff)

lemma http_send_progress_witness:
  "http_send_data (demo_platform ''42'') True 3 demo_nfo (demo_world\<lparr>w_mutex := (1, 1)\<rparr>) = Inl No_return"
  using http_send_progress [OF demo_laws, of "''42''" True 3 demo_nfo "demo_world\<lparr>w_mutex := (1, 1)\<rparr>"]
  by (auto simp: demo_level_def)

text \<open>
  A structure is good for one request. \<open>http_nfo_free\<close> releases the mutex and forgets it nowhere:
  with assertions compiled in, the next request on the same structure stops at an assertion.
\<close>

lemma http_nfo_reuse:
  assumes "mutex_laws pf level" "http_send_data pf True t nfo w = Inr (ret, nfo1, w1)" "0 \<le> ret"
    and "level t (w_mutex w) = 0" "http_nfo_free pf t nfo1 w1 = (nfo2, w2)"
  shows "level t (w_mutex w2) = 0 \<and> nfo_priv nfo2 \<and> http_send_data pf True t nfo2 w2 = Inl Assertion_failed"
proof -
  note l = send_data_levels [OF assms(1,2)]
  have priv: "nfo_priv nfo1" "level t (w_mutex w1) = 1" using l assms(3,4) by simp_all
  note f = nfo_free_levels [OF assms(1,5) priv(1)]
  have "\<forall>u. u \<noteq> t \<longrightarrow> level u (w_mutex w2) = 0" using f l priv(2) by simp
  with assms(1) obtain m where "k_mutex_lock pf t (w_mutex w2) = Some m"
    unfolding mutex_laws_def by blast
  with f priv show ?thesis by (simp add: http_send_data_def assert_nfo_def)
qed

lemma http_nfo_reuse_witness:
  "\<exists>nfo w nfo' w'. http_send_data (demo_platform ''42'') True 1 demo_nfo demo_world = Inr (200, nfo, w) \<and>
    http_nfo_free (demo_platform ''42'') 1 nfo w = (nfo', w') \<and>
    http_send_data (demo_platform ''42'') True 1 nfo' w' = Inl Assertion_failed"
proof -
  obtain nfo w where r: "http_send_data (demo_platform ''42'') True 1 demo_nfo demo_world = Inr (200, nfo, w)"
    by (simp add: demo_simps)
  obtain nfo' w' where f: "http_nfo_free (demo_platform ''42'') 1 nfo w = (nfo', w')" by fastforce
  have "demo_level 1 (w_mutex demo_world) = 0" by (simp add: demo_level_def demo_world_def)
  from http_nfo_reuse [OF demo_laws r _ this f] r f show ?thesis by auto
qed

end
