(* ===== verification/Web3Rpc.thy ===== *)
theory Web3Rpc
  imports Web3 JsonpDecode HttpService
begin

text \<open>
  \<open>zephyr-wallet/web3_rpc.c\<close>: the remote calls. A call builds the request in the static buffer \<open>WEB3_BUF\<close>,
  sends it with the shared HTTP client, decodes the reply in the client's result buffer and frees the
  client. The caller's outputs are passed in with their old content; \<open>t\<close> and \<open>res\<close> are the uninitialised
  token array and result of the decoder's and the call's stack frames.
\<close>

section \<open>Definitions\<close>

definition WEB3_BUF_SIZE :: nat where "WEB3_BUF_SIZE = 512"

text \<open>The static objects: \<open>web3_ctx\<close> with \<open>WEB3_BUF\<close> behind it, \<open>http_client_nfo\<close>, and the HTTP client.\<close>

record ('m, 'n) rpc_world =
  rpc_web3 :: web3_ctx_t
  rpc_nfo :: http_nfo_t
  rpc_http :: "('m, 'n) http_world"

text \<open>The initialisers; \<open>server_addr\<close> is the configured \<open>SERVER_ADDR\<close>.\<close>

definition rpc_init :: "string \<Rightarrow> ('m, 'n) http_world \<Rightarrow> ('m, 'n) rpc_world" where
  "rpc_init server_addr http =
    \<lparr>rpc_web3 = \<lparr>w_buf = Some (replicate WEB3_BUF_SIZE NUL), w_buf_size = WEB3_BUF_SIZE, w_buf_used = 0, w_req_id = 0\<rparr>,
     rpc_nfo = \<lparr>nfo_host = Some server_addr, nfo_port = 8545, nfo_url = Some ''/'',
       nfo_content_type = Some ''application/json'', nfo_headers = None,
       nfo_payload = Some (replicate WEB3_BUF_SIZE NUL), nfo_payload_size = WEB3_BUF_SIZE,
       nfo_content = None, nfo_content_size = 0, nfo_priv = False\<rparr>,
     rpc_http = http\<rparr>"

text \<open>\<open>payload\<close> points to \<open>WEB3_BUF\<close>: what is sent is its content at the time of the call.\<close>

definition rpc_send ::
    "('m, 'n) platform \<Rightarrow> bool \<Rightarrow> thread \<Rightarrow> ('m, 'n) rpc_world \<Rightarrow> (int \<times> ('m, 'n) rpc_world) outcome" where
  "rpc_send pf asserts thr w =
    bindE (http_send_data pf asserts thr (rpc_nfo w\<lparr>nfo_payload := w_buf (rpc_web3 w)\<rparr>) (rpc_http w)) (\<lambda>(ret, nfo, http).
    Inr (ret, w\<lparr>rpc_nfo := nfo, rpc_http := http\<rparr>))"

definition rpc_free :: "('m, 'n) platform \<Rightarrow> thread \<Rightarrow> ('m, 'n) rpc_world \<Rightarrow> ('m, 'n) rpc_world" where
  "rpc_free pf thr w =
    (let (nfo, http) = http_nfo_free pf thr (rpc_nfo w) (rpc_http w) in w\<lparr>rpc_nfo := nfo, rpc_http := http\<rparr>)"

text \<open>The memory behind \<open>content\<close>, and that memory with new content.\<close>

definition rpc_content :: "('m, 'n) rpc_world \<Rightarrow> string" where
  "rpc_content w = (case nfo_content (rpc_nfo w) of None \<Rightarrow> [] | Some off \<Rightarrow> drop off (w_result (rpc_http w)))"

definition rpc_set_content :: "string \<Rightarrow> ('m, 'n) rpc_world \<Rightarrow> ('m, 'n) rpc_world" where
  "rpc_set_content buf w = (case nfo_content (rpc_nfo w) of None \<Rightarrow> w
     | Some off \<Rightarrow> w\<lparr>rpc_http := rpc_http w\<lparr>w_result := take off (w_result (rpc_http w)) @ buf\<rparr>\<rparr>)"

definition rpc_decode ::
    "nat \<Rightarrow> jsmntok_t list \<Rightarrow> jsonrpc_result_t \<Rightarrow> uint256_t \<Rightarrow> ('m, 'n) rpc_world \<Rightarrow>
     (int \<times> jsonrpc_result_t \<times> uint256_t \<times> ('m, 'n) rpc_world) outcome" where
  "rpc_decode lbits t res out w =
    bindE (jsonrpc_decode_hexencoded lbits t (rpc_content w) (nfo_content_size (rpc_nfo w)) res out)
      (\<lambda>(ret, buf, res, out). Inr (ret, res, out, rpc_set_content buf w))"

text \<open>\<open>if(ret < 0) ... else if(res.error.code < 0) { printk(... res.error.message); ret = -1; }\<close>\<close>

definition rpc_error :: "int \<Rightarrow> jsonrpc_result_t \<Rightarrow> int outcome" where
  "rpc_error ret res =
    (if ret < 0 then Inr ret
     else if err_code (res_error res) < 0 then
       (case err_message (res_error res) of None \<Rightarrow> Inl Out_of_bounds | Some _ \<Rightarrow> Inr (-1))
     else Inr ret)"

definition web3_eth_sendRawTransaction ::
    "('m, 'n) platform \<Rightarrow> bool \<Rightarrow> nat \<Rightarrow> thread \<Rightarrow> jsmntok_t list \<Rightarrow> jsonrpc_result_t \<Rightarrow>
     u8 list option \<Rightarrow> nat \<Rightarrow> uint256_t \<Rightarrow> ('m, 'n) rpc_world \<Rightarrow> (int \<times> uint256_t \<times> ('m, 'n) rpc_world) outcome" where
  "web3_eth_sendRawTransaction pf asserts lbits thr t res data data_len out w =
    bindE (eth_sendRawTransaction data data_len (rpc_web3 w)) (\<lambda>(ret, web3).
    let w = w\<lparr>rpc_web3 := web3\<rparr> in
    if ret < 0 then Inr (-1, out, w)
    else bindE (rpc_send pf asserts thr w) (\<lambda>(ret, w).
    if ret < 0 then Inr (-1, out, w)
    else bindE (rpc_decode lbits t res out w) (\<lambda>(ret, res, out, w).
    bindE (rpc_error ret res) (\<lambda>ret.
    Inr (ret, out, rpc_free pf thr w)))))"

definition web3_eth_blockNumber ::
    "('m, 'n) platform \<Rightarrow> bool \<Rightarrow> nat \<Rightarrow> thread \<Rightarrow> jsmntok_t list \<Rightarrow> jsonrpc_result_t \<Rightarrow> uint256_t \<Rightarrow>
     u64 \<Rightarrow> ('m, 'n) rpc_world \<Rightarrow> (int \<times> u64 \<times> ('m, 'n) rpc_world) outcome" where
  "web3_eth_blockNumber pf asserts lbits thr t res out_u256 out w =
    bindE (eth_blockNumber (rpc_web3 w)) (\<lambda>(ret, web3).
    let w = w\<lparr>rpc_web3 := web3\<rparr> in
    if ret < 0 then Inr (-1, out, w)
    else bindE (rpc_send pf asserts thr w) (\<lambda>(ret, w).
    if ret < 0 then Inr (-1, out, w)
    else bindE (rpc_decode lbits t res out_u256 w) (\<lambda>(ret, res, out_u256, w).
    let out = (if ret < 0 then out else LOWER (LOWER256 out_u256)) in
    Inr (ret, out, rpc_free pf thr w))))"

text \<open>The table of calls, ended by an entry of NULLs; reading on behind it is outside the array.\<close>

definition call_map :: "(string \<times> (address_t \<Rightarrow> printer)) option list" where
  "call_map = [Some (''eth_getBalance'', eth_getBalance),
     Some (''eth_getTransactionCount'', eth_getTransactionCount), None]"

fun find_call :: "bool \<Rightarrow> (string \<times> (address_t \<Rightarrow> printer)) option list \<Rightarrow> string \<Rightarrow> (address_t \<Rightarrow> printer) outcome" where
  "find_call asserts [] func = Inl Out_of_bounds"
| "find_call asserts (None # entries) func = Inl (if asserts then Assertion_failed else Out_of_bounds)"
| "find_call asserts (Some (name, call) # entries) func =
    (if name = func then Inr call else find_call asserts entries func)"

definition web3_eth_address_block_hex ::
    "('m, 'n) platform \<Rightarrow> bool \<Rightarrow> nat \<Rightarrow> thread \<Rightarrow> jsmntok_t list \<Rightarrow> jsonrpc_result_t \<Rightarrow> string \<Rightarrow>
     address_t \<Rightarrow> uint256_t \<Rightarrow> ('m, 'n) rpc_world \<Rightarrow> (int \<times> uint256_t \<times> ('m, 'n) rpc_world) outcome" where
  "web3_eth_address_block_hex pf asserts lbits thr t res func address out w =
    bindE (find_call asserts call_map func) (\<lambda>rpc_call.
    bindE (rpc_call address (rpc_web3 w)) (\<lambda>(ret, web3).
    let w = w\<lparr>rpc_web3 := web3\<rparr> in
    if ret < 0 then Inr (-1, out, w)
    else bindE (rpc_send pf asserts thr w) (\<lambda>(ret, w).
    if ret < 0 then Inr (-1, out, w)
    else bindE (rpc_decode lbits t res out w) (\<lambda>(ret, res, out, w).
    Inr (ret, out, rpc_free pf thr w)))))"

definition web3_eth_getBalance ::
    "('m, 'n) platform \<Rightarrow> bool \<Rightarrow> nat \<Rightarrow> thread \<Rightarrow> jsmntok_t list \<Rightarrow> jsonrpc_result_t \<Rightarrow>
     address_t \<Rightarrow> uint256_t \<Rightarrow> ('m, 'n) rpc_world \<Rightarrow> (int \<times> uint256_t \<times> ('m, 'n) rpc_world) outcome" where
  "web3_eth_getBalance pf asserts lbits thr t res address out w =
    web3_eth_address_block_hex pf asserts lbits thr t res ''eth_getBalance'' address out w"

definition web3_eth_getTransactionCount ::
    "('m, 'n) platform \<Rightarrow> bool \<Rightarrow> nat \<Rightarrow> thread \<Rightarrow> jsmntok_t list \<Rightarrow> jsonrpc_result_t \<Rightarrow>
     address_t \<Rightarrow> uint256_t \<Rightarrow> ('m, 'n) rpc_world \<Rightarrow> (int \<times> uint256_t \<times> ('m, 'n) rpc_world) outcome" where
  "web3_eth_getTransactionCount pf asserts lbits thr t res address out w =
    web3_eth_address_block_hex pf asserts lbits thr t res ''eth_getTransactionCount'' address out w"

definition web3_eth_estimateGas ::
    "('m, 'n) platform \<Rightarrow> bool \<Rightarrow> nat \<Rightarrow> thread \<Rightarrow> jsmntok_t list \<Rightarrow> jsonrpc_result_t \<Rightarrow>
     address_t \<Rightarrow> transaction_t \<Rightarrow> uint256_t \<Rightarrow> ('m, 'n) rpc_world \<Rightarrow> (int \<times> uint256_t \<times> ('m, 'n) rpc_world) outcome" where
  "web3_eth_estimateGas pf asserts lbits thr t res from tx out w =
    bindE (eth_estimateGas from tx (rpc_web3 w)) (\<lambda>(ret, web3).
    let w = w\<lparr>rpc_web3 := web3\<rparr> in
    if ret < 0 then Inr (-1, out, w)
    else bindE (rpc_send pf asserts thr w) (\<lambda>(ret, w).
    if ret < 0 then Inr (-1, out, w)
    else bindE (rpc_decode lbits t res out w) (\<lambda>(ret, res, out, w).
    bindE (rpc_error ret res) (\<lambda>ret.
    Inr (ret, out, rpc_free pf thr w)))))"

text \<open>Both error paths of \<open>web3_eth_call\<close> behind the request return without freeing the client.\<close>

definition web3_eth_call ::
    "('m, 'n) platform \<Rightarrow> bool \<Rightarrow> nat \<Rightarrow> thread \<Rightarrow> jsmntok_t list \<Rightarrow> jsonrpc_result_t \<Rightarrow>
     address_t \<Rightarrow> transaction_t \<Rightarrow> uint256_t \<Rightarrow> u8 \<Rightarrow> ('m, 'n) rpc_world \<Rightarrow> (int \<times> uint256_t \<times> ('m, 'n) rpc_world) outcome" where
  "web3_eth_call pf asserts lbits thr t res from tx out tx_flags w =
    bindE (eth_call from tx tx_flags (rpc_web3 w)) (\<lambda>(ret, web3).
    let w = w\<lparr>rpc_web3 := web3\<rparr> in
    if ret < 0 then Inr (-1, out, w)
    else bindE (rpc_send pf asserts thr w) (\<lambda>(ret, w).
    if ret < 0 then Inr (-1, out, w)
    else bindE (rpc_decode lbits t res out w) (\<lambda>(ret, res, out, w).
    if ret < 0 then Inr (-1, out, w)
    else bindE (rpc_error ret res) (\<lambda>ret'.
    if ret' < 0 then Inr (-1, out, w)
    else Inr (ret, out, rpc_free pf thr w)))))"

text \<open>The reply is never looked at: \<open>body\<close> stays NULL and \<open>content_len\<close> 0.\<close>

definition web3_eth_getTransactionReceipt ::
    "('m, 'n) platform \<Rightarrow> bool \<Rightarrow> nat \<Rightarrow> thread \<Rightarrow> jsmntok_t list \<Rightarrow> jsonrpc_result_t \<Rightarrow>
     tx_hash_t \<Rightarrow> tx_receipt_t \<Rightarrow> ('m, 'n) rpc_world \<Rightarrow> (int \<times> tx_receipt_t \<times> ('m, 'n) rpc_world) outcome" where
  "web3_eth_getTransactionReceipt pf asserts lbits thr t res tx_hash out w =
    bindE (eth_getTransactionReceipt tx_hash (rpc_web3 w)) (\<lambda>(ret, web3).
    let w = w\<lparr>rpc_web3 := web3\<rparr> in
    if ret < 0 then Inr (0, out, w)
    else bindE (rpc_send pf asserts thr w) (\<lambda>(ret, w).
    if ret < 0 then Inr (-1, out, w)
    else bindE (jsonrpc_decode_txreceipt lbits t [] 0 res out) (\<lambda>(ret, _, res, out).
    bindE (rpc_error ret res) (\<lambda>ret.
    Inr (ret, out, rpc_free pf thr w)))))"

section \<open>The request and its reply\<close>

text \<open>
  A server that answers: the library connects, and to any request by POST whose payload starts with
  \<open>text\<close> the result buffer gets \<open>reply\<close> as its body, of the length the header announces.
\<close>

definition answers :: "('m, 'n) platform \<Rightarrow> string \<Rightarrow> string \<Rightarrow> bool" where
  "answers pf msg reply \<longleftrightarrow>
    (\<forall>host port net. 0 \<le> fst (http_client_init pf host port net)) \<and>
    (\<forall>req payload result net. req_method req = HTTP_POST \<longrightarrow> req_payload req = Some payload \<longrightarrow>
       take (length msg) payload = msg \<longrightarrow>
       (\<exists>ret rsp off result' rest net'.
          http_client_send_req pf req RESULT_BUF_SIZE result net = (ret, rsp, result', net') \<and> 0 \<le> ret \<and>
          rsp_data_len rsp \<le> RESULT_BUF_SIZE \<and> rsp_http_errno rsp = 0 \<and> 0 < rsp_status_code rsp \<and>
          rsp_body_start rsp = Some off \<and> drop off result' = reply @ rest \<and>
          rsp_content_length rsp = length reply))"

definition nfo_ready :: "http_nfo_t \<Rightarrow> bool" where
  "nfo_ready nfo \<longleftrightarrow> nfo_host nfo \<noteq> None \<and> nfo_port nfo \<noteq> 0 \<and> nfo_url nfo \<noteq> None \<and> nfo_content_type nfo \<noteq> None"

text \<open>The client is free for the thread, and the structure is in the state the assertions ask for.\<close>

definition rpc_ready :: "('m, 'n) platform \<Rightarrow> bool \<Rightarrow> thread \<Rightarrow> ('m, 'n) rpc_world \<Rightarrow> bool" where
  "rpc_ready pf asserts thr w \<longleftrightarrow> k_mutex_lock pf thr (w_mutex (rpc_http w)) \<noteq> None \<and>
    nfo_ready (rpc_nfo w) \<and> (asserts \<longrightarrow> \<not> nfo_priv (rpc_nfo w)) \<and> web3_ready (rpc_web3 w)"

lemma rpc_send_answered:
  assumes ans: "answers pf msg reply" and ready: "rpc_ready pf asserts thr w0"
    and w: "rpc_nfo w = rpc_nfo w0" "rpc_http w = rpc_http w0"
    and buf: "w_buf (rpc_web3 w) = Some payload" "take (length msg) payload = msg"
  shows "\<exists>ret w' rest. rpc_send pf asserts thr w = Inr (ret, w') \<and> 0 < ret \<and>
    rpc_content w' = reply @ rest \<and> nfo_content_size (rpc_nfo w') = length reply"
proof -
  obtain m where m: "k_mutex_lock pf thr (w_mutex (rpc_http w)) = Some m" using ready w by (auto simp: rpc_ready_def)
  let ?nfo = "rpc_nfo w\<lparr>nfo_payload := Some payload, nfo_priv := False\<rparr>"
  obtain r0 net where i: "http_client_init pf (nfo_host ?nfo) (nfo_port ?nfo) (w_net (rpc_http w)) = (r0, net)" "0 \<le> r0"
    using ans unfolding answers_def by (metis fst_conv surj_pair)
  let ?req = "\<lparr>req_method = HTTP_POST, req_url = nfo_url ?nfo, req_header_fields = nfo_headers ?nfo,
      req_content_type = nfo_content_type ?nfo, req_payload = Some payload, req_payload_size = nfo_payload_size ?nfo\<rparr>"
  have "req_method ?req = HTTP_POST" "req_payload ?req = Some payload" by simp_all
  with ans buf(2) obtain ret rsp off result' rest net' where
    s: "http_client_send_req pf ?req RESULT_BUF_SIZE (w_result (rpc_http w)) net = (ret, rsp, result', net')" "0 \<le> ret"
      "rsp_data_len rsp \<le> RESULT_BUF_SIZE" "rsp_http_errno rsp = 0" "0 < rsp_status_code rsp"
      "rsp_body_start rsp = Some off" "drop off result' = reply @ rest" "rsp_content_length rsp = length reply"
    unfolding answers_def by blast
  have a: "assert_nfo asserts (rpc_nfo w\<lparr>nfo_payload := Some payload\<rparr>) = Inr ()"
    using ready w(1) by (simp add: assert_nfo_def rpc_ready_def nfo_ready_def)
  have "\<exists>w'. rpc_send pf asserts thr w = Inr (rsp_status_code rsp, w') \<and>
      nfo_content (rpc_nfo w') = Some off \<and> nfo_content_size (rpc_nfo w') = length reply \<and>
      w_result (rpc_http w') = result'"
    using m i s a buf(1)
    by (simp add: rpc_send_def http_send_data_def http_send_out_def do_sync_http_req_def Let_def)
  with s(5,7) show ?thesis by (fastforce simp: rpc_content_def)
qed

text \<open>A well-formed reply to the request that is in the buffer.\<close>

definition good_reply :: "nat \<Rightarrow> field list \<Rightarrow> string \<Rightarrow> string \<Rightarrow> bool" where
  "good_reply lbits kvs ds hs \<longleftrightarrow> (\<forall>kv \<in> set kvs. response_field kv) \<and> distinct (map fst kvs) \<and> length kvs \<le> 31 \<and>
    (''id'', JPrim ds) \<in> set kvs \<and> decimal ds \<and> dec_val ds < 2 ^ lbits \<and>
    (''result'', JStr (''0x'' @ hs)) \<in> set kvs \<and> hs \<noteq> [] \<and> length hs \<le> 64 \<and> (\<forall>c \<in> set hs. 0 \<le> map_hex c)"

lemma decode_good_reply:
  assumes "good_reply lbits kvs ds hs" "length t = 64"
  shows "\<exists>x. jsonrpc_decode_hexencoded lbits t (document kvs @ rest) (length (document kvs)) res out =
      Inr (0, document kvs @ rest, res\<lparr>res_id := dec_val ds\<rparr>, x) \<and> val256 x = hex_val hs"
  using assms unfolding good_reply_def by (intro decode_hex_document) auto

text \<open>Behind a request in the buffer, the call returns what the reply says.\<close>

lemma rpc_reply_decoded:
  assumes reply: "good_reply lbits kvs ds hs" "length t = 64" and ans: "answers pf msg (document kvs)"
    and ready: "rpc_ready pf asserts thr w0" "rpc_nfo w = rpc_nfo w0" "rpc_http w = rpc_http w0"
    and buf: "web3_holds (rpc_web3 w) msg"
  shows "\<exists>r w1 x w2. rpc_send pf asserts thr w = Inr (r, w1) \<and> 0 < r \<and>
    rpc_decode lbits t res out w1 = Inr (0, res\<lparr>res_id := dec_val ds\<rparr>, x, w2) \<and> val256 x = hex_val hs"
proof -
  obtain payload where "w_buf (rpc_web3 w) = Some payload" "take (length msg) payload = msg"
    using buf by (auto simp: web3_holds_def web3_text_def w_mem_def)
  from rpc_send_answered [OF ans ready this] obtain r w1 rest where
    s: "rpc_send pf asserts thr w = Inr (r, w1)" "0 < r" "rpc_content w1 = document kvs @ rest"
      "nfo_content_size (rpc_nfo w1) = length (document kvs)"
    by (elim exE conjE) (rule that)
  obtain x where x: "jsonrpc_decode_hexencoded lbits t (rpc_content w1) (nfo_content_size (rpc_nfo w1)) res out =
      Inr (0, document kvs @ rest, res\<lparr>res_id := dec_val ds\<rparr>, x)" "val256 x = hex_val hs"
    using decode_good_reply [OF reply, of rest res out] unfolding s(3,4) by blast
  have "rpc_decode lbits t res out w1 =
      Inr (0, res\<lparr>res_id := dec_val ds\<rparr>, x, rpc_set_content (document kvs @ rest) w1)"
    unfolding rpc_decode_def x(1) by simp
  with s(1,2) x(2) show ?thesis by blast
qed

lemma request_built:
  assumes "writes_request f func params" "rpc_ready pf asserts thr w"
    "length (json_text (request func (w_req_id (rpc_web3 w)) params)) < w_buf_size (rpc_web3 w)"
  shows "\<exists>web3. f (rpc_web3 w) = Inr (0, web3) \<and>
    web3_holds web3 (json_text (request func (w_req_id (rpc_web3 w)) params))"
  using assms unfolding writes_request_def rpc_ready_def by blast

lemma address_call:
  assumes call: "find_call asserts call_map func = Inr f" "writes_request (f addr) func params"
    and ready: "rpc_ready pf asserts thr w" and reply: "good_reply lbits kvs ds hs" "length t = 64"
    and room: "length (json_text (request func (w_req_id (rpc_web3 w)) params)) < w_buf_size (rpc_web3 w)"
    and ans: "answers pf (json_text (request func (w_req_id (rpc_web3 w)) params)) (document kvs)"
  shows "\<exists>x w'. web3_eth_address_block_hex pf asserts lbits thr t res func addr out w = Inr (0, x, w') \<and>
    val256 x = hex_val hs"
proof -
  obtain web3 where b: "f addr (rpc_web3 w) = Inr (0, web3)"
      "web3_holds web3 (json_text (request func (w_req_id (rpc_web3 w)) params))"
    using request_built [OF call(2) ready room] by blast
  let ?w = "w\<lparr>rpc_web3 := web3\<rparr>"
  have "rpc_nfo ?w = rpc_nfo w" "rpc_http ?w = rpc_http w"
      "web3_holds (rpc_web3 ?w) (json_text (request func (w_req_id (rpc_web3 w)) params))"
    using b(2) by simp_all
  from rpc_reply_decoded [OF reply ans ready this, of res out] obtain r w1 x w2 where
    "rpc_send pf asserts thr ?w = Inr (r, w1)" "0 < r"
    "rpc_decode lbits t res out w1 = Inr (0, res\<lparr>res_id := dec_val ds\<rparr>, x, w2)" "val256 x = hex_val hs"
    by blast
  with call(1) b(1) show ?thesis by (simp add: web3_eth_address_block_hex_def)
qed

section \<open>The client is given back\<close>

definition rpc_level :: "(thread \<Rightarrow> 'm \<Rightarrow> nat) \<Rightarrow> thread \<Rightarrow> ('m, 'n) rpc_world \<Rightarrow> nat" where
  "rpc_level level t w = level t (w_mutex (rpc_http w))"

lemma rpc_level_update [simp]: "rpc_level level t (w\<lparr>rpc_web3 := web3\<rparr>) = rpc_level level t w"
  by (simp add: rpc_level_def)

lemma rpc_send_level:
  assumes "mutex_laws pf level" "rpc_send pf asserts t w = Inr (ret, w')"
  shows "rpc_level level t w' = (if ret < 0 then rpc_level level t w else rpc_level level t w + 1) \<and>
    (0 \<le> ret \<longrightarrow> nfo_priv (rpc_nfo w'))"
  using assms send_data_levels [OF assms(1)]
  by (fastforce simp: rpc_send_def rpc_level_def bindE_eq_Inr split: prod.splits)

lemma rpc_decode_level:
  assumes "rpc_decode lbits toks res out w = Inr (ret, res', out', w')"
  shows "rpc_level level t w' = rpc_level level t w \<and> rpc_nfo w' = rpc_nfo w"
  using assms
  by (auto simp: rpc_decode_def rpc_set_content_def rpc_level_def bindE_eq_Inr split: prod.splits option.splits)

lemma rpc_free_level:
  assumes "mutex_laws pf level" "nfo_priv (rpc_nfo w)" "0 < rpc_level level t w"
  shows "rpc_level level t (rpc_free pf t w) = rpc_level level t w - 1"
proof -
  obtain nfo http where f: "http_nfo_free pf t (rpc_nfo w) (rpc_http w) = (nfo, http)" by fastforce
  from nfo_free_levels [OF assms(1) f assms(2)] assms(3) f show ?thesis
    by (simp add: rpc_free_def rpc_level_def)
qed

text \<open>Send, decode and free leave the lock as it was.\<close>

lemma rpc_round_level:
  assumes "mutex_laws pf level" "rpc_send pf asserts t w = Inr (ret, w1)" "\<not> ret < 0"
    "rpc_decode lbits toks res out w1 = Inr (r, res', out', w2)"
  shows "rpc_level level t (rpc_free pf t w2) = rpc_level level t w" "rpc_level level t w2 = rpc_level level t w + 1"
  using rpc_send_level [OF assms(1,2)] rpc_decode_level [OF assms(4), where level = level and t = t]
    rpc_free_level [OF assms(1), of w2 t] assms(3)
  by simp_all

lemma send_raw_replied:
  assumes call: "writes_request (eth_sendRawTransaction data n) func params"
    and ready: "rpc_ready pf asserts thr w" and reply: "good_reply lbits kvs ds hs" "length t = 64"
    and room: "length (json_text (request func (w_req_id (rpc_web3 w)) params)) < w_buf_size (rpc_web3 w)"
    and ans: "answers pf (json_text (request func (w_req_id (rpc_web3 w)) params)) (document kvs)"
  shows "\<exists>x w'. val256 x = hex_val hs \<and>
    web3_eth_sendRawTransaction pf asserts lbits thr t res data n out w =
      (if 0 \<le> err_code (res_error res) then Inr (0, x, w')
       else if err_message (res_error res) = None then Inl Out_of_bounds else Inr (-1, x, w'))"
proof -
  obtain web3 where b: "eth_sendRawTransaction data n (rpc_web3 w) = Inr (0, web3)"
      "web3_holds web3 (json_text (request func (w_req_id (rpc_web3 w)) params))"
    using request_built [OF call ready room] by blast
  let ?w = "w\<lparr>rpc_web3 := web3\<rparr>"
  have "rpc_nfo ?w = rpc_nfo w" "rpc_http ?w = rpc_http w"
      "web3_holds (rpc_web3 ?w) (json_text (request func (w_req_id (rpc_web3 w)) params))"
    using b(2) by simp_all
  from rpc_reply_decoded [OF reply ans ready this, of res out] obtain r w1 x w2 where
    s: "rpc_send pf asserts thr ?w = Inr (r, w1)" "0 < r"
      "rpc_decode lbits t res out w1 = Inr (0, res\<lparr>res_id := dec_val ds\<rparr>, x, w2)" "val256 x = hex_val hs"
    by blast
  from b(1) s(1-3) have "web3_eth_sendRawTransaction pf asserts lbits thr t res data n out w =
      (if 0 \<le> err_code (res_error res) then Inr (0, x, rpc_free pf thr w2)
       else if err_message (res_error res) = None then Inl Out_of_bounds else Inr (-1, x, rpc_free pf thr w2))"
    by (auto simp: web3_eth_sendRawTransaction_def rpc_error_def split: option.splits)
  with s(4) show ?thesis by blast
qed

definition released :: "(thread \<Rightarrow> 'm \<Rightarrow> nat) \<Rightarrow> thread \<Rightarrow> ('m, 'n) rpc_world \<Rightarrow> (int \<times> 'a \<times> ('m, 'n) rpc_world) outcome \<Rightarrow> bool" where
  "released level t w r \<longleftrightarrow> (\<forall>ret x w'. r = Inr (ret, x, w') \<longrightarrow> rpc_level level t w' = rpc_level level t w)"

lemma rpc_send_failed_level:
  assumes "mutex_laws pf level" "rpc_send pf asserts t (w\<lparr>rpc_web3 := web3\<rparr>) = Inr (ret, w')" "ret < 0"
  shows "rpc_level level t w' = rpc_level level t w"
  using rpc_send_level [OF assms(1,2)] assms(3) by simp

lemma if_eq_Inr: "(if b then m else m') = Inr y \<longleftrightarrow> b \<and> m = Inr y \<or> \<not> b \<and> m' = Inr y"
  by simp

text \<open>A call up to its end, \<open>k\<close>, that frees the client if it returns.\<close>

lemma released_round:
  assumes laws: "mutex_laws pf level"
    and k: "\<And>r res x w2 ret y w'. k (r, res, x, w2) = Inr (ret, y, w') \<Longrightarrow> w' = rpc_free pf t w2"
  shows "released level t w (bindE (build web3) (\<lambda>(r, web3).
    let w = w\<lparr>rpc_web3 := web3\<rparr> in
    if r < 0 then Inr (-1, old, w)
    else bindE (rpc_send pf asserts t w) (\<lambda>(r, w).
    if r < 0 then Inr (-1, old, w)
    else bindE (rpc_decode lbits toks res out w) k)))"
  unfolding released_def
proof (intro allI impI)
  fix ret y w'
  assume "bindE (build web3) (\<lambda>(r, web3). let w = w\<lparr>rpc_web3 := web3\<rparr> in
      if r < 0 then Inr (-1, old, w) else bindE (rpc_send pf asserts t w) (\<lambda>(r, w).
      if r < 0 then Inr (-1, old, w) else bindE (rpc_decode lbits toks res out w) k)) = Inr (ret, y, w')"
  then consider (early) web3' where "w' = w\<lparr>rpc_web3 := web3'\<rparr>"
    | (unsent) web3' r where "rpc_send pf asserts t (w\<lparr>rpc_web3 := web3'\<rparr>) = Inr (r, w')" "r < 0"
    | (sent) web3' r w1 a res' b w2 where "rpc_send pf asserts t (w\<lparr>rpc_web3 := web3'\<rparr>) = Inr (r, w1)" "\<not> r < 0"
        "rpc_decode lbits toks res out w1 = Inr (a, res', b, w2)" "k (a, res', b, w2) = Inr (ret, y, w')"
    by (simp only: bindE_eq_Inr Let_def split_paired_Ex if_eq_Inr prod.case Inr_inject prod.inject) blast
  then show "rpc_level level t w' = rpc_level level t w"
  proof cases
    case sent
    with k [OF sent(4)] rpc_round_level(1) [OF laws sent(1-3)] show ?thesis by simp
  qed (simp_all add: rpc_send_failed_level [OF laws])
qed

lemma released_bind: "(\<And>x. m = Inr x \<Longrightarrow> released level t w (k x)) \<Longrightarrow> released level t w (bindE m k)"
  by (cases m) (simp_all add: released_def)

lemma released_sendRaw:
  "mutex_laws pf level \<Longrightarrow> released level thr w (web3_eth_sendRawTransaction pf asserts lbits thr t res data n out w)"
  unfolding web3_eth_sendRawTransaction_def by (rule released_round) (auto simp: bindE_eq_Inr)

lemma released_blockNumber:
  "mutex_laws pf level \<Longrightarrow> released level thr w (web3_eth_blockNumber pf asserts lbits thr t res tmp num w)"
  unfolding web3_eth_blockNumber_def by (rule released_round) (auto simp: Let_def)

lemma released_address:
  "mutex_laws pf level \<Longrightarrow> released level thr w (web3_eth_address_block_hex pf asserts lbits thr t res func addr out w)"
  unfolding web3_eth_address_block_hex_def by (intro released_bind released_round) auto

lemma released_estimateGas:
  "mutex_laws pf level \<Longrightarrow> released level thr w (web3_eth_estimateGas pf asserts lbits thr t res from_a tx out w)"
  unfolding web3_eth_estimateGas_def by (rule released_round) (auto simp: bindE_eq_Inr)

lemma receipt_undecoded: "jsonrpc_decode_txreceipt lbits t [] 0 res out = Inl Assertion_failed"
  using decode_blank [of 0 "[]"] by simp

lemma released_receipt:
  "mutex_laws pf level \<Longrightarrow> released level thr w (web3_eth_getTransactionReceipt pf asserts lbits thr t res tx_hash out w)"
  by (auto simp: web3_eth_getTransactionReceipt_def receipt_undecoded released_def bindE_eq_Inr Let_def split: if_splits prod.splits
      dest: rpc_send_failed_level)

lemma released_call:
  "mutex_laws pf level \<Longrightarrow>
   web3_eth_call pf asserts lbits thr t res from_a tx out flags w = Inr (ret, out', w') \<Longrightarrow> 0 \<le> ret \<Longrightarrow>
   rpc_level level thr w' = rpc_level level thr w"
  by (auto simp: web3_eth_call_def bindE_eq_Inr Let_def split: if_splits prod.splits dest: rpc_round_level(1))

text \<open>A reply that is refused: not decoded, or a JSON-RPC error with its message.\<close>

definition bad_reply :: "nat \<Rightarrow> jsmntok_t list \<Rightarrow> string \<Rightarrow> jsonrpc_result_t \<Rightarrow> uint256_t \<Rightarrow> bool" where
  "bad_reply lbits t reply res out \<longleftrightarrow> (\<forall>rest. \<exists>ret buf res' x.
     jsonrpc_decode_hexencoded lbits t (reply @ rest) (length reply) res out = Inr (ret, buf, res', x) \<and>
     (ret < 0 \<or> err_code (res_error res') < 0 \<and> err_message (res_error res') \<noteq> None))"

lemma call_replied:
  assumes call: "writes_request (eth_call from_a tx flags) func params"
    and ready: "rpc_ready pf asserts thr w" and reply: "good_reply lbits kvs ds hs" "length t = 64"
    and room: "length (json_text (request func (w_req_id (rpc_web3 w)) params)) < w_buf_size (rpc_web3 w)"
    and ans: "answers pf (json_text (request func (w_req_id (rpc_web3 w)) params)) (document kvs)"
    and code_ok: "0 \<le> err_code (res_error res)"
  shows "\<exists>x w'. web3_eth_call pf asserts lbits thr t res from_a tx out flags w = Inr (0, x, w') \<and> val256 x = hex_val hs"
proof -
  obtain web3 where b: "eth_call from_a tx flags (rpc_web3 w) = Inr (0, web3)"
      "web3_holds web3 (json_text (request func (w_req_id (rpc_web3 w)) params))"
    using request_built [OF call ready room] by blast
  let ?w = "w\<lparr>rpc_web3 := web3\<rparr>"
  have "rpc_nfo ?w = rpc_nfo w" "rpc_http ?w = rpc_http w"
      "web3_holds (rpc_web3 ?w) (json_text (request func (w_req_id (rpc_web3 w)) params))"
    using b(2) by simp_all
  from rpc_reply_decoded [OF reply ans ready this, of res out] obtain r w1 x w2 where
    s: "rpc_send pf asserts thr ?w = Inr (r, w1)" "0 < r"
      "rpc_decode lbits t res out w1 = Inr (0, res\<lparr>res_id := dec_val ds\<rparr>, x, w2)" "val256 x = hex_val hs"
    by blast
  with b(1) code_ok show ?thesis by (simp add: web3_eth_call_def rpc_error_def)
qed

lemma demo_answers: "length reply \<le> RESULT_BUF_SIZE \<Longrightarrow> answers (demo_platform reply) msg reply"
  unfolding answers_def demo_platform_def by simp

lemma demo_ready: "rpc_ready (demo_platform reply) asserts thr (rpc_init host demo_world)"
  by (simp add: rpc_ready_def rpc_init_def nfo_ready_def web3_ready_def w_mem_def demo_platform_def
      demo_world_def WEB3_BUF_SIZE_def)

definition demo_reply :: "field list" where
  "demo_reply = [(''jsonrpc'', JStr ''2.0''), (''result'', JStr ''0x2a''), (''id'', JPrim ''0'')]"

lemma demo_good: "good_reply 32 demo_reply ''0'' ''2a''" "length (document demo_reply) \<le> RESULT_BUF_SIZE"
  "hex_val ''2a'' = 42" "dec_val ''0'' = 0"
  by (simp_all add: good_reply_def demo_reply_def response_field_def plain_def primitive_def structural_def NUL_def
      QUOTE_def BACKSLASH_def dec_val_def decimal_def map_hex_def hex_val_def quoted_def RESULT_BUF_SIZE_def)

lemma demo_refused: "bad_reply lbits t ''}'' res out"
proof -
  have "jsmn_loop ''}'' 64 jsmn_init (Some t) 0 = Some (Inr (Inl JSMN_ERROR_INVAL, jsmn_init, Some t))"
    by (subst jsmn_loop.simps) (simp add: jsmn_turn_def jsmn_close_def jsmn_init_def NUL_def)
  then have "jsmn_parse jsmn_init ''}'' (Some t) 64 = Inr (JSMN_ERROR_INVAL, jsmn_init, Some t)"
    by (simp add: jsmn_parse_def jsmn_init_def)
  then have "jsonrpc_decode_hexencoded lbits t (''}'' @ rest) 1 res out = Inr (-1, ''}'' @ rest, res, out)" for rest
    by (simp add: jsonrpc_decode_hexencoded_def read_at_def JSMN_ERROR_INVAL_def)
  then show ?thesis by (auto simp: bad_reply_def)
qed

definition demo_tx :: transaction_t where
  "demo_tx = \<lparr>tx_nonce = 0, tx_gas_price = 0, tx_gas_limit = 0, tx_to = \<lparr>addr_a = replicate 20 1\<rparr>,
     tx_value = clear256, tx_data = Some (64, [0xab, 0]), tx_data_len = 1\<rparr>"

section \<open>Properties\<close>

text \<open>
  Asking for a balance or a transaction count, end to end. When the client is free and the
  server answers the JSON-RPC document of the request with a well-formed response, the call returns
  0 and the number of the response, through the builder, the HTTP client, the tokeniser and the
  decoder.
\<close>

lemma rpc_address_calls:
  assumes "length (addr_a addr) = 20" "rpc_ready pf asserts thr w" "good_reply lbits kvs ds hs" "length t = 64"
    and "\<forall>func \<in> {''eth_getBalance'', ''eth_getTransactionCount''}.
      length (json_text (request func (w_req_id (rpc_web3 w)) [hex_json (addr_a addr), JStr ''latest'']))
        < w_buf_size (rpc_web3 w) \<and>
      answers pf (json_text (request func (w_req_id (rpc_web3 w)) [hex_json (addr_a addr), JStr ''latest'']))
        (document kvs)"
  shows "(\<exists>x w'. web3_eth_getBalance pf asserts lbits thr t res addr out w = Inr (0, x, w') \<and> val256 x = hex_val hs) \<and>
    (\<exists>x w'. web3_eth_getTransactionCount pf asserts lbits thr t res addr out w = Inr (0, x, w') \<and> val256 x = hex_val hs)"
proof -
  have calls: "find_call asserts call_map ''eth_getBalance'' = Inr eth_getBalance"
      "find_call asserts call_map ''eth_getTransactionCount'' = Inr eth_getTransactionCount"
    by (simp_all add: call_map_def)
  have b: "writes_request (eth_getBalance addr) ''eth_getBalance'' [hex_json (addr_a addr), JStr ''latest'']"
      "writes_request (eth_getTransactionCount addr) ''eth_getTransactionCount'' [hex_json (addr_a addr), JStr ''latest'']"
    unfolding eth_getBalance_def eth_getTransactionCount_def by (rule writes_address [OF assms(1)])+
  show ?thesis
    using address_call [OF calls(1) b(1) assms(2-4)] address_call [OF calls(2) b(2) assms(2-4)] assms(5)
    unfolding web3_eth_getBalance_def web3_eth_getTransactionCount_def by blast
qed

lemma rpc_address_calls_witness:
  "\<exists>x w'. web3_eth_getBalance (demo_platform (document demo_reply)) True 32 5 (replicate 64 (tok JSMN_UNDEFINED 0 0 0))
      \<lparr>res_id = 0, res_error = \<lparr>err_code = 0, err_message = None\<rparr>\<rparr> \<lparr>addr_a = replicate 20 0\<rparr> clear256
      (rpc_init ''10.0.0.1'' demo_world) = Inr (0, x, w') \<and> val256 x = 42"
proof -
  let ?w = "rpc_init ''10.0.0.1'' demo_world"
  have "w_req_id (rpc_web3 ?w) = 0" "w_buf_size (rpc_web3 ?w) = 512"
    by (simp_all add: rpc_init_def WEB3_BUF_SIZE_def)
  then have "\<forall>func \<in> {''eth_getBalance'', ''eth_getTransactionCount''}.
      length (json_text (request func (w_req_id (rpc_web3 ?w)) [hex_json (replicate 20 0), JStr ''latest'']))
        < w_buf_size (rpc_web3 ?w)"
    by (simp add: request_def hex_json_def quoted_def show_int_def digits_less HEXDIGITS_def)
  then show ?thesis
    using rpc_address_calls [of "\<lparr>addr_a = replicate 20 0\<rparr>" "demo_platform (document demo_reply)" True 5 ?w 32
        demo_reply "''0''" "''2a''" "replicate 64 (tok JSMN_UNDEFINED 0 0 0)", OF _ demo_ready demo_good(1)]
      demo_answers [OF demo_good(2)] demo_good(3)
    by simp
qed

text \<open>
  A call depends on what its stack held. \<open>res.error.code\<close> of \<open>web3_eth_sendRawTransaction\<close> is
  never initialised, and a well-formed response does not set it: the hash of the response arrives,
  but the call reports success, failure or prints from a wild pointer as the old memory has it.
\<close>

lemma rpc_send_raw_uninitialised:
  assumes "0 < n" "n \<le> length data" "rpc_ready pf asserts thr w" "good_reply lbits kvs ds hs" "length t = 64"
    and "length (json_text (request ''eth_sendRawTransaction'' (w_req_id (rpc_web3 w)) [hex_json (take n data)]))
      < w_buf_size (rpc_web3 w)"
    and "answers pf (json_text (request ''eth_sendRawTransaction'' (w_req_id (rpc_web3 w)) [hex_json (take n data)]))
      (document kvs)"
  shows "\<exists>x w'. val256 x = hex_val hs \<and>
    web3_eth_sendRawTransaction pf asserts lbits thr t res (Some data) n out w =
      (if 0 \<le> err_code (res_error res) then Inr (0, x, w')
       else if err_message (res_error res) = None then Inl Out_of_bounds else Inr (-1, x, w'))"
proof -
  have "writes_request (eth_sendRawTransaction (Some data) n) ''eth_sendRawTransaction'' [hex_json (take n data)]"
    using writes_requestI [OF printed_data [OF assms(1,2)]] by (simp add: eth_sendRawTransaction_def)
  then show ?thesis using assms(3-7) by (rule send_raw_replied)
qed

lemma rpc_send_raw_uninitialised_witness:
  "\<exists>x w'. web3_eth_sendRawTransaction (demo_platform (document demo_reply)) True 32 5 (replicate 64 (tok JSMN_UNDEFINED 0 0 0))
      \<lparr>res_id = 0, res_error = \<lparr>err_code = -7, err_message = Some 3\<rparr>\<rparr> (Some [0xf8, 0x6b]) 2 clear256
      (rpc_init ''10.0.0.1'' demo_world) = Inr (-1, x, w') \<and> val256 x = 42"
proof -
  let ?w = "rpc_init ''10.0.0.1'' demo_world"
  have "w_req_id (rpc_web3 ?w) = 0" "w_buf_size (rpc_web3 ?w) = 512"
    by (simp_all add: rpc_init_def WEB3_BUF_SIZE_def)
  then have "length (json_text (request ''eth_sendRawTransaction'' (w_req_id (rpc_web3 ?w)) [hex_json (take 2 [0xf8, 0x6b])]))
        < w_buf_size (rpc_web3 ?w)"
    by (simp add: request_def hex_json_def quoted_def show_int_def digits_less HEXDIGITS_def)
  from rpc_send_raw_uninitialised [OF _ _ demo_ready demo_good(1) _ this demo_answers [OF demo_good(2)],
      of "replicate 64 (tok JSMN_UNDEFINED 0 0 0)" True 5 "\<lparr>res_id = 0, res_error = \<lparr>err_code = -7, err_message = Some 3\<rparr>\<rparr>" clear256]
    demo_good(3)
  show ?thesis by auto
qed



text \<open>
  C31: \<open>web3_eth_call\<close> keeps the client. When the reply to it is one the decoder refuses, or a
  JSON-RPC error, the call returns -1 without freeing the client: from then on every request of any
  other thread waits forever.
\<close>

theorem rpc_call_keeps_client:
  assumes laws: "mutex_laws pf level" and call: "writes_request (eth_call from_a tx flags) func params"
    and ready: "rpc_ready pf asserts thr w"
    and room: "length (json_text (request func (w_req_id (rpc_web3 w)) params)) < w_buf_size (rpc_web3 w)"
    and ans: "answers pf (json_text (request func (w_req_id (rpc_web3 w)) params)) reply"
    and bad: "bad_reply lbits t reply res out"
  shows "\<exists>x w'. web3_eth_call pf asserts lbits thr t res from_a tx out flags w = Inr (-1, x, w') \<and>
    rpc_level level thr w' = rpc_level level thr w + 1 \<and>
    (\<forall>u nfo. u \<noteq> thr \<longrightarrow> http_send_data pf asserts u nfo (rpc_http w') = Inl No_return)"
proof -
  obtain web3 where b: "eth_call from_a tx flags (rpc_web3 w) = Inr (0, web3)"
      "web3_holds web3 (json_text (request func (w_req_id (rpc_web3 w)) params))"
    using request_built [OF call ready room] by blast
  let ?w = "w\<lparr>rpc_web3 := web3\<rparr>"
  have "w_buf (rpc_web3 ?w) \<noteq> None" "take (length (json_text (request func (w_req_id (rpc_web3 w)) params)))
      (w_mem (rpc_web3 ?w)) = json_text (request func (w_req_id (rpc_web3 w)) params)"
    using b(2) by (simp_all add: web3_holds_def web3_text_def)
  then obtain r w1 rest where s: "rpc_send pf asserts thr ?w = Inr (r, w1)" "0 < r"
      "rpc_content w1 = reply @ rest" "nfo_content_size (rpc_nfo w1) = length reply"
    using rpc_send_answered [OF ans ready, of ?w] by (auto simp: w_mem_def)
  obtain ret buf res' x where d: "jsonrpc_decode_hexencoded lbits t (reply @ rest) (length reply) res out =
        Inr (ret, buf, res', x)"
      "ret < 0 \<or> err_code (res_error res') < 0 \<and> err_message (res_error res') \<noteq> None"
    using bad unfolding bad_reply_def by blast
  let ?w2 = "rpc_set_content buf w1"
  have dec: "rpc_decode lbits t res out w1 = Inr (ret, res', x, ?w2)"
    unfolding rpc_decode_def s(3,4) d(1) by simp
  have "web3_eth_call pf asserts lbits thr t res from_a tx out flags w = Inr (-1, x, ?w2)"
    using b(1) s(1,2) dec d(2) by (auto simp: web3_eth_call_def rpc_error_def)
  moreover have l: "rpc_level level thr ?w2 = rpc_level level thr w + 1"
    using rpc_round_level(2) [OF laws s(1) _ dec] s(2) by simp
  ultimately show ?thesis using http_waits [OF laws, of thr "rpc_http ?w2"] by (auto simp: rpc_level_def)
qed

theorem rpc_call_keeps_client_witness:
  "\<exists>x w'. web3_eth_call (demo_platform ''}'') True 32 5 []
      \<lparr>res_id = 0, res_error = \<lparr>err_code = 0, err_message = None\<rparr>\<rparr> \<lparr>addr_a = replicate 20 0\<rparr> demo_tx clear256 0xF
      (rpc_init ''10.0.0.1'' demo_world) = Inr (-1, x, w') \<and>
    http_send_data (demo_platform ''}'') True 6 demo_nfo (rpc_http w') = Inl No_return"
proof -
  let ?w = "rpc_init ''10.0.0.1'' demo_world" and ?res = "\<lparr>res_id = 0, res_error = \<lparr>err_code = 0, err_message = None\<rparr>\<rparr>"
  let ?params = "[JObj (members_of (call_fields \<lparr>addr_a = replicate 20 0\<rparr> demo_tx 0xF)), JStr ''latest'']"
  have "w_req_id (rpc_web3 ?w) = 0" "w_buf_size (rpc_web3 ?w) = 512"
    by (simp_all add: rpc_init_def WEB3_BUF_SIZE_def)
  then have room: "length (json_text (request ''eth_call'' (w_req_id (rpc_web3 ?w)) ?params)) < w_buf_size (rpc_web3 ?w)"
    by (simp add: request_def hex_json_def quoted_def show_int_def digits_less HEXDIGITS_def call_fields_def demo_tx_def
        TX_NO_FROM_def TX_NO_GAS_def TX_NO_GASPRICE_def TX_NO_VALUE_def TX_NO_DATA_def)
  have "tx_ok demo_tx" by (simp add: tx_ok_def demo_tx_def)
  then have call: "writes_request (eth_call \<lparr>addr_a = replicate 20 0\<rparr> demo_tx 0xF) ''eth_call'' ?params"
    unfolding eth_call_def by (intro writes_requestI prints_txparam) simp_all
  from rpc_call_keeps_client [OF demo_laws call demo_ready room demo_answers demo_refused, of True 32 5 "[]" ?res clear256]
  obtain x w' where "web3_eth_call (demo_platform ''}'') True 32 5 [] ?res \<lparr>addr_a = replicate 20 0\<rparr> demo_tx clear256 0xF ?w =
      Inr (-1, x, w')" "\<forall>u nfo. u \<noteq> 5 \<longrightarrow> http_send_data (demo_platform ''}'') True u nfo (rpc_http w') = Inl No_return"
    by (auto simp: RESULT_BUF_SIZE_def)
  then show ?thesis by (intro exI [of _ x] exI [of _ w']) simp
qed

text \<open>
  No receipt is ever returned. \<open>web3_eth_getTransactionReceipt\<close> decodes a NULL body instead of
  the reply: when the server answers, with whatever reply, the call stops at an assertion, and when
  it returns at all, it returns 0 or -1 with the caller's receipt as it was.
\<close>

lemma rpc_receipt_never:
  assumes "length h = 32" "rpc_ready pf asserts thr w"
    and "length (json_text (request ''eth_getTransactionReceipt'' (w_req_id (rpc_web3 w)) [hex_json h]))
      < w_buf_size (rpc_web3 w)"
    and "answers pf (json_text (request ''eth_getTransactionReceipt'' (w_req_id (rpc_web3 w)) [hex_json h])) reply"
  shows "web3_eth_getTransactionReceipt pf asserts lbits thr t res \<lparr>hash_h = h\<rparr> out w = Inl Assertion_failed \<and>
    (\<forall>tx_hash w ret out' w'. web3_eth_getTransactionReceipt pf asserts lbits thr t res tx_hash out w = Inr (ret, out', w') \<longrightarrow>
      out' = out \<and> (ret = 0 \<or> ret = -1))"
proof (intro conjI allI impI)
  let ?msg = "json_text (request ''eth_getTransactionReceipt'' (w_req_id (rpc_web3 w)) [hex_json h])"
  have "writes_request (eth_getTransactionReceipt \<lparr>hash_h = h\<rparr>) ''eth_getTransactionReceipt'' [hex_json h]"
    using writes_requestI [OF printed_data [of 32 h]] assms(1) by (simp add: eth_getTransactionReceipt_def)
  from request_built [OF this assms(2,3)] obtain web3 where
    b: "eth_getTransactionReceipt \<lparr>hash_h = h\<rparr> (rpc_web3 w) = Inr (0, web3)" "web3_holds web3 ?msg"
    by blast
  let ?w = "w\<lparr>rpc_web3 := web3\<rparr>"
  obtain r w1 where "rpc_send pf asserts thr ?w = Inr (r, w1)" "0 < r"
    using rpc_send_answered [OF assms(4,2), of ?w] b(2) by (auto simp: web3_holds_def web3_text_def w_mem_def)
  with b(1) show "web3_eth_getTransactionReceipt pf asserts lbits thr t res \<lparr>hash_h = h\<rparr> out w = Inl Assertion_failed"
    by (simp add: web3_eth_getTransactionReceipt_def receipt_undecoded)
next
  fix tx_hash w ret out' w'
  assume "web3_eth_getTransactionReceipt pf asserts lbits thr t res tx_hash out w = Inr (ret, out', w')"
  then show "out' = out" "ret = 0 \<or> ret = -1"
    by (auto simp: web3_eth_getTransactionReceipt_def receipt_undecoded bindE_eq_Inr Let_def split: if_splits)
qed

lemma rpc_receipt_never_witness:
  "web3_eth_getTransactionReceipt (demo_platform (document demo_reply)) True 32 5 []
      \<lparr>res_id = 0, res_error = \<lparr>err_code = 0, err_message = None\<rparr>\<rparr> \<lparr>hash_h = replicate 32 1\<rparr>
      \<lparr>rcpt_blockNumber = 0, rcpt_status = 0\<rparr> (rpc_init ''10.0.0.1'' demo_world) = Inl Assertion_failed"
proof -
  let ?w = "rpc_init ''10.0.0.1'' demo_world"
  have "w_req_id (rpc_web3 ?w) = 0" "w_buf_size (rpc_web3 ?w) = 512"
    by (simp_all add: rpc_init_def WEB3_BUF_SIZE_def)
  then have "length (json_text (request ''eth_getTransactionReceipt'' (w_req_id (rpc_web3 ?w)) [hex_json (replicate 32 1)]))
      < w_buf_size (rpc_web3 ?w)"
    by (simp add: request_def hex_json_def quoted_def show_int_def digits_less HEXDIGITS_def)
  from rpc_receipt_never [OF _ demo_ready this demo_answers [OF demo_good(2)], of True 32 5] show ?thesis by (simp del: json_text.simps)
qed

end
