(* ===== verification/ShellUtils.thy ===== *)
theory ShellUtils
  imports Web3 JsonpDecode
begin

text \<open>
  What the shell commands share: \<open>helpers/math.c\<close>, \<open>helpers/fp2str.c\<close> and \<open>zephyr-wallet/utils.c\<close>. A
  printing function returns the text it sends to the console.
\<close>

section \<open>Definitions\<close>

function ipow_loop :: "u64 \<Rightarrow> u8 \<Rightarrow> u64 \<Rightarrow> u64" where
  "ipow_loop base exp result =
    (let result = (if exp AND 1 \<noteq> 0 then result * base else result);
         exp = drop_bit 1 exp
     in if exp = 0 then result else ipow_loop (base * base) exp result)"
  by pat_completeness auto
termination
proof (relation "measure (\<lambda>(base, exp, result). unat exp)")
  fix base :: u64 and exp exp' :: u8 and result result' :: u64
  assume e: "exp' = drop_bit 1 exp" and nz: "exp' \<noteq> 0"
  from e have "unat exp' = unat exp div 2" by (simp add: unat_drop_bit_nat)
  moreover from nz have "0 < unat exp'" by (simp add: unat_gt_0)
  ultimately show "((base * base, exp', result'), (base, exp, result)) \<in> measure (\<lambda>(base, exp, result). unat exp)"
    by simp
qed simp

declare ipow_loop.simps [simp del]

definition ipow :: "u64 \<Rightarrow> u8 \<Rightarrow> u64" where
  "ipow base exp = ipow_loop base exp 1"

text \<open>\<open>%02x\<close> of a byte.\<close>

definition hex02 :: "u8 \<Rightarrow> string" where
  "hex02 b = (if unat b < 16 then ''0'' else []) @ digits 16 (unat b)"

definition printk_hex :: "u8 list \<Rightarrow> nat \<Rightarrow> string outcome" where
  "printk_hex data data_len = bindE (read_at data 0 data_len) (\<lambda>d. Inr (concat (map hex02 d)))"

definition printk_hex_nl :: "u8 list \<Rightarrow> nat \<Rightarrow> string outcome" where
  "printk_hex_nl data data_len = bindE (printk_hex data data_len) (\<lambda>s. Inr (s @ [LF]))"

text \<open>\<open>%s\<close>: the characters before the terminator, which must be in the buffer.\<close>

definition print_buffer :: "string \<Rightarrow> string outcome" where
  "print_buffer buf = (if NUL \<in> set buf then Inr (c_string buf) else Inl Out_of_bounds)"

definition printk_uint256 :: "uint256_t \<Rightarrow> string outcome" where
  "printk_uint256 v =
    bindE (tostring256 v 16 (replicate 65 NUL) 65) (\<lambda>(_, buf).
    bindE (print_buffer buf) (\<lambda>s. Inr (''0x'' @ s @ [LF])))"

definition FMT_EMPTY :: u8 where "FMT_EMPTY = 0"
definition FMT_FIXED :: u8 where "FMT_FIXED = push_bit 0 1"
definition FMT_NO_TRAIL_ZERO :: u8 where "FMT_NO_TRAIL_ZERO = push_bit 1 1"

fun trim_zeros :: "string \<Rightarrow> nat \<Rightarrow> string" where
  "trim_zeros buf 0 = buf"
| "trim_zeros buf (Suc i) = (if buf ! Suc i \<noteq> CHR ''0'' then buf else trim_zeros (buf[Suc i := NUL]) i)"

text \<open>The result of \<open>tostring256\<close> is not looked at; \<open>strlen(buf)-1\<close> of an empty text wraps around.\<close>

definition printk_uint256_int :: "uint256_t \<Rightarrow> u8 \<Rightarrow> u8 \<Rightarrow> string outcome" where
  "printk_uint256_int v decimals fmt =
    bindE (tostring256 v 10 (replicate 65 NUL) 65) (\<lambda>(_, buf).
    bindE (print_buffer buf) (\<lambda>s.
    let buf_len = length s in
    if unat decimals > 65 - 1 then Inr ''<printk_uint256_int() conversion error>''
    else
      let buf = (if fmt AND FMT_FIXED \<noteq> 0 \<and> buf_len < unat decimals
            then replicate (unat decimals - buf_len) CHR ''0'' @ s @ drop (unat decimals) buf else buf) in
      if fmt AND FMT_NO_TRAIL_ZERO = 0 then print_buffer buf
      else bindE (print_buffer buf) (\<lambda>s.
        if s = [] then Inl Out_of_bounds
        else print_buffer (trim_zeros buf (length s - 1)))))"

text \<open>
  \<open>strtoul\<close> on a C string, base 10: the return value, the new \<open>errno\<close> (whether it is set) and whether
  \<open>*endptr\<close> is the terminator. \<open>strtoul\<close> never clears \<open>errno\<close>.
\<close>

definition strtoul10 :: "nat \<Rightarrow> bool \<Rightarrow> string \<Rightarrow> (nat \<times> bool \<times> bool) outcome" where
  "strtoul10 lbits errno str =
    bindE (strtoul lbits 10 (str @ [NUL]) 0) (\<lambda>(val, range, endptr).
    Inr (val, errno \<or> range, endptr = length str))"

definition shell_get_uint64 :: "nat \<Rightarrow> string \<Rightarrow> (int \<times> u64 \<times> bool) outcome" where
  "shell_get_uint64 lbits argval =
    bindE (strtoul10 lbits False argval) (\<lambda>(val, errno, at_end).
    Inr (if errno \<or> \<not> at_end then -1 else 0, of_nat val, errno))"

definition shell_print_decimal_u256 :: "uint256_t \<Rightarrow> u8 \<Rightarrow> string outcome" where
  "shell_print_decimal_u256 val decimals =
    (let decimals_u256 = U256 clear128 (U128 0 (ipow 10 decimals)) in
     bindE (returns (divmod256 val decimals_u256)) (\<lambda>(div_u256, mod_u256).
     bindE (printk_uint256_int div_u256 0 FMT_EMPTY) (\<lambda>s1.
     bindE (printk_uint256_int mod_u256 decimals (FMT_FIXED OR FMT_NO_TRAIL_ZERO)) (\<lambda>s2.
     Inr (s1 @ ''.'' @ s2 @ [LF])))))"

text \<open>
  \<open>fp2str\<close>: a fixed-point number with \<open>digits\<close> fractional bits. With a \<open>long\<close> of 32 bits the masks are undefined from 31 bits on; the
  loop ends when no bit is left or at the end of the buffer, which it tests by equality.
\<close>

partial_function (option) fp_loop :: "u8 \<Rightarrow> nat \<Rightarrow> u32 \<Rightarrow> nat \<Rightarrow> string \<Rightarrow> (int \<times> string) outcome option" where
  "fp_loop n buf_len val buf_p buf =
    (if val > 0 then
       if buf_p = buf_len - 1 then Some (Inr (-1, buf))
       else
         let val = val * 10 in
         case write_at buf buf_p [char_of (48 + unat (drop_bit (unat n) val))] of
           Inl e \<Rightarrow> Some (Inl e)
         | Inr buf \<Rightarrow> fp_loop n buf_len (val AND mask (unat n)) (buf_p + 1) buf
     else Some (bindE (write_at buf buf_p [NUL]) (\<lambda>buf. Inr (0, buf))))"

definition fp2str :: "u32 \<Rightarrow> u8 \<Rightarrow> string \<Rightarrow> nat \<Rightarrow> (int \<times> string) outcome" where
  "fp2str val n buf buf_len =
    (if unat n \<ge> 31 then Inl Undefined
     else
       let text = show_int (sint (drop_bit (unat n) val)); ret = length text in
       bindE (vsnprintf buf 0 buf_len text) (\<lambda>buf.
       if n = 0 then Inr (0, buf)
       else
         let val = val AND mask (unat n) in
         if val = 0 then Inr (0, buf)
         else if ret + 2 + 1 > buf_len then Inr (-1, buf)
         else bindE (write_at buf ret [CHR ''.'']) (\<lambda>buf.
           bindE (returns (fp_loop n buf_len val (ret + 1) buf)) (\<lambda>r. r))))"

section \<open>Powers\<close>

lemma ipow_loop_power: "ipow_loop base exp result = result * base ^ unat exp"
proof (induction base exp result rule: ipow_loop.induct)
  case (1 base exp result)
  let ?r = "if exp AND 1 \<noteq> 0 then result * base else result" and ?e = "drop_bit 1 exp"
  have low: "exp AND 1 \<noteq> 0 \<longleftrightarrow> unat exp mod 2 = 1"
    using unat_mask_nat [of exp 1] by (metis mask_1 mod2_eq_if one_neq_zero power_one_right unat_eq_zero)
  have half: "unat ?e = unat exp div 2" by (simp add: unat_drop_bit_nat)
  have e: "unat exp = 2 * unat ?e + unat exp mod 2" unfolding half by simp
  have "?r * (base * base) ^ unat ?e = result * base ^ (2 * unat ?e + unat exp mod 2)"
    unfolding low power_add power_mult by (auto simp: power2_eq_square mod2_eq_if)
  then have r: "?r * (base * base) ^ unat ?e = result * base ^ unat exp" using e by simp
  show ?case
  proof (cases "?e = 0")
    case True
    with r show ?thesis by (subst ipow_loop.simps) (simp add: Let_def)
  next
    case False
    with 1 [OF refl refl] r show ?thesis by (subst ipow_loop.simps) (simp add: Let_def)
  qed
qed

lemma unat_power: "unat ((w::'a::len word) ^ n) = unat w ^ n mod 2 ^ LENGTH('a)"
  by (induction n) (simp_all add: unat_word_ariths mod_mult_right_eq)

lemma ipow_value: "unat (ipow base exp) = unat base ^ unat exp mod 2 ^ 64"
  by (simp add: ipow_def ipow_loop_power unat_power)

text \<open>Ten to a power: it fits up to 19, and from 64 on nothing is left of it.\<close>

lemma ipow_10_fits: "unat d \<le> 19 \<Longrightarrow> unat (ipow 10 d) = 10 ^ unat d"
proof -
  assume "unat d \<le> 19"
  then have "(10::nat) ^ unat d \<le> 10 ^ 19" by (intro power_increasing) simp_all
  then show ?thesis by (simp add: ipow_value)
qed

lemma ipow_10_vanishes: "64 \<le> unat d \<Longrightarrow> ipow 10 d = 0"
proof -
  assume "64 \<le> unat d"
  then have "(2::nat) ^ 64 dvd 2 ^ unat d" by (intro le_imp_power_dvd)
  also have "(2::nat) ^ unat d dvd 10 ^ unat d" by (intro dvd_power_same) simp
  finally have "unat (ipow 10 d) = 0" by (simp add: ipow_value)
  then show ?thesis by (simp add: unat_eq_zero)
qed

section \<open>Printing\<close>

lemma hex02_text: "hex02 b = [HEX ! unat (drop_bit 4 b), HEX ! unat (b AND 0x0F)]"
proof -
  have m: "(0x0F::u8) = mask 4" by (simp add: mask_eq_exp_minus_1)
  have d: "unat (drop_bit 4 b) = unat b div 16" "unat (b AND 0x0F) = unat b mod 16"
    by (simp_all only: m unat_drop_bit_nat unat_mask_nat) simp_all
  have q: "unat b div 16 < 16" using u8_bound [of b] by linarith
  have h: "HEX = HEXDIGITS" by (simp add: HEX_def HEXDIGITS_def)
  show ?thesis
  proof (cases "unat b < 16")
    case True
    then show ?thesis by (simp add: hex02_def digits_less d h) (simp add: HEXDIGITS_def)
  next
    case False
    with q show ?thesis by (simp add: hex02_def digits_ge digits_less d h)
  qed
qed

lemma printk_hex_text: "n \<le> length data \<Longrightarrow> printk_hex data n = Inr (hex_text (take n data))"
  by (simp add: printk_hex_def read_at_def hex_text_def hex02_text cong: map_cong)

lemma printk_uint256_text: "printk_uint256 v = Inr (''0x'' @ digits 16 (val256 v) @ [LF])"
proof -
  let ?ds = "digits 16 (val256 v)"
  have len: "length ?ds \<le> 64" using val256_less [of v] by (intro length_digits_le) simp_all
  then have "tostring256 v 16 (replicate 65 NUL) 65 = Inr (True, ?ds @ NUL # drop (length ?ds + 1) (replicate 65 NUL))"
    using tostring256_digits [of 16 v 65 "replicate 65 NUL"] by (simp add: NUL_def)
  then show ?thesis
    using c_string_terminated [OF digits_no_nul, of 16 "val256 v"]
    by (simp add: printk_uint256_def print_buffer_def NUL_def)
qed

lemma dec_val_append: "dec_val (s @ t) = dec_val s * 10 ^ length t + dec_val t"
  by (induction t rule: rev_induct)
    (simp_all add: dec_val_def append_assoc [symmetric] algebra_simps del: append_assoc)

lemma dec_val_zeros: "dec_val (replicate n CHR ''0'') = 0"
  by (induction n) (simp_all add: replicate_append_same [symmetric] dec_val_append del: replicate_Suc,
      simp_all add: dec_val_def map_hex_def)

lemma dec_val_digits: "dec_val (digits 10 n) = n"
proof (induction n rule: less_induct)
  case (less n)
  have nib: "nat (map_hex (HEXDIGITS ! k)) = k" if "k < 16" for k
    using map_hex_HEX [OF that] by (simp add: HEXDIGITS_def HEX_def)
  show ?case
  proof (cases "n < 10")
    case True
    then show ?thesis by (simp add: digits_less nib dec_val_def)
  next
    case False
    then have "dec_val (digits 10 (n div 10)) = n div 10" by (intro less) simp
    with False show ?thesis by (simp add: digits_ge dec_val_append) (simp add: nib dec_val_def)
  qed
qed

lemma trim_zeros_text:
  assumes "k < length ds" "NUL \<notin> set ds" "\<forall>c \<in> set (drop (Suc k) ds). c = CHR ''0''"
  shows "\<exists>j \<le> k. trim_zeros (take (Suc k) ds @ replicate (Suc m) NUL) k = take (Suc j) ds @ replicate (m + Suc k - j) NUL \<and>
    (\<forall>c \<in> set (drop (Suc j) ds). c = CHR ''0'') \<and> (j = 0 \<or> ds ! j \<noteq> CHR ''0'')"
  using assms
proof (induction k arbitrary: m)
  case 0
  then show ?case by (intro exI [of _ 0]) simp
next
  case (Suc k)
  have n: "(take (Suc (Suc k)) ds @ replicate (Suc m) NUL) ! Suc k = ds ! Suc k"
    using Suc.prems(1) by (simp add: nth_append)
  show ?case
  proof (cases "ds ! Suc k = CHR ''0''")
    case False
    with n Suc.prems show ?thesis by (intro exI [of _ "Suc k"]) simp
  next
    case True
    have u: "(take (Suc (Suc k)) ds @ replicate (Suc m) NUL)[Suc k := NUL] = take (Suc k) ds @ replicate (Suc (Suc m)) NUL"
      using Suc.prems(1) by (simp add: take_Suc_conv_app_nth list_update_append)
    have "drop (Suc k) ds = ds ! Suc k # drop (Suc (Suc k)) ds"
      using Suc.prems(1) by (simp add: Cons_nth_drop_Suc)
    then have "\<forall>c \<in> set (drop (Suc k) ds). c = CHR ''0''" using Suc.prems(3) True by simp
    from Suc.IH [OF Suc_lessD [OF Suc.prems(1)] Suc.prems(2) this, of "Suc m"] obtain j where
      "j \<le> k" "trim_zeros (take (Suc k) ds @ replicate (Suc (Suc m)) NUL) k = take (Suc j) ds @ replicate (Suc m + Suc k - j) NUL"
      "\<forall>c \<in> set (drop (Suc j) ds). c = CHR ''0''" "j = 0 \<or> ds ! j \<noteq> CHR ''0''"
      by (elim exE conjE) (rule that)
    then show ?thesis using True n u by (intro exI [of _ j]) (simp del: replicate_Suc)
  qed
qed

text \<open>The buffer of a printed number: the text and nothing but NULs behind it.\<close>

lemma print_buffer_text: "NUL \<notin> set s \<Longrightarrow> 0 < n \<Longrightarrow> print_buffer (s @ replicate n NUL) = Inr s"
  using c_string_terminated [of s "replicate (n - 1) NUL"]
  by (cases n) (simp_all add: print_buffer_def NUL_def)

definition padded :: "nat \<Rightarrow> string \<Rightarrow> string" where
  "padded n s = replicate (n - length s) CHR ''0'' @ s"

lemma tostring10:
  assumes "length (digits 10 (val256 v)) \<le> 64"
  shows "tostring256 v 10 (replicate 65 NUL) 65 =
    Inr (True, digits 10 (val256 v) @ replicate (65 - length (digits 10 (val256 v))) NUL)"
proof -
  have "replicate (65 - length (digits 10 (val256 v))) NUL = NUL # replicate (65 - Suc (length (digits 10 (val256 v)))) NUL"
    using assms by (simp add: Suc_diff_le flip: replicate_Suc)
  with tostring256_digits [of 10 v 65 "replicate 65 NUL"] assms show ?thesis by (simp add: NUL_def)
qed

lemma digits10_plain: "NUL \<notin> set (digits 10 n)"
  using digits_no_nul [of 10 n] by (simp add: NUL_def)

lemma printk_plain:
  assumes "length (digits 10 (val256 v)) \<le> 64"
  shows "printk_uint256_int v 0 FMT_EMPTY = Inr (digits 10 (val256 v))"
  using assms print_buffer_text [OF digits10_plain]
  by (simp add: printk_uint256_int_def tostring10 FMT_EMPTY_def Let_def)

lemma fmt_bits: "(FMT_FIXED OR FMT_NO_TRAIL_ZERO) AND FMT_FIXED \<noteq> 0" "(FMT_FIXED OR FMT_NO_TRAIL_ZERO) AND FMT_NO_TRAIL_ZERO \<noteq> 0"
  by (simp_all add: FMT_FIXED_def FMT_NO_TRAIL_ZERO_def)

lemma printk_fraction:
  assumes "length (digits 10 (val256 v)) \<le> 64" "unat d \<le> 64"
  shows "\<exists>j. printk_uint256_int v d (FMT_FIXED OR FMT_NO_TRAIL_ZERO) = Inr (take (Suc j) (padded (unat d) (digits 10 (val256 v)))) \<and>
    Suc j \<le> length (padded (unat d) (digits 10 (val256 v))) \<and>
    (\<forall>c \<in> set (drop (Suc j) (padded (unat d) (digits 10 (val256 v)))). c = CHR ''0'') \<and>
    (j = 0 \<or> padded (unat d) (digits 10 (val256 v)) ! j \<noteq> CHR ''0'')"
proof -
  let ?ds = "digits 10 (val256 v)" and ?s = "padded (unat d) (digits 10 (val256 v))"
  have pos: "0 < length ?ds" by (rule length_digits_pos)
  have len: "0 < length ?s" "length ?s \<le> 64" using pos assms by (auto simp: padded_def)
  have plain: "NUL \<notin> set ?s" using digits10_plain [of "val256 v"] by (simp add: padded_def NUL_def)
  let ?k = "length ?s - 1" and ?m = "64 - length ?s"
  have k: "?k < length ?s" "Suc ?k = length ?s" "65 - length ?s = Suc ?m" using len by simp_all
  have buf: "(if length ?ds < unat d then replicate (unat d - length ?ds) CHR ''0'' @ ?ds @
        drop (unat d) (?ds @ replicate (65 - length ?ds) NUL) else ?ds @ replicate (65 - length ?ds) NUL) =
      ?s @ replicate (65 - length ?s) NUL"
    using assms by (auto simp: padded_def)
  have "\<forall>c \<in> set (drop (Suc ?k) ?s). c = CHR ''0''" using k(2) by simp
  from trim_zeros_text [OF k(1) plain this, of ?m] obtain j where
    j: "j \<le> ?k" "trim_zeros (take (Suc ?k) ?s @ replicate (Suc ?m) NUL) ?k = take (Suc j) ?s @ replicate (?m + Suc ?k - j) NUL"
      "\<forall>c \<in> set (drop (Suc j) ?s). c = CHR ''0''" "j = 0 \<or> ?s ! j \<noteq> CHR ''0''"
    by (elim exE conjE) (rule that)
  have trim: "trim_zeros (?s @ replicate (65 - length ?s) NUL) (length ?s - 1) = take (Suc j) ?s @ replicate (64 - j) NUL"
    using j(2) len k by (simp del: replicate_Suc)
  have "NUL \<notin> set (take (Suc j) ?s)" using plain by (meson in_set_takeD)
  then have out: "print_buffer (take (Suc j) ?s @ replicate (64 - j) NUL) = Inr (take (Suc j) ?s)"
    using j(1) len by (intro print_buffer_text) simp_all
  have one: "print_buffer (?ds @ replicate (65 - length ?ds) NUL) = Inr ?ds"
    using assms by (intro print_buffer_text digits10_plain) simp
  have two: "print_buffer (?s @ replicate (65 - length ?s) NUL) = Inr ?s"
    using len by (intro print_buffer_text plain) simp
  have "Suc j \<le> length ?s" using j(1) k by simp
  moreover have "printk_uint256_int v d (FMT_FIXED OR FMT_NO_TRAIL_ZERO) = Inr (take (Suc j) ?s)"
    using assms(2) len(1) fmt_bits
    by (simp add: printk_uint256_int_def tostring10 [OF assms(1)] one buf two trim [unfolded One_nat_def] out Let_def)
  ultimately show ?thesis using j(3,4) by blast
qed

lemma ten_power_val: "val256 (U256 clear128 (U128 0 w)) = unat w"
  by (simp add: val256_def val128_def clear128_def)

lemma print_decimal:
  assumes d: "unat d \<le> 19" and v: "val256 v div 10 ^ unat d < 10 ^ 64"
  shows "\<exists>frac. shell_print_decimal_u256 v d =
      Inr (digits 10 (val256 v div 10 ^ unat d) @ ''.'' @ frac @ [LF]) \<and> frac \<noteq> [] \<and>
    dec_val frac * 10 ^ unat d = (val256 v mod 10 ^ unat d) * 10 ^ length frac \<and>
    (length frac = 1 \<or> last frac \<noteq> CHR ''0'')"
proof -
  let ?n = "10 ^ unat d :: nat"
  have t: "val256 (U256 clear128 (U128 0 (ipow 10 d))) = ?n" using ipow_10_fits [OF d] by (simp add: ten_power_val)
  then obtain q m where qm: "divmod256 v (U256 clear128 (U128 0 (ipow 10 d))) = Some (q, m)"
      "val256 q = val256 v div ?n" "val256 m = val256 v mod ?n"
    using divmod256_val [of "U256 clear128 (U128 0 (ipow 10 d))" v] by auto
  have q: "length (digits 10 (val256 q)) \<le> 64" using v qm(2) by (intro length_digits_le) simp_all
  have mlt: "val256 m < ?n" using qm(3) by simp
  have dm: "length (digits 10 (val256 m)) \<le> max 1 (unat d)"
  proof (cases "unat d = 0")
    case True
    with mlt show ?thesis by (simp add: digits_less)
  next
    case False
    with mlt show ?thesis using length_digits_le [of 10 "unat d" "val256 m"] by simp
  qed
  have m64: "length (digits 10 (val256 m)) \<le> 64" "unat d \<le> 64" using d dm by simp_all
  let ?s = "padded (unat d) (digits 10 (val256 m))"
  from printk_fraction [OF m64] obtain j where
    j: "printk_uint256_int m d (FMT_FIXED OR FMT_NO_TRAIL_ZERO) = Inr (take (Suc j) ?s)" "Suc j \<le> length ?s"
      "\<forall>c \<in> set (drop (Suc j) ?s). c = CHR ''0''" "j = 0 \<or> ?s ! j \<noteq> CHR ''0''"
    by (elim exE conjE) (rule that)
  let ?frac = "take (Suc j) ?s"
  have zeros: "drop (Suc j) ?s = replicate (length ?s - Suc j) CHR ''0''"
    using j(3) by (intro replicate_eqI) simp_all
  have "dec_val (?frac @ drop (Suc j) ?s) = dec_val ?frac * 10 ^ (length ?s - Suc j)"
    unfolding zeros dec_val_append by (simp add: dec_val_zeros)
  then have "dec_val ?s = dec_val ?frac * 10 ^ (length ?s - Suc j)" by simp
  moreover have "dec_val ?s = val256 m" by (simp add: padded_def dec_val_append dec_val_zeros dec_val_digits)
  ultimately have val: "val256 m = dec_val ?frac * 10 ^ (length ?s - Suc j)" by simp
  have len: "length ?frac = Suc j" using j(2) by simp
  have "dec_val ?frac * ?n = val256 m * 10 ^ Suc j"
  proof (cases "unat d = 0")
    case True
    with mlt have "val256 m = 0" by simp
    with val True show ?thesis by (auto simp: padded_def)
  next
    case False
    with dm have s: "length ?s = unat d" by (simp add: padded_def)
    with j(2) have "?n = 10 ^ (length ?s - Suc j) * 10 ^ Suc j"
      by (simp only: power_add [symmetric] s le_add_diff_inverse2)
    then have "dec_val ?frac * ?n = dec_val ?frac * 10 ^ (length ?s - Suc j) * 10 ^ Suc j"
      by (simp only: mult.assoc)
    then show ?thesis by (simp only: val [symmetric])
  qed
  then have "dec_val ?frac * ?n = val256 m * 10 ^ length ?frac" by (simp only: len)
  then have "dec_val ?frac * ?n = (val256 v mod ?n) * 10 ^ length ?frac" by (simp only: qm(3) [symmetric])
  moreover have "length ?frac = 1 \<or> last ?frac \<noteq> CHR ''0''"
    using j(2,4) by (auto simp: take_Suc_conv_app_nth)
  moreover have "shell_print_decimal_u256 v d = Inr (digits 10 (val256 v div ?n) @ ''.'' @ ?frac @ [LF])"
    by (simp add: shell_print_decimal_u256_def Let_def qm(1) printk_plain [OF q] j(1)) (simp add: qm(2))
  moreover have "?frac \<noteq> []" using len by auto
  ultimately show ?thesis by blast
qed

lemma print_decimal_endless: "64 \<le> unat d \<Longrightarrow> shell_print_decimal_u256 v d = Inl No_return"
  using divmod256_zero [of "U256 clear128 (U128 0 (ipow 10 d))" v] ipow_10_vanishes [of d]
  by (simp add: shell_print_decimal_u256_def ten_power_val)

section \<open>Fixed-point numbers\<close>

text \<open>One turn of the loop: the next digit, and ten times the rest.\<close>

lemma fp_turn:
  assumes "unat (v::u32) < 2 ^ n" "n \<le> 28"
  shows "unat (v * 10) = unat v * 10" "unat (drop_bit n (v * 10)) = unat v * 10 div 2 ^ n"
    "unat (v * 10 AND mask n) = unat v * 10 mod 2 ^ n" "unat v * 10 div 2 ^ n < 10"
proof -
  have "(2::nat) ^ n \<le> 2 ^ 28" using assms(2) by (intro power_increasing) simp_all
  with assms(1) have "unat v * 10 < 2 ^ 32" by simp
  then show ten: "unat (v * 10) = unat v * 10" by (simp add: unat_word_ariths)
  show "unat (drop_bit n (v * 10)) = unat v * 10 div 2 ^ n" "unat (v * 10 AND mask n) = unat v * 10 mod 2 ^ n"
    by (simp_all add: unat_drop_bit_nat unat_mask_nat ten)
  show "unat v * 10 div 2 ^ n < 10" using assms(1) by (simp add: less_mult_imp_div_less mult.commute)
qed

text \<open>The digits the loop writes when there is room for them and the terminator, and its failure when there is not.\<close>

definition fp_writes :: "u8 \<Rightarrow> u32 \<Rightarrow> string \<Rightarrow> bool" where
  "fp_writes n v ds \<longleftrightarrow> (\<forall>buf_p buf_len buf. buf_p < buf_len \<longrightarrow> buf_len \<le> length buf \<longrightarrow>
     (\<exists>r buf'. fp_loop n buf_len v buf_p buf = Some (Inr (r, buf')) \<and> length buf' = length buf \<and>
       (if buf_p + length ds < buf_len then r = 0 \<and> buf' = take buf_p buf @ ds @ NUL # drop (buf_p + length ds + 1) buf else r = -1)))"

lemma fp_writes_zero: "fp_writes n 0 []"
  unfolding fp_writes_def by (intro allI impI) (subst fp_loop.simps, simp add: write_at_def)

lemma fp_writes_turn:
  assumes v: "unat v < 2 ^ unat n" "unat n \<le> 28" "v \<noteq> 0" and ds: "fp_writes n (v * 10 AND mask (unat n)) ds"
  shows "fp_writes n v (char_of (48 + unat v * 10 div 2 ^ unat n) # ds)"
  unfolding fp_writes_def
proof (intro allI impI)
  fix buf_p buf_len :: nat and buf :: string
  assume p: "buf_p < buf_len" "buf_len \<le> length buf"
  let ?c = "char_of (48 + unat v * 10 div 2 ^ unat n) :: char" and ?v = "v * 10 AND mask (unat n)"
  let ?P = "\<lambda>r buf'. length buf' = length buf \<and> (if buf_p + length (?c # ds) < buf_len
    then r = 0 \<and> buf' = take buf_p buf @ (?c # ds) @ NUL # drop (buf_p + length (?c # ds) + 1) buf else r = -1)"
  have pos: "0 < v" using v(3) by (simp add: word_neq_0_conv)
  show "\<exists>r buf'. fp_loop n buf_len v buf_p buf = Some (Inr (r, buf')) \<and> ?P r buf'"
  proof (cases "buf_p = buf_len - 1")
    case True
    with pos have "fp_loop n buf_len v buf_p buf = Some (Inr (-1, buf))" by (subst fp_loop.simps) simp
    with True p show ?thesis by auto
  next
    case False
    let ?buf = "take buf_p buf @ [?c] @ drop (buf_p + 1) buf"
    have w: "write_at buf buf_p [?c] = Inr ?buf" using p by (simp add: write_at_def)
    with False pos have run: "fp_loop n buf_len v buf_p buf = fp_loop n buf_len ?v (buf_p + 1) ?buf"
      by (subst fp_loop.simps) (simp add: Let_def fp_turn(2) [OF v(1,2)])
    have len: "length ?buf = length buf" "buf_p + 1 < buf_len" using p False by simp_all
    from ds [unfolded fp_writes_def, rule_format, OF len(2), of ?buf] p(2) obtain r buf' where
      r: "fp_loop n buf_len ?v (buf_p + 1) ?buf = Some (Inr (r, buf'))" "length buf' = length ?buf"
        "if buf_p + 1 + length ds < buf_len then r = 0 \<and> buf' = take (buf_p + 1) ?buf @ ds @ NUL # drop (buf_p + 1 + length ds + 1) ?buf else r = -1"
      unfolding len(1) by blast
    have "take (buf_p + 1) ?buf @ ds @ NUL # drop (buf_p + 1 + length ds + 1) ?buf =
        take buf_p buf @ (?c # ds) @ NUL # drop (buf_p + length (?c # ds) + 1) buf"
      using p by (simp add: add.commute)
    with r len(1) show ?thesis unfolding run by (intro exI [of _ r] exI [of _ buf']) (simp split: if_splits)
  qed
qed

text \<open>They are the exact decimal fraction.\<close>

lemma fp_loop_digits:
  assumes "unat v < 2 ^ unat n" "unat n \<le> 28" "2 ^ (unat n - k) dvd unat v" "k \<le> unat n"
  shows "\<exists>ds. fp_writes n v ds \<and> length ds \<le> k \<and> decimal (CHR ''0'' # ds) \<and> dec_val ds * 2 ^ unat n = unat v * 10 ^ length ds"
  using assms
proof (induction k arbitrary: v)
  case 0
  then have "v = 0" by (auto dest: nat_dvd_not_less simp: unat_eq_zero)
  then show ?case by (intro exI [of _ "[]"]) (simp add: fp_writes_zero decimal_def dec_val_def)
next
  case (Suc k)
  show ?case
  proof (cases "v = 0")
    case True
    then show ?thesis by (intro exI [of _ "[]"]) (simp add: fp_writes_zero decimal_def dec_val_def)
  next
    case False
    note t = fp_turn [OF Suc.prems(1,2)]
    let ?c = "char_of (48 + unat v * 10 div 2 ^ unat n) :: char" and ?v = "v * 10 AND mask (unat n)"
    have dv: "unat ?v < 2 ^ unat n" "2 ^ (unat n - k) dvd unat ?v"
    proof -
      show "unat ?v < 2 ^ unat n" by (simp add: t(3))
      have "unat n - k = Suc (unat n - Suc k)" using Suc.prems(4) by simp
      then have "2 ^ (unat n - k) dvd unat v * 10"
        using Suc.prems(3) by (simp add: mult_dvd_mono [of 2 10, simplified] mult.commute)
      then show "2 ^ (unat n - k) dvd unat ?v" unfolding t(3) by (simp add: dvd_mod le_imp_power_dvd)
    qed
    from Suc.IH [OF dv(1) Suc.prems(2) dv(2)] Suc.prems(4) obtain ds where
      ds: "fp_writes n ?v ds" "length ds \<le> k" "decimal (CHR ''0'' # ds)" "dec_val ds * 2 ^ unat n = unat ?v * 10 ^ length ds"
      by auto
    have c: "map_hex ?c = int (unat v * 10 div 2 ^ unat n)" "code ?c = 48 + int (unat v * 10 div 2 ^ unat n)"
    proof -
      have "code ?c = int (of_char ?c)" by (simp only: of_nat_of_char)
      also have "of_char ?c = 48 + unat v * 10 div 2 ^ unat n" using t(4) by (simp add: of_char_of)
      finally show "code ?c = 48 + int (unat v * 10 div 2 ^ unat n)" by simp
      with t(4) show "map_hex ?c = int (unat v * 10 div 2 ^ unat n)" by (simp add: map_hex_def)
    qed
    have "dec_val (?c # ds) * 2 ^ unat n = unat v * 10 ^ length (?c # ds)"
    proof -
      have "dec_val (?c # ds) = (unat v * 10 div 2 ^ unat n) * 10 ^ length ds + dec_val ds"
        using dec_val_append [of "[?c]" ds] c(1) by (simp add: dec_val_def)
      then have "dec_val (?c # ds) * 2 ^ unat n =
          (unat v * 10 div 2 ^ unat n) * 10 ^ length ds * 2 ^ unat n + dec_val ds * 2 ^ unat n"
        by (simp only: add_mult_distrib)
      also have "\<dots> = (unat v * 10 div 2 ^ unat n * 2 ^ unat n + unat v * 10 mod 2 ^ unat n) * 10 ^ length ds"
        unfolding ds(4) t(3) add_mult_distrib by (simp only: mult.commute mult.left_commute mult.assoc)
      finally have "dec_val (?c # ds) * 2 ^ unat n = unat v * 10 * 10 ^ length ds"
        by (simp only: div_mult_mod_eq)
      then show ?thesis by simp
    qed
    with fp_writes_turn [OF Suc.prems(1,2) False ds(1)] ds c t(4) show ?thesis
      by (intro exI [of _ "?c # ds"]) (simp add: decimal_def)
  qed
qed

section \<open>Reading numbers\<close>

lemma strtoul10_decimal:
  assumes "decimal ds"
  shows "strtoul10 lbits errno ds =
    Inr (if dec_val ds < 2 ^ lbits then dec_val ds else 2 ^ lbits - 1, errno \<or> 2 ^ lbits \<le> dec_val ds, True)"
proof -
  have "strto 10 (ds @ [NUL]) 0 = Inr (False, dec_val ds, length ds)"
    using strto_decimal_before [OF assms, of 0 "ds @ [NUL]" NUL "[]"] by (simp add: map_hex_def NUL_def)
  then show ?thesis by (simp add: strtoul10_def strtoul_def not_less)
qed

lemma get_uint64_decimal:
  assumes "decimal ds" "dec_val ds < 2 ^ lbits"
  shows "shell_get_uint64 lbits ds = Inr (0, of_nat (dec_val ds), False)"
  using assms by (simp add: shell_get_uint64_def strtoul10_decimal)

text \<open>On a C string \<open>strtoul\<close> stays inside it.\<close>

lemma skip_space_total: "i \<le> length s \<Longrightarrow> \<exists>j. skip_space (s @ [NUL]) i = Inr j \<and> i \<le> j \<and> j \<le> length s"
proof (induction "s @ [NUL]" i rule: skip_space.induct)
  case (1 i)
  have n: "\<not> is_space NUL" by (simp add: is_space_def NUL_def)
  show ?case
  proof (cases "i < length s \<and> is_space (s ! i)")
    case True
    with 1 show ?thesis by (subst skip_space.simps) (fastforce simp: nth_append)
  next
    case False
    with 1(2) n show ?thesis by (subst skip_space.simps) (auto simp: nth_append)
  qed
qed

lemma scan_digits_total: "i \<le> length s \<Longrightarrow> \<exists>v j. scan_digits b (s @ [NUL]) i acc = Inr (v, j)"
proof (induction b "s @ [NUL]" i acc rule: scan_digits.induct)
  case (1 b i acc)
  show ?case
  proof (cases "i < length s \<and> 0 \<le> map_hex (s ! i) \<and> map_hex (s ! i) < int b")
    case True
    with 1 show ?thesis by (subst scan_digits.simps) (auto simp: nth_append Let_def)
  next
    case False
    have "map_hex NUL = -1" by (simp add: map_hex_def NUL_def)
    with False 1(2) show ?thesis by (subst scan_digits.simps) (auto simp: nth_append Let_def)
  qed
qed

lemma strtoul10_total: "\<exists>val errno' at_end. strtoul10 lbits errno str = Inr (val, errno', at_end) \<and> (errno \<longrightarrow> errno')"
proof -
  obtain i where i: "skip_space (str @ [NUL]) 0 = Inr i" "i \<le> length str" using skip_space_total [of 0 str] by auto
  let ?c = "(str @ [NUL]) ! i"
  let ?i = "if ?c = CHR ''-'' \<or> ?c = CHR ''+'' then i + 1 else i"
  have i': "?i \<le> length str" using i(2) by (auto simp: nth_append NUL_def split: if_splits)
  then obtain v j where "scan_digits 10 (str @ [NUL]) ?i 0 = Inr (v, j)" using scan_digits_total by blast
  moreover have "Ex Not" by (rule exI [of _ False]) simp
  ultimately have "\<exists>r. strto 10 (str @ [NUL]) 0 = Inr r" using i i' by (simp add: strto_def mem_char_def Let_def)
  then show ?thesis by (auto simp: strtoul10_def strtoul_def)
qed

section \<open>Properties\<close>

text \<open>
  C32: \<open>ipow\<close>, squaring its way through the bits of the exponent, is the power, modulo \<open>2 ^ 64\<close>.
\<close>

theorem ipow_is_power: "ipow base exp = base ^ unat exp \<and> unat (ipow base exp) = unat base ^ unat exp mod 2 ^ 64"
  by (simp add: ipow_value) (simp add: ipow_def ipow_loop_power)

text \<open>
  C33: amounts are printed exactly. For up to 19 decimals (and a whole part of up to 64 digits)
  \<open>shell_print_decimal_u256\<close> prints the whole part, a point and a fraction that stand for the amount
  divided by the power of ten, the fraction without trailing zeros. From 64 decimals on, a number a
  token contract is asked for, it never returns: the power of ten has become zero.
\<close>

theorem print_decimal_exact:
  "(unat d \<le> 19 \<longrightarrow> val256 v div 10 ^ unat d < 10 ^ 64 \<longrightarrow>
     (\<exists>frac. shell_print_decimal_u256 v d =
        Inr (digits 10 (val256 v div 10 ^ unat d) @ ''.'' @ frac @ [LF]) \<and> frac \<noteq> [] \<and>
        dec_val frac * 10 ^ unat d = (val256 v mod 10 ^ unat d) * 10 ^ length frac \<and>
        (length frac = 1 \<or> last frac \<noteq> CHR ''0''))) \<and>
   (64 \<le> unat d \<longrightarrow> shell_print_decimal_u256 v d = Inl No_return)"
  using print_decimal print_decimal_endless by blast

theorem print_decimal_exact_witness:
  "\<exists>frac. shell_print_decimal_u256 (set256_uint64 1500) 3 = Inr (''1'' @ ''.'' @ frac @ [LF]) \<and>
    dec_val frac * 10 ^ 3 = 500 * 10 ^ length frac"
proof -
  have "unat (3::u8) = 3" "unat (1500::u64) = 1500" by simp_all
  then show ?thesis
    using print_decimal_exact [of 3 "set256_uint64 1500"] by (auto simp: digits_less HEXDIGITS_def)
qed

lemma vsnprintf_start:
  assumes "n \<le> length buf"
  shows "\<exists>buf'. vsnprintf buf 0 n s = Inr buf' \<and> length buf' = length buf \<and>
    (\<not> length s < n \<longrightarrow> take (n - 1) buf' = take (n - 1) s) \<and> (length s < n \<longrightarrow> buf' = s @ NUL # drop (length s + 1) buf)"
proof (cases "length s < n")
  case True
  with assms show ?thesis by (simp add: vsnprintf_def write_at_def)
next
  case False
  then have "length (take (n - 1) s) = n - 1" by simp
  with assms False show ?thesis by (cases "n = 0") (auto simp: vsnprintf_def write_at_def)
qed

lemma fp_after_point:
  assumes "fp_writes n v ds" "length t + 2 < buf_len" "buf_len \<le> length buf"
  shows "\<exists>r buf'. fp_loop n buf_len v (length t + 1) (t @ CHR ''.'' # drop (length t + 1) buf) = Some (Inr (r, buf')) \<and>
    length buf' = length buf \<and>
    (if length (t @ CHR ''.'' # ds) < buf_len then r = 0 \<and> buf' = (t @ CHR ''.'' # ds) @ NUL # drop (length (t @ CHR ''.'' # ds) + 1) buf else r = -1)"
proof -
  let ?buf = "t @ CHR ''.'' # drop (length t + 1) buf"
  have len: "length ?buf = length buf" "length t + 1 < buf_len" using assms(2,3) by simp_all
  have "take (length t + 1) ?buf @ ds @ NUL # drop (length t + 1 + length ds + 1) ?buf =
      (t @ CHR ''.'' # ds) @ NUL # drop (length (t @ CHR ''.'' # ds) + 1) buf" by (simp add: add.commute)
  moreover have "length (t @ CHR ''.'' # ds) = length t + 1 + length ds" by simp
  ultimately show ?thesis
    using assms(1) [unfolded fp_writes_def, rule_format, OF len(2), of ?buf] assms(3) unfolding len(1) by (simp only:)
qed

text \<open>
  C34: \<open>fp2str\<close> returns, for up to 28 fractional bits, every value whose whole part fits an \<open>int\<close> and every buffer. Let
  the text be the whole part and, unless the fraction is zero, a point and the digits of the exact decimal
  fraction, of which there are at most as many as fractional bits. When it fits with its terminator it is what the buffer holds
  and the result is 0. When it does not, the result is -1, except that for a zero fraction the whole part is
  cut to the buffer and the result is 0 all the same. From 29 bits on, ten times the fraction no longer fits in
  32 bits.
\<close>

theorem fp2str_exact:
  assumes "unat n \<le> 28" "unat val div 2 ^ unat n < 2 ^ 31" "buf_len \<le> length buf"
  shows "\<exists>frac ret buf'. fp2str val n buf buf_len = Inr (ret, buf') \<and> length buf' = length buf \<and>
    length frac \<le> unat n \<and> decimal (CHR ''0'' # frac) \<and>
    dec_val frac * 2 ^ unat n = (unat val mod 2 ^ unat n) * 10 ^ length frac \<and>
    (frac = [] \<longleftrightarrow> unat val mod 2 ^ unat n = 0) \<and>
    (let whole = digits 10 (unat val div 2 ^ unat n); text = whole @ (if frac = [] then [] else CHR ''.'' # frac) in
     if length text < buf_len then ret = 0 \<and> buf' = text @ NUL # drop (length text + 1) buf
     else if frac = [] then ret = 0 \<and> take (buf_len - 1) buf' = take (buf_len - 1) whole
     else ret = -1)"
proof -
  let ?t = "digits 10 (unat val div 2 ^ unat n)" and ?v = "val AND mask (unat n)"
  have "unat (drop_bit (unat n) val) = unat val div 2 ^ unat n" by (rule unat_drop_bit_nat)
  with assms(2) have "sint (drop_bit (unat n) val) = int (unat val div 2 ^ unat n)"
    by (simp add: sint_uint uint_nat signed_take_bit_int_eq_self)
  then have whole: "show_int (sint (drop_bit (unat n) val)) = ?t" by (simp add: show_int_def)
  have v: "unat ?v = unat val mod 2 ^ unat n" by (rule unat_mask_nat)
  from vsnprintf_start [OF assms(3), of ?t] obtain buf1 where snp: "vsnprintf buf 0 buf_len ?t = Inr buf1" "length buf1 = length buf"
      "\<not> length ?t < buf_len \<Longrightarrow> take (buf_len - 1) buf1 = take (buf_len - 1) ?t" "length ?t < buf_len \<Longrightarrow> buf1 = ?t @ NUL # drop (length ?t + 1) buf"
    by blast
  show ?thesis
  proof (cases "?v = 0")
    case True
    with v have z: "unat val mod 2 ^ unat n = 0" by simp
    have "fp2str val n buf buf_len = Inr (0, buf1)"
      using True assms(1) whole snp(1) by (auto simp: fp2str_def Let_def)
    then show ?thesis using z snp(2-4)
      by (intro exI [of _ "[]"] exI [of _ 0] exI [of _ buf1]) (simp add: decimal_def dec_val_def)
  next
    case False
    have "unat ?v < 2 ^ unat n" "2 ^ (unat n - unat n) dvd unat ?v" using v by simp_all
    from fp_loop_digits [OF this(1) assms(1) this(2) order_refl] obtain ds where
      ds: "fp_writes n ?v ds" "length ds \<le> unat n" "decimal (CHR ''0'' # ds)" "dec_val ds * 2 ^ unat n = unat ?v * 10 ^ length ds"
      by blast
    have ne: "ds \<noteq> []" using ds(4) False by (auto simp: dec_val_def unat_eq_zero)
    have nz: "n \<noteq> 0" using False by auto
    note facts = ds(2,3) ds(4) [unfolded v] ne False [folded unat_eq_zero, unfolded v]
    show ?thesis
    proof (cases "length ?t + 2 < buf_len")
      case short: False
      then have "fp2str val n buf buf_len = Inr (-1, buf1)"
        using assms(1) whole snp(1) False nz by (auto simp: fp2str_def Let_def)
      moreover have "\<not> length (?t @ CHR ''.'' # ds) < buf_len" using short ne by (cases ds) simp_all
      ultimately show ?thesis using facts snp(2) by (intro exI [of _ ds] exI [of _ "-1"] exI [of _ buf1]) simp
    next
      case room: True
      let ?buf = "?t @ CHR ''.'' # drop (length ?t + 1) buf"
      have w: "write_at buf1 (length ?t) [CHR ''.''] = Inr ?buf" using room assms(3) snp(4) by (simp add: write_at_def)
      obtain r buf' where
        r: "fp_loop n buf_len ?v (length ?t + 1) ?buf = Some (Inr (r, buf'))" "length buf' = length buf"
          "if length (?t @ CHR ''.'' # ds) < buf_len then r = 0 \<and> buf' = (?t @ CHR ''.'' # ds) @ NUL # drop (length (?t @ CHR ''.'' # ds) + 1) buf else r = -1"
        using fp_after_point [OF ds(1) room assms(3)] by blast
      have "fp2str val n buf buf_len = Inr (r, buf')"
        using assms(1) room whole snp(1) w r(1) False nz by (auto simp: fp2str_def Let_def)
      with r(2,3) facts(1-3,5) ne show ?thesis
        by (intro exI [of _ ds] exI [of _ r] exI [of _ buf'])
          (cases "length (?t @ CHR ''.'' # ds) < buf_len"; simp only: Let_def if_True if_False simp_thms)
    qed
  qed
qed

theorem fp2str_exact_witness:
  "\<exists>frac buf'. fp2str 0x28 4 (replicate 10 NUL) 10 = Inr (0, buf') \<and> take (2 + length frac) buf' = ''2.'' @ frac \<and>
    dec_val frac * 16 = 8 * 10 ^ length frac"
proof -
  have u: "unat (4::u8) = 4" "unat (0x28::u32) = 40" "digits 10 2 = ''2''"
    by (simp_all add: digits_less HEXDIGITS_def)
  from fp2str_exact [of 4 "0x28" 10 "replicate 10 NUL", unfolded u] obtain frac ret buf' where
    f: "fp2str 0x28 4 (replicate 10 NUL) 10 = Inr (ret, buf')" "length frac \<le> 4" "frac \<noteq> []"
      "dec_val frac * 2 ^ 4 = (40 mod 2 ^ 4) * 10 ^ length frac"
      "length (''2'' @ CHR ''.'' # frac) < 10 \<Longrightarrow> ret = 0 \<and> buf' = (''2'' @ CHR ''.'' # frac) @ NUL # drop (length (''2'' @ CHR ''.'' # frac) + 1) (replicate 10 NUL)"
    using u(3) by (auto simp: Let_def)
  from f(2,5) have "ret = 0" "take (2 + length frac) buf' = ''2.'' @ frac" by simp_all
  with f(1,4) show ?thesis by (intro exI [of _ frac] exI [of _ buf']) simp
qed

end
