(* ===== verification/Wallet.thy ===== *)
theory Wallet
  imports Web3Rpc ShellUtils
begin

text \<open>
  \<open>zephyr-wallet/wallet.c\<close>: the account and the shell commands of the wallet. A command gets \<open>argv\<close> and
  the state of the shell: the account, the remote calls' static objects, \<open>errno\<close> of the shell thread
  and the text on the console (the reports \<open>web3_rpc.c\<close> itself prints on errors are left out).
\<close>

section \<open>Definitions\<close>

text \<open>\<open>privkey_t\<close> is its 32 bytes.\<close>

record account_t =
  acc_privkey :: "u8 list"
  acc_address :: address_t
  acc_nonce :: u32
  acc_gas_price :: u32
  acc_gas_limit :: u32

text \<open>The static \<open>_account\<close> as it is initialised.\<close>

definition account_init :: account_t where
  "account_init = \<lparr>acc_privkey = replicate 32 0, acc_address = \<lparr>addr_a = replicate 20 0\<rparr>, acc_nonce = 0,
     acc_gas_price = 1000000000, acc_gas_limit = 21000\<rparr>"

text \<open>What the program runs on: kernel and network, the width of \<open>long\<close>, and the cryptographic library.\<close>

record ('m, 'n) machine =
  on_platform :: "('m, 'n) platform"
  on_asserts :: bool
  on_lbits :: nat
  on_keccak :: keccak
  on_sign :: ecdsa_sign
  on_pubkey :: "u8 list \<Rightarrow> u8 list"

text \<open>The thread a command runs on, and the uninitialised local objects of the command and of the calls below it.\<close>

record stack =
  stk_thread :: thread
  stk_toks :: "jsmntok_t list"
  stk_res :: jsonrpc_result_t
  stk_tx :: transaction_t
  stk_sig :: signature_t
  stk_buf :: "u8 list"
  stk_u256 :: uint256_t
  stk_errno :: bool

record ('m, 'n) shell =
  sh_account :: account_t
  sh_rpc :: "('m, 'n) rpc_world"
  sh_errno :: bool
  sh_out :: string

type_synonym ('m, 'n) command_result = "(int \<times> ('m, 'n) shell) outcome"

text \<open>\<open>printk\<close> with \<open>%d\<close> or \<open>%lld\<close>.\<close>

definition signed_digits :: "int \<Rightarrow> string" where
  "signed_digits i = (if i < 0 then CHR ''-'' # digits 10 (nat (- i)) else digits 10 (nat i))"

text \<open>\<open>argv[i]\<close>; behind the last argument there is none.\<close>

definition arg :: "string list \<Rightarrow> nat \<Rightarrow> string outcome" where
  "arg argv i = (if i < length argv then Inr (argv ! i) else Inl Out_of_bounds)"

definition say :: "string \<Rightarrow> ('m, 'n) shell \<Rightarrow> ('m, 'n) shell" where
  "say s w = w\<lparr>sh_out := sh_out w @ s\<rparr>"

definition say_line :: "string \<Rightarrow> ('m, 'n) shell \<Rightarrow> ('m, 'n) shell" where
  "say_line s w = say (s @ [LF]) w"

text \<open>
  A printing function at the end of a command that returns 0, and a remote call. The decoders of a response
  clear \<open>errno\<close> before they convert a number, and the network code may set it: what a call leaves in \<open>errno\<close> is
  an argument, whether it is not 0.
\<close>

definition print_and_return :: "string outcome \<Rightarrow> ('m, 'n) shell \<Rightarrow> ('m, 'n) command_result" where
  "print_and_return p w = bindE p (\<lambda>s. Inr (0, say s w))"

definition on_rpc ::
    "stack \<Rightarrow> (('m, 'n) rpc_world \<Rightarrow> (int \<times> 'a \<times> ('m, 'n) rpc_world) outcome) \<Rightarrow> ('m, 'n) shell \<Rightarrow>
     (int \<times> 'a \<times> ('m, 'n) shell) outcome" where
  "on_rpc st f w = bindE (f (sh_rpc w)) (\<lambda>(ret, x, rpc). Inr (ret, x, w\<lparr>sh_rpc := rpc, sh_errno := stk_errno st\<rparr>))"

definition wallet_set_global_privkey ::
    "('m, 'n) machine \<Rightarrow> u8 list \<Rightarrow> ('m, 'n) shell \<Rightarrow> ('m, 'n) shell outcome" where
  "wallet_set_global_privkey ma pk w =
    bindE (privkey_to_ethereum_address (on_keccak ma) (on_pubkey ma) pk) (\<lambda>(_, address).
    Inr (w\<lparr>sh_account := sh_account w\<lparr>acc_privkey := pk, acc_address := address\<rparr>\<rparr>))"

definition wallet_set_pk :: "('m, 'n) machine \<Rightarrow> string list \<Rightarrow> ('m, 'n) shell \<Rightarrow> ('m, 'n) command_result" where
  "wallet_set_pk ma argv w =
    (if length argv \<le> 1 then print_and_return (printk_hex_nl (acc_privkey (sh_account w)) 32) w
     else bindE (arg argv 1) (\<lambda>str.
       if length str \<noteq> 64 then Inr (0, say_line ''invalid private key: invalid length (64 chars expected)'' w)
       else bindE (hextobin str (replicate 32 0) 32) (\<lambda>(ret, pk).
         if ret < 0 then Inr (0, say_line ''Invalid private key.'' w)
         else bindE (wallet_set_global_privkey ma pk w) (\<lambda>w. Inr (0, w)))))"

text \<open>\<open>errno\<close> is not cleared before \<open>strtoul\<close>; the value is cut to 32 bits.\<close>

definition convert_ulong ::
    "('m, 'n) machine \<Rightarrow> string \<Rightarrow> string \<Rightarrow> u32 \<Rightarrow> ('m, 'n) shell \<Rightarrow> (int \<times> u32 \<times> ('m, 'n) shell) outcome" where
  "convert_ulong ma str name out w =
    bindE (char_at str 0) (\<lambda>c.
    if c = CHR ''-'' then Inr (-1, out, say_line (''invalid argument: '' @ name) w)
    else bindE (strtoul10 (on_lbits ma) (sh_errno w) str) (\<lambda>(val, errno, at_end).
      let w = w\<lparr>sh_errno := errno\<rparr> in
      if errno \<or> \<not> at_end then Inr (-1, out, say_line (''invalid argument: '' @ name) w)
      else Inr (0, of_nat val, w)))"

text \<open>The three settings share their shape: print the value, or convert the argument into it.\<close>

definition wallet_setting ::
    "string \<Rightarrow> (account_t \<Rightarrow> u32) \<Rightarrow> (u32 \<Rightarrow> account_t \<Rightarrow> account_t) \<Rightarrow>
     ('m, 'n) machine \<Rightarrow> string list \<Rightarrow> ('m, 'n) shell \<Rightarrow> ('m, 'n) command_result" where
  "wallet_setting name get put ma argv w =
    (if length argv \<le> 1 then Inr (0, say_line (digits 10 (unat (get (sh_account w)))) w)
     else bindE (arg argv 1) (\<lambda>str.
       bindE (convert_ulong ma str name (get (sh_account w)) w) (\<lambda>(ret, out, w).
       Inr (ret, w\<lparr>sh_account := put out (sh_account w)\<rparr>))))"

definition wallet_set_nonce :: "('m, 'n) machine \<Rightarrow> string list \<Rightarrow> ('m, 'n) shell \<Rightarrow> ('m, 'n) command_result" where
  "wallet_set_nonce ma argv w = wallet_setting ''set_nonce'' acc_nonce (\<lambda>v a. a\<lparr>acc_nonce := v\<rparr>) ma argv w"

definition wallet_set_gas_price :: "('m, 'n) machine \<Rightarrow> string list \<Rightarrow> ('m, 'n) shell \<Rightarrow> ('m, 'n) command_result" where
  "wallet_set_gas_price ma argv w = wallet_setting ''gas_price'' acc_gas_price (\<lambda>v a. a\<lparr>acc_gas_price := v\<rparr>) ma argv w"

definition wallet_set_gas_limit :: "('m, 'n) machine \<Rightarrow> string list \<Rightarrow> ('m, 'n) shell \<Rightarrow> ('m, 'n) command_result" where
  "wallet_set_gas_limit ma argv w = wallet_setting ''gas_limit'' acc_gas_limit (\<lambda>v a. a\<lparr>acc_gas_limit := v\<rparr>) ma argv w"

text \<open>
  \<open>buf\<close> has 256 bytes; the length \<open>tx_encode_sign\<close> returns, an \<open>int\<close>, becomes a \<open>size_t\<close>, which is as wide
  as \<open>long\<close>. The code that signs and sends a transaction.
\<close>

definition sign_and_send ::
    "('m, 'n) machine \<Rightarrow> stack \<Rightarrow> transaction_t \<Rightarrow> ('m, 'n) shell \<Rightarrow> (int \<times> uint256_t \<times> ('m, 'n) shell) outcome" where
  "sign_and_send ma st tx w =
    bindE (tx_encode_sign (on_keccak ma) (on_sign ma) (stk_sig st) tx (acc_privkey (sh_account w)) (stk_buf st) 256)
      (\<lambda>(txlen, buf).
    on_rpc st (web3_eth_sendRawTransaction (on_platform ma) (on_asserts ma) (on_lbits ma) (stk_thread st) (stk_toks st)
      (stk_res st) (Some buf) (nat (txlen mod 2 ^ on_lbits ma)) (stk_u256 st)) w)"


text \<open>The bytes behind a recipient of fewer than 40 digits are zero: \<open>hextobin\<close> clears the buffer first.\<close>

definition wallet_transfer :: "('m, 'n) machine \<Rightarrow> stack \<Rightarrow> string list \<Rightarrow> ('m, 'n) shell \<Rightarrow> ('m, 'n) command_result" where
  "wallet_transfer ma st argv w =
    (if length argv < 2 then Inr (-1, say_line ''missing argument: address'' w)
     else bindE (arg argv 1) (\<lambda>to_text.
       bindE (hextobin to_text (addr_a (tx_to (stk_tx st))) 20) (\<lambda>(ret, to_bytes).
       if ret < 0 then Inr (-1, say_line ''invalid argument: address'' w)
       else if length argv < 3 then Inr (-1, say_line ''missing argument: transfer amount'' w)
       else bindE (arg argv 2) (\<lambda>value_text.
         bindE (strtoul10 (on_lbits ma) (sh_errno w) value_text) (\<lambda>(val, errno, at_end).
         let w = w\<lparr>sh_errno := errno\<rparr> in
         if errno \<or> \<not> at_end then Inr (-1, say_line ''invalid argument: amount'' w)
         else
           let tx = (stk_tx st)\<lparr>tx_to := \<lparr>addr_a = to_bytes\<rparr>, tx_nonce := acc_nonce (sh_account w),
                 tx_gas_price := 1000000000, tx_gas_limit := 21000\<rparr>;
               tx = (tx_set_value_u64 tx (of_nat val))\<lparr>tx_data := None, tx_data_len := 0\<rparr> in
           bindE (sign_and_send ma st tx w) (\<lambda>(ret, tx_hash, w).
           if ret < 0 then Inr (-1, say_line ''Error: eth_sendRawTransaction()'' w)
           else print_and_return (printk_uint256 tx_hash) w))))))"

definition wallet_pk2addr :: "('m, 'n) machine \<Rightarrow> string list \<Rightarrow> ('m, 'n) shell \<Rightarrow> ('m, 'n) command_result" where
  "wallet_pk2addr ma argv w =
    (if length argv \<le> 1 then bindE (arg argv 0) (\<lambda>s. Inr (0, say_line (''usage: '' @ s @ '' <hex_privkey>'') w))
     else bindE (arg argv 1) (\<lambda>str.
       if length str \<noteq> 64 then Inr (0, say_line ''invalid private key: invalid length (64 chars expected)'' w)
       else bindE (hextobin str (replicate 32 0) 32) (\<lambda>(ret, pk).
         if ret < 0 then Inr (0, say_line ''Invalid private key.'' w)
         else bindE (privkey_to_ethereum_address (on_keccak ma) (on_pubkey ma) pk) (\<lambda>(ret, addr).
           if ret < 0 then Inr (0, say_line ''Error while converting private key.'' w)
           else print_and_return (printk_hex_nl (addr_a addr) 20) w))))"

definition wallet_sync :: "('m, 'n) machine \<Rightarrow> stack \<Rightarrow> string list \<Rightarrow> ('m, 'n) shell \<Rightarrow> ('m, 'n) command_result" where
  "wallet_sync ma st argv w =
    bindE (on_rpc st (web3_eth_getTransactionCount (on_platform ma) (on_asserts ma) (on_lbits ma) (stk_thread st)
        (stk_toks st) (stk_res st) (acc_address (sh_account w)) (stk_u256 st)) w) (\<lambda>(ret, tx_count, w).
    if ret < 0 then Inr (0, say_line ''Error: eth_getTransactionCount failed'' w)
    else Inr (0, w\<lparr>sh_account := sh_account w\<lparr>acc_nonce := ucast (LOWER (LOWER256 tx_count))\<rparr>\<rparr>))"

definition wallet_balance :: "('m, 'n) machine \<Rightarrow> stack \<Rightarrow> string list \<Rightarrow> ('m, 'n) shell \<Rightarrow> ('m, 'n) command_result" where
  "wallet_balance ma st argv w =
    (let decimals = U256 clear128 (U128 0 1000000000000000000) in
     bindE (on_rpc st (web3_eth_getBalance (on_platform ma) (on_asserts ma) (on_lbits ma) (stk_thread st)
        (stk_toks st) (stk_res st) (acc_address (sh_account w)) clear256) w) (\<lambda>(ret, out, w).
     if ret < 0 then Inr (-1, say ''Error: eth_getBalance failed'' w)
     else bindE (returns (divmod256 out decimals)) (\<lambda>(div_u256, mod_u256).
       bindE (printk_uint256_int div_u256 0 FMT_EMPTY) (\<lambda>s1.
       bindE (printk_uint256_int mod_u256 18 (FMT_FIXED OR FMT_NO_TRAIL_ZERO)) (\<lambda>s2.
       Inr (0, say (s1 @ ''.'' @ s2 @ [LF]) w))))))"

text \<open>The commands of \<open>sub_wallet\<close>, and running one of them.\<close>

datatype wallet_command = W_nonce | W_gas_price | W_gas_limit | W_pk | W_pk2addr | W_transfer | W_sync | W_balance

fun wallet_run :: "('m, 'n) machine \<Rightarrow> stack \<Rightarrow> wallet_command \<Rightarrow> string list \<Rightarrow> ('m, 'n) shell \<Rightarrow> ('m, 'n) command_result" where
  "wallet_run ma st W_nonce = wallet_set_nonce ma"
| "wallet_run ma st W_gas_price = wallet_set_gas_price ma"
| "wallet_run ma st W_gas_limit = wallet_set_gas_limit ma"
| "wallet_run ma st W_pk = wallet_set_pk ma"
| "wallet_run ma st W_pk2addr = wallet_pk2addr ma"
| "wallet_run ma st W_transfer = wallet_transfer ma st"
| "wallet_run ma st W_sync = wallet_sync ma st"
| "wallet_run ma st W_balance = wallet_balance ma st"

section \<open>The console and the account\<close>

lemma say_simps [simp]:
  "sh_account (say s w) = sh_account w" "sh_rpc (say s w) = sh_rpc w" "sh_errno (say s w) = sh_errno w"
  "sh_out (say s w) = sh_out w @ s"
  "sh_account (say_line s w) = sh_account w" "sh_rpc (say_line s w) = sh_rpc w"
  "sh_errno (say_line s w) = sh_errno w" "sh_out (say_line s w) = sh_out w @ s @ [LF]"
  by (simp_all add: say_def say_line_def)

lemma on_rpc_keeps:
  "on_rpc st f w = Inr (ret, x, w') \<Longrightarrow> sh_account w' = sh_account w \<and> sh_out w' = sh_out w"
  by (auto simp: on_rpc_def bindE_eq_Inr)

lemma sign_and_send_keeps:
  "sign_and_send ma st tx w = Inr (ret, x, w') \<Longrightarrow> sh_account w' = sh_account w \<and> sh_out w' = sh_out w"
  by (auto simp: sign_and_send_def bindE_eq_Inr dest!: on_rpc_keeps)

lemma print_and_return_Inr:
  "print_and_return p w = Inr (ret, w') \<longleftrightarrow> (\<exists>s. p = Inr s \<and> ret = 0 \<and> w' = say s w)"
  by (auto simp: print_and_return_def bindE_eq_Inr)

lemma convert_ulong_keeps:
  "convert_ulong ma str name out w = Inr (ret, out', w') \<Longrightarrow> sh_account w' = sh_account w"
  by (auto simp: convert_ulong_def bindE_eq_Inr Let_def split: if_splits)

text \<open>A command that leaves the account as it is.\<close>

abbreviation keeps_account :: "('m, 'n) shell \<Rightarrow> ('m, 'n) command_result \<Rightarrow> bool" where
  "keeps_account w \<equiv> ensures (\<lambda>(ret, w'). sh_account w' = sh_account w)"

lemma keeps_transfer: "keeps_account w (wallet_transfer ma st argv w)"
  unfolding wallet_transfer_def print_and_return_def Let_def
  by (intro ensures_rules) (auto dest!: sign_and_send_keeps)

lemma keeps_pk2addr: "keeps_account w (wallet_pk2addr ma argv w)"
  unfolding wallet_pk2addr_def print_and_return_def by (intro ensures_rules) auto

lemma keeps_balance: "keeps_account w (wallet_balance ma st argv w)"
  unfolding wallet_balance_def Let_def by (intro ensures_rules) (auto dest!: on_rpc_keeps)

text \<open>The address is that of the private key.\<close>

definition address_ok :: "('m, 'n) machine \<Rightarrow> account_t \<Rightarrow> bool" where
  "address_ok ma a \<longleftrightarrow> length (acc_privkey a) = 32 \<and>
     privkey_to_ethereum_address (on_keccak ma) (on_pubkey ma) (acc_privkey a) = Inr (0, acc_address a)"

lemma privkey_address_0: "privkey_to_ethereum_address keccak pubkey pk = Inr (ret, a) \<Longrightarrow> ret = 0"
  by (auto simp: privkey_to_ethereum_address_def publickey_to_address_def bindE_eq_Inr)

lemma set_global_privkey_ok:
  "wallet_set_global_privkey ma pk w = Inr w' \<Longrightarrow> length pk = 32 \<Longrightarrow>
   address_ok ma (sh_account w') \<and> acc_privkey (sh_account w') = pk"
  by (auto simp: wallet_set_global_privkey_def bindE_eq_Inr address_ok_def dest: privkey_address_0)

lemma hextobin_key:
  assumes "length str = 64" "hextobin str (replicate 32 0) 32 = Inr (ret, pk)"
  shows "length pk = 32"
proof -
  have "length (skip_0x str) \<le> 64" "str \<noteq> []" "even (length str)" using assms(1) by (auto simp: skip_0x_def)
  with hextobin_correct [of str 32 "replicate 32 0"] assms show ?thesis
    by (auto simp: hex_bytes_length split: option.splits dest!: hex_bytes_length)
qed

lemma setting_address_ok:
  assumes "wallet_setting name get put ma argv w = Inr (ret, w')" "address_ok ma (sh_account w)"
    and "\<And>v. address_ok ma (put v (sh_account w))"
  shows "address_ok ma (sh_account w')"
  using assms by (auto simp: wallet_setting_def bindE_eq_Inr split: if_splits dest!: convert_ulong_keeps)

lemma wallet_run_address_ok:
  assumes "wallet_run ma st c argv w = Inr (ret, w')" "address_ok ma (sh_account w)"
  shows "address_ok ma (sh_account w')"
proof (cases c)
  case W_pk
  with assms show ?thesis
    by (auto simp: wallet_set_pk_def print_and_return_Inr bindE_eq_Inr split: if_splits
        dest!: hextobin_key dest: set_global_privkey_ok)
next
  case W_balance
  with assms show ?thesis
    using keeps_balance [of w ma st argv] by (simp add: ensures_def)
next
  case W_sync
  with assms show ?thesis
    by (auto simp: wallet_sync_def address_ok_def bindE_eq_Inr split: if_splits dest!: on_rpc_keeps)
next
  case W_transfer
  with assms show ?thesis
    using keeps_transfer [of w ma st argv] by (simp add: ensures_def)
next
  case W_pk2addr
  with assms keeps_pk2addr [of w ma argv] show ?thesis by (simp add: ensures_def)
next
  case W_nonce
  with assms show ?thesis
    by (simp add: wallet_set_nonce_def) (erule setting_address_ok, simp_all add: address_ok_def)
next
  case W_gas_price
  with assms show ?thesis
    by (simp add: wallet_set_gas_price_def) (erule setting_address_ok, simp_all add: address_ok_def)
next
  case W_gas_limit
  with assms show ?thesis
    by (simp add: wallet_set_gas_limit_def) (erule setting_address_ok, simp_all add: address_ok_def)
qed

text \<open>A session at the console: commands one after the other, each with its own stack.\<close>

fun wallet_session :: "('m, 'n) machine \<Rightarrow> (stack \<times> wallet_command \<times> string list) list \<Rightarrow> ('m, 'n) shell \<Rightarrow> ('m, 'n) shell outcome" where
  "wallet_session ma [] w = Inr w"
| "wallet_session ma ((st, c, argv) # cs) w = bindE (wallet_run ma st c argv w) (\<lambda>(ret, w). wallet_session ma cs w)"

lemma wallet_session_address_ok:
  "wallet_session ma cs w = Inr w' \<Longrightarrow> address_ok ma (sh_account w) \<Longrightarrow> address_ok ma (sh_account w')"
  by (induction ma cs w rule: wallet_session.induct) (simp, clarsimp simp: bindE_eq_Inr, metis wallet_run_address_ok)

section \<open>The error number\<close>

definition sets_number :: "wallet_command \<Rightarrow> bool" where
  "sets_number c \<longleftrightarrow> c \<in> {W_nonce, W_gas_price, W_gas_limit}"

lemma errno_refuses:
  assumes "sh_errno w" "1 < length argv" "sets_number c"
  shows "\<exists>w'. wallet_run ma st c argv w = Inr (-1, w') \<and> sh_account w' = sh_account w \<and> sh_errno w'"
proof -
  obtain val errno' at_end where s: "strtoul10 (on_lbits ma) True (argv ! 1) = Inr (val, errno', at_end)" "errno'"
    using strtoul10_total [of "on_lbits ma" True "argv ! 1"] by auto
  obtain c' where ch: "char_at (argv ! 1) 0 = Inr c'" by (cases "argv ! 1") (auto simp: char_at_def)
  have a: "arg argv 1 = Inr (argv ! 1)" using assms(2) by (simp add: arg_def)
  have step: "\<exists>w'. wallet_setting name get put ma argv w = Inr (-1, w') \<and> sh_account w' = put (get (sh_account w)) (sh_account w) \<and> sh_errno w'"
    for name get put
  proof -
    obtain w1 where "convert_ulong ma (argv ! 1) name (get (sh_account w)) w = Inr (-1, get (sh_account w), w1)"
        "sh_account w1 = sh_account w" "sh_errno w1"
      using s ch assms(1) that by (cases "c' = CHR ''-''") (simp_all add: convert_ulong_def Let_def eqTrueI [OF assms(1)])
    with a assms(2) show ?thesis by (simp add: wallet_setting_def)
  qed
  from assms(3) show ?thesis
    unfolding sets_number_def
    using step [of "''set_nonce''" acc_nonce "\<lambda>v a. a\<lparr>acc_nonce := v\<rparr>"]
      step [of "''gas_price''" acc_gas_price "\<lambda>v a. a\<lparr>acc_gas_price := v\<rparr>"]
      step [of "''gas_limit''" acc_gas_limit "\<lambda>v a. a\<lparr>acc_gas_limit := v\<rparr>"]
    by (auto simp: wallet_set_nonce_def wallet_set_gas_price_def wallet_set_gas_limit_def)
qed

lemma errno_session:
  assumes "sh_errno w" "\<forall>(st, c, argv) \<in> set cs. sets_number c \<and> 1 < length argv"
  shows "\<exists>w2. wallet_session ma cs w = Inr w2 \<and> sh_account w2 = sh_account w \<and> sh_errno w2"
  using assms
proof (induction cs arbitrary: w)
  case (Cons x cs)
  obtain st c argv where x: "x = (st, c, argv)" by (cases x)
  from Cons.prems x errno_refuses [of w argv c ma st] obtain w1 where
    "wallet_run ma st c argv w = Inr (-1, w1)" "sh_account w1 = sh_account w" "sh_errno w1" by auto
  moreover from Cons.IH [of w1] Cons.prems this obtain w2 where
    "wallet_session ma cs w1 = Inr w2" "sh_account w2 = sh_account w1" "sh_errno w2" by auto
  ultimately show ?case by (simp add: x)
qed simp

lemma overflow_sets_errno:
  assumes "decimal (argv ! 1)" "2 ^ on_lbits ma \<le> dec_val (argv ! 1)" "1 < length argv" "sets_number c"
  shows "\<exists>w1. wallet_run ma st c argv w = Inr (-1, w1) \<and> sh_account w1 = sh_account w \<and> sh_errno w1"
proof -
  obtain d ds where "argv ! 1 = d # ds" using assms(1) by (cases "argv ! 1") (auto simp: decimal_def)
  with assms(1) decimal_Cons(2) [of d ds] have ch: "char_at (argv ! 1) 0 = Inr d" "d \<noteq> CHR ''-''" by (auto simp: char_at_def)
  have s: "strtoul10 (on_lbits ma) errno (argv ! 1) = Inr (2 ^ on_lbits ma - 1, True, True)" for errno
    using strtoul10_decimal [OF assms(1)] assms(2) by simp
  have step: "\<exists>w1. wallet_setting name get put ma argv w = Inr (-1, w1) \<and>
      sh_account w1 = put (get (sh_account w)) (sh_account w) \<and> sh_errno w1" for name get put
    using ch s assms(3) by (simp add: wallet_setting_def arg_def convert_ulong_def Let_def)
  from assms(4) show ?thesis
    unfolding sets_number_def
    using step [of "''set_nonce''" acc_nonce "\<lambda>v a. a\<lparr>acc_nonce := v\<rparr>"]
      step [of "''gas_price''" acc_gas_price "\<lambda>v a. a\<lparr>acc_gas_price := v\<rparr>"]
      step [of "''gas_limit''" acc_gas_limit "\<lambda>v a. a\<lparr>acc_gas_limit := v\<rparr>"]
    by (auto simp: wallet_set_nonce_def wallet_set_gas_price_def wallet_set_gas_limit_def)
qed

section \<open>Sending a transaction\<close>

lemma length_show_int: "length (show_int (sint (i::u32))) \<le> 11"
proof -
  have "sint i < 2 ^ 31" "- (2 ^ 31) \<le> sint i"
    using sint_lt [of i] sint_ge [of i] by simp_all
  then have "nat (sint i) < 10 ^ 10" "nat (- sint i) < 10 ^ 10" by simp_all
  then have "length (digits 10 (nat (sint i))) \<le> 10" "length (digits 10 (nat (- sint i))) \<le> 10"
    by (simp_all only: length_digits_le)
  then show ?thesis by (simp add: show_int_def)
qed

lemma length_request: "length (json_text (request func i [hex_json bs])) \<le> 80 + length func + 2 * length bs"
  using length_show_int [of i] by (simp add: request_def hex_json_def quoted_def)

text \<open>The signature over the unsigned list: \<open>r\<close> and \<open>s\<close>, neither of them small, and the recovery bit.\<close>

definition signs :: "('m, 'n) machine \<Rightarrow> u8 list \<Rightarrow> transaction_t \<Rightarrow> u8 list \<Rightarrow> u8 \<Rightarrow> bool" where
  "signs ma privkey tx rs pby \<longleftrightarrow>
    on_sign ma privkey (on_keccak ma (rlp_list_header (length (tx_payload tx None)) @ tx_payload tx None)) = (rs, pby) \<and>
    length rs = 64 \<and> 2 ^ 128 \<le> val256 (uint256_of_bytes (take 32 rs)) \<and>
    2 ^ 128 \<le> val256 (uint256_of_bytes (drop 32 rs))"

definition raw_request :: "u32 \<Rightarrow> u8 list \<Rightarrow> string" where
  "raw_request i bytes = json_text (request ''eth_sendRawTransaction'' i [hex_json bytes])"

text \<open>The client is free, the buffers have their size, and \<open>res.error.code\<close> happens not to be negative.\<close>

definition shell_ready :: "('m, 'n) machine \<Rightarrow> stack \<Rightarrow> ('m, 'n) shell \<Rightarrow> bool" where
  "shell_ready ma st w \<longleftrightarrow> rpc_ready (on_platform ma) (on_asserts ma) (stk_thread st) (sh_rpc w) \<and>
     w_buf_size (rpc_web3 (sh_rpc w)) = WEB3_BUF_SIZE \<and> length (stk_toks st) = 64 \<and> length (stk_buf st) = 256 \<and>
     0 \<le> err_code (res_error (stk_res st)) \<and> 16 \<le> on_lbits ma \<and> on_lbits ma \<le> 64"

lemma sign_and_send_answered:
  assumes tx: "Transaction.tx_ok tx" "length (tx_payload tx None) \<noteq> 55" "length (tx_payload tx None) \<le> 110"
    and sign: "signs ma (acc_privkey (sh_account w)) tx rs pby" and ready: "shell_ready ma st w"
  shows "\<exists>bytes. rlp_decode_tx bytes = Some (tx_fields tx None @ [min_bytes (unat (pby + 27)), take 32 rs, drop 32 rs]) \<and>
    (\<forall>kvs ds hs. good_reply (on_lbits ma) kvs ds hs \<longrightarrow>
       answers (on_platform ma) (raw_request (w_req_id (rpc_web3 (sh_rpc w))) bytes) (document kvs) \<longrightarrow>
       (\<exists>x w'. sign_and_send ma st tx w = Inr (0, x, w') \<and> val256 x = hex_val hs \<and>
         sh_account w' = sh_account w \<and> sh_out w' = sh_out w))"
proof -
  let ?n = "length (tx_payload tx None)"
  have r: "length (stk_buf st) = 256" "length (stk_toks st) = 64" "0 \<le> err_code (res_error (stk_res st))"
      "16 \<le> on_lbits ma" "w_buf_size (rpc_web3 (sh_rpc w)) = 512"
      "rpc_ready (on_platform ma) (on_asserts ma) (stk_thread st) (sh_rpc w)"
    using ready by (simp_all add: shell_ready_def WEB3_BUF_SIZE_def)
  have "\<exists>ret mem. tx_encode_sign (on_keccak ma) (on_sign ma) (stk_sig st) tx (acc_privkey (sh_account w)) (stk_buf st) 256 =
        Inr (int ret, mem) \<and> length mem = length (stk_buf st) \<and> 0 < ret \<and> ret \<le> ?n + 71 \<and>
      rlp_decode_tx (take ret mem) =
        Some (tx_fields tx None @ [min_bytes (unat (pby + 27)), take 32 rs, drop 32 rs])"
    by (rule tx_encode_sign_result [where ecdsa_sign = "on_sign ma" and privkey = "acc_privkey (sh_account w)"
          and keccak = "on_keccak ma"])
      (use tx sign r(1) in \<open>simp_all add: signs_def\<close>)
  then obtain ret mem where e: "tx_encode_sign (on_keccak ma) (on_sign ma) (stk_sig st) tx
        (acc_privkey (sh_account w)) (stk_buf st) 256 = Inr (int ret, mem)"
      "length mem = 256" "0 < ret" "ret \<le> 181"
      "rlp_decode_tx (take ret mem) = Some (tx_fields tx None @ [min_bytes (unat (pby + 27)), take 32 rs, drop 32 rs])"
    using tx(3) r(1) by auto
  have "(2::nat) ^ 16 \<le> 2 ^ on_lbits ma" using r(4) by (intro power_increasing) simp_all
  then have n: "nat (int ret mod 2 ^ on_lbits ma) = ret" using e(4) by (simp add: nat_mod_as_int nat_less_iff)
  have w: "writes_request (eth_sendRawTransaction (Some mem) ret) ''eth_sendRawTransaction'' [hex_json (take ret mem)]"
    using writes_requestI [OF printed_data [of ret mem]] e(2-4) by (simp add: eth_sendRawTransaction_def)
  have room: "length (json_text (request ''eth_sendRawTransaction'' (w_req_id (rpc_web3 (sh_rpc w))) [hex_json (take ret mem)]))
      < w_buf_size (rpc_web3 (sh_rpc w))"
    using length_request [of "''eth_sendRawTransaction''" "w_req_id (rpc_web3 (sh_rpc w))" "take ret mem"] e(2,4) r(5)
    by (simp del: json_text.simps)
  show ?thesis
  proof (intro exI [of _ "take ret mem"] conjI allI impI)
    fix kvs ds hs
    assume good: "good_reply (on_lbits ma) kvs ds hs"
      and ans: "answers (on_platform ma) (raw_request (w_req_id (rpc_web3 (sh_rpc w))) (take ret mem)) (document kvs)"
    from send_raw_replied [OF w r(6) good r(2) room ans [unfolded raw_request_def], of "stk_res st" "stk_u256 st"] r(3)
    show "\<exists>x w'. sign_and_send ma st tx w = Inr (0, x, w') \<and> val256 x = hex_val hs \<and>
         sh_account w' = sh_account w \<and> sh_out w' = sh_out w"
      by (auto simp: sign_and_send_def e(1) n on_rpc_def simp del: json_text.simps)
  qed (rule e(5))
qed

text \<open>A recipient on the command line.\<close>

lemma recipient_parsed:
  assumes "hex_bytes (skip_0x str) = Some bs" "length bs = 20" "20 \<le> length mem"
  shows "hextobin str mem 20 = Inr (20, bs @ drop 20 mem)"
proof -
  have "length (skip_0x str) = 40" using hex_bytes_length [OF assms(1)] assms(2) by simp
  moreover from this have "length str = 40 \<or> length str = 42" by (auto simp: skip_0x_def has_0x_def split: if_splits)
  ultimately have "str \<noteq> []" "even (length str)" "length (skip_0x str) \<le> 254" "length (skip_0x str) \<le> 2 * 20"
    by auto
  from hextobin_correct [OF this assms(3)] assms(1,2) show ?thesis by simp
qed

text \<open>The transaction of a transfer, and the length of its payload.\<close>

definition transfer_tx :: "stack \<Rightarrow> account_t \<Rightarrow> u8 list \<Rightarrow> nat \<Rightarrow> transaction_t" where
  "transfer_tx st a to_bytes val = (stk_tx st)\<lparr>tx_nonce := acc_nonce a, tx_gas_price := 1000000000,
     tx_gas_limit := 21000, tx_to := \<lparr>addr_a = to_bytes\<rparr>, tx_value := set256_uint64 (of_nat val),
     tx_data := None, tx_data_len := 0\<rparr>"

lemma set64_content: "v < 2 ^ 64 \<Longrightarrow> uint256_content (set256_uint64 (of_nat v)) = min_bytes v"
  using u64_bound [of "of_nat v"] by (simp add: uint256_content_def unat_of_nat)

lemma transfer_fields:
  assumes "val < 2 ^ 64"
  shows "tx_fields (transfer_tx st a to_bytes val) None =
    [min_bytes (unat (acc_nonce a)), min_bytes 1000000000, min_bytes 21000, to_bytes, min_bytes val, []]"
  using set64_content [OF assms] by (simp add: tx_fields_def transfer_tx_def data_content_def strip_zero_def)

lemma length_rlp_short: "length bs \<le> 55 \<Longrightarrow> length (rlp_string bs) \<le> length bs + 1"
  by (simp add: rlp_string_def)

lemma transfer_payload:
  assumes "length to_bytes = 20" "val < 2 ^ 64"
  shows "Transaction.tx_ok (transfer_tx st a to_bytes val)" "length (tx_payload (transfer_tx st a to_bytes val) None) \<le> 50"
proof -
  have m: "length (min_bytes (unat (acc_nonce a))) \<le> 4" "length (min_bytes 1000000000) \<le> 4"
      "length (min_bytes 21000) \<le> 2" "length (min_bytes val) \<le> 8"
    using assms(2) u32_bound [of "acc_nonce a"] by (simp_all add: length_min_bytes_le)
  then have "length (rlp_string (min_bytes (unat (acc_nonce a)))) \<le> 5" "length (rlp_string (min_bytes 1000000000)) \<le> 5"
      "length (rlp_string (min_bytes 21000)) \<le> 3" "length (rlp_string (min_bytes val)) \<le> 9"
      "length (rlp_string to_bytes) \<le> 21" "length (rlp_string []) \<le> 1"
    using assms(1) by (auto intro!: order_trans [OF length_rlp_short])
  then show "length (tx_payload (transfer_tx st a to_bytes val) None) \<le> 50"
    by (simp add: tx_payload_def transfer_fields [OF assms(2)])
  show "Transaction.tx_ok (transfer_tx st a to_bytes val)"
    using assms u64_bound [of "of_nat val"] by (simp add: Transaction.tx_ok_def transfer_tx_def uint256_ok_def)
qed

lemma transfer_command:
  assumes "hextobin to_text (addr_a (tx_to (stk_tx st))) 20 = Inr (20, to_bytes)"
    and "decimal ds" "dec_val ds < 2 ^ on_lbits ma" "\<not> sh_errno w"
    and "sign_and_send ma st (transfer_tx st (sh_account w) to_bytes (dec_val ds)) w = Inr (0, x, w')"
  shows "wallet_transfer ma st [cmd, to_text, ds] w = Inr (0, say (''0x'' @ digits 16 (val256 x) @ [LF]) w')"
proof -
  have w: "w\<lparr>sh_errno := False\<rparr> = w" using assms(4) by (cases w) simp
  have "(tx_set_value_u64 ((stk_tx st)\<lparr>tx_to := \<lparr>addr_a = to_bytes\<rparr>, tx_nonce := acc_nonce (sh_account w),
        tx_gas_price := 1000000000, tx_gas_limit := 21000\<rparr>) (of_nat (dec_val ds)))\<lparr>tx_data := None, tx_data_len := 0\<rparr> =
      transfer_tx st (sh_account w) to_bytes (dec_val ds)"
    by (cases "stk_tx st") (simp add: transfer_tx_def tx_set_value_u64_def)
  then show ?thesis
    using assms by (simp add: w wallet_transfer_def arg_def strtoul10_decimal print_and_return_def printk_uint256_text)
qed

lemma ipow_10_18: "ipow 10 18 = 1000000000000000000"
proof -
  have "unat (18::u8) = 18" by simp
  then show ?thesis by (simp add: ipow_def ipow_loop_power)
qed

lemma balance_command:
  assumes "web3_eth_getBalance (on_platform ma) (on_asserts ma) (on_lbits ma) (stk_thread st) (stk_toks st) (stk_res st)
      (acc_address (sh_account w)) clear256 (sh_rpc w) = Inr (0, x, rpc)"
    and "shell_print_decimal_u256 x 18 = Inr s"
  shows "wallet_balance ma st argv w = Inr (0, say s (w\<lparr>sh_rpc := rpc, sh_errno := stk_errno st\<rparr>))"
proof -
  from assms(2) obtain q m s1 s2 where "divmod256 x (U256 clear128 (U128 0 1000000000000000000)) = Some (q, m)"
      "printk_uint256_int q 0 FMT_EMPTY = Inr s1"
      "printk_uint256_int m 18 (FMT_FIXED OR FMT_NO_TRAIL_ZERO) = Inr s2" "s = s1 @ ''.'' @ s2 @ [LF]"
    by (auto simp: shell_print_decimal_u256_def ipow_10_18 bindE_eq_Inr returns_def Let_def split: option.splits)
  with assms(1) show ?thesis by (simp add: wallet_balance_def on_rpc_def Let_def)
qed

text \<open>A machine, a stack and a shell for the witnesses.\<close>

definition demo_machine :: "(thread \<times> nat, unit) machine" where
  "demo_machine = \<lparr>on_platform = demo_platform (document demo_reply), on_asserts = True, on_lbits = 32,
     on_keccak = (\<lambda>d. replicate 32 0), on_sign = (\<lambda>k d. (replicate 64 1, 0)), on_pubkey = (\<lambda>k. replicate 65 4)\<rparr>"

definition demo_stack :: stack where
  "demo_stack = \<lparr>stk_thread = 5, stk_toks = replicate 64 (tok JSMN_UNDEFINED 0 0 0),
     stk_res = \<lparr>res_id = 0, res_error = \<lparr>err_code = 0, err_message = None\<rparr>\<rparr>, stk_tx = demo_tx,
     stk_sig = \<lparr>sig_r = clear256, sig_s = clear256, sig_v = 0\<rparr>, stk_buf = replicate 256 0, stk_u256 = clear256, stk_errno = False\<rparr>"

definition demo_shell :: "(thread \<times> nat, unit) shell" where
  "demo_shell = \<lparr>sh_account = account_init, sh_rpc = rpc_init ''10.0.0.1'' demo_world, sh_errno = False, sh_out = []\<rparr>"

lemma demo_shell_ready: "shell_ready demo_machine demo_stack demo_shell"
  using demo_ready by (simp add: shell_ready_def demo_machine_def demo_stack_def demo_shell_def rpc_init_def)

lemma demo_signs: "signs demo_machine pk tx (replicate 64 1) 0"
  using ones_large by (simp add: signs_def demo_machine_def)

section \<open>Properties\<close>

text \<open>
  C1: a transfer, end to end. For a recipient of 40 hexadecimal digits (with or without \<open>0x\<close>) and a
  decimal amount below \<open>2 ^ lbits\<close>, the bytes sent to the server decode to the list of the account's
  nonce, the fixed gas price and limit, the recipient, the amount, no data, and the signature of
  that list by the account's key; and when the server answers that request with a well-formed
  response, the command succeeds, prints the hash of the response and leaves the account, its nonce
  included, as it was.
\<close>

theorem wallet_transfer_sends:
  assumes to: "hex_bytes (skip_0x to_text) = Some to_bytes" "length to_bytes = 20" "length (addr_a (tx_to (stk_tx st))) = 20"
    and amount: "decimal ds" "dec_val ds < 2 ^ on_lbits ma" and ready: "shell_ready ma st w" "\<not> sh_errno w"
    and sign: "signs ma (acc_privkey (sh_account w)) (transfer_tx st (sh_account w) to_bytes (dec_val ds)) rs pby"
  shows "\<exists>bytes. rlp_decode_tx bytes = Some [min_bytes (unat (acc_nonce (sh_account w))), min_bytes 1000000000,
      min_bytes 21000, to_bytes, min_bytes (dec_val ds), [], min_bytes (unat (pby + 27)), take 32 rs, drop 32 rs] \<and>
    (\<forall>kvs i hs. good_reply (on_lbits ma) kvs i hs \<longrightarrow>
       answers (on_platform ma) (raw_request (w_req_id (rpc_web3 (sh_rpc w))) bytes) (document kvs) \<longrightarrow>
       (\<exists>w'. wallet_transfer ma st [cmd, to_text, ds] w = Inr (0, w') \<and> sh_account w' = sh_account w \<and>
         sh_out w' = sh_out w @ ''0x'' @ digits 16 (hex_val hs) @ [LF]))"
proof -
  let ?tx = "transfer_tx st (sh_account w) to_bytes (dec_val ds)"
  have "(2::nat) ^ on_lbits ma \<le> 2 ^ 64" using ready(1) by (intro power_increasing) (simp_all add: shell_ready_def)
  with amount(2) have v: "dec_val ds < 2 ^ 64" by linarith
  note p = transfer_payload [OF to(2) v, of st "sh_account w"]
  have "length (tx_payload ?tx None) \<noteq> 55" "length (tx_payload ?tx None) \<le> 110" using p(2) by simp_all
  from sign_and_send_answered [OF p(1) this sign ready(1)] obtain bytes where
    b: "rlp_decode_tx bytes = Some (tx_fields ?tx None @ [min_bytes (unat (pby + 27)), take 32 rs, drop 32 rs])"
      "\<forall>kvs i hs. good_reply (on_lbits ma) kvs i hs \<longrightarrow>
         answers (on_platform ma) (raw_request (w_req_id (rpc_web3 (sh_rpc w))) bytes) (document kvs) \<longrightarrow>
         (\<exists>x w'. sign_and_send ma st ?tx w = Inr (0, x, w') \<and> val256 x = hex_val hs \<and>
           sh_account w' = sh_account w \<and> sh_out w' = sh_out w)"
    by blast
  have h: "hextobin to_text (addr_a (tx_to (stk_tx st))) 20 = Inr (20, to_bytes)"
    using recipient_parsed [OF to(1,2)] to(3) by simp
  show ?thesis
  proof (intro exI [of _ bytes] conjI allI impI)
    show "rlp_decode_tx bytes = Some [min_bytes (unat (acc_nonce (sh_account w))), min_bytes 1000000000,
      min_bytes 21000, to_bytes, min_bytes (dec_val ds), [], min_bytes (unat (pby + 27)), take 32 rs, drop 32 rs]"
      using b(1) by (simp add: transfer_fields [OF v])
  next
    fix kvs i hs
    assume "good_reply (on_lbits ma) kvs i hs"
      "answers (on_platform ma) (raw_request (w_req_id (rpc_web3 (sh_rpc w))) bytes) (document kvs)"
    with b(2) obtain x w' where s: "sign_and_send ma st ?tx w = Inr (0, x, w')" "val256 x = hex_val hs"
        "sh_account w' = sh_account w" "sh_out w' = sh_out w"
      by blast
    from transfer_command [OF h amount ready(2) s(1)] s(2-4)
    show "\<exists>w'. wallet_transfer ma st [cmd, to_text, ds] w = Inr (0, w') \<and> sh_account w' = sh_account w \<and>
         sh_out w' = sh_out w @ ''0x'' @ digits 16 (hex_val hs) @ [LF]"
      by simp
  qed
qed

theorem wallet_transfer_sends_witness:
  "\<exists>w'. wallet_transfer demo_machine demo_stack [''transfer'', ''0x'' @ replicate 40 CHR ''1'', ''1500''] demo_shell = Inr (0, w') \<and>
    sh_out w' = ''0x2a'' @ [LF]"
proof -
  let ?to = "''0x'' @ replicate 40 CHR ''1''"
  have "skip_0x ?to = replicate 40 CHR ''1''" by (simp add: skip_0x_def has_0x_def)
  moreover have "hex_bytes (replicate 40 CHR ''1'') = Some (replicate 20 0x11)" by (simp add: numeral_eq_Suc map_hex_def)
  ultimately have to_ok: "hex_bytes (skip_0x ?to) = Some (replicate 20 0x11)" by simp
  have ds: "decimal ''1500''" "dec_val ''1500'' = 1500" by (simp_all add: decimal_def dec_val_def map_hex_def)
  have d: "length (addr_a (tx_to (stk_tx demo_stack))) = 20" "dec_val ''1500'' < 2 ^ on_lbits demo_machine" "\<not> sh_errno demo_shell"
      "sh_out demo_shell = []" "good_reply (on_lbits demo_machine) demo_reply ''0'' ''2a''"
    using ds(2) demo_good(1) by (simp_all add: demo_stack_def demo_tx_def demo_machine_def demo_shell_def)
  have ans: "answers (on_platform demo_machine) msg (document demo_reply)" for msg
    using demo_answers [OF demo_good(2)] by (simp add: demo_machine_def)
  have "digits 16 42 = ''2a''" by (simp add: digits_ge digits_less HEXDIGITS_def)
  with wallet_transfer_sends [OF to_ok _ d(1) ds(1) d(2) demo_shell_ready d(3) demo_signs, of "''transfer''"] ans d(4,5) demo_good(3)
  show ?thesis by fastforce
qed

text \<open>
  C35: a balance, end to end. When the server answers the request for the account's balance with a
  well-formed response, the command prints the number of the response divided by \<open>10 ^ 18\<close>, exactly:
  the whole part, a point and the fraction without trailing zeros.
\<close>

theorem wallet_balance_prints:
  assumes ready: "shell_ready ma st w" and addr: "length (addr_a (acc_address (sh_account w))) = 20"
    and reply: "good_reply (on_lbits ma) kvs i hs"
    and "length (json_text (request ''eth_getBalance'' (w_req_id (rpc_web3 (sh_rpc w)))
        [hex_json (addr_a (acc_address (sh_account w))), JStr ''latest''])) < w_buf_size (rpc_web3 (sh_rpc w))"
    and "answers (on_platform ma) (json_text (request ''eth_getBalance'' (w_req_id (rpc_web3 (sh_rpc w)))
        [hex_json (addr_a (acc_address (sh_account w))), JStr ''latest''])) (document kvs)"
  shows "\<exists>w' frac. wallet_balance ma st argv w = Inr (0, w') \<and> sh_account w' = sh_account w \<and>
    sh_out w' = sh_out w @ digits 10 (hex_val hs div 10 ^ 18) @ ''.'' @ frac @ [LF] \<and> frac \<noteq> [] \<and>
    dec_val frac * 10 ^ 18 = (hex_val hs mod 10 ^ 18) * 10 ^ length frac \<and>
    (length frac = 1 \<or> last frac \<noteq> CHR ''0'')"
proof -
  have call: "find_call (on_asserts ma) call_map ''eth_getBalance'' = Inr eth_getBalance" by (simp add: call_map_def)
  have b: "writes_request (eth_getBalance (acc_address (sh_account w))) ''eth_getBalance''
      [hex_json (addr_a (acc_address (sh_account w))), JStr ''latest'']"
    unfolding eth_getBalance_def by (rule writes_address [OF addr])
  have r: "rpc_ready (on_platform ma) (on_asserts ma) (stk_thread st) (sh_rpc w)" "length (stk_toks st) = 64"
    using ready by (simp_all add: shell_ready_def)
  obtain x rpc where x: "web3_eth_getBalance (on_platform ma) (on_asserts ma) (on_lbits ma) (stk_thread st) (stk_toks st)
      (stk_res st) (acc_address (sh_account w)) clear256 (sh_rpc w) = Inr (0, x, rpc)" "val256 x = hex_val hs"
    using address_call [OF call b r(1) reply r(2) assms(4,5), of "stk_res st" clear256]
    unfolding web3_eth_getBalance_def by blast
  have d: "unat (18::u8) = 18" by simp
  have "val256 x div 10 ^ 18 < 10 ^ 64" using val256_less [of x] by simp
  then obtain frac where f: "shell_print_decimal_u256 x 18 = Inr (digits 10 (val256 x div 10 ^ 18) @ ''.'' @ frac @ [LF])"
      "frac \<noteq> []" "dec_val frac * 10 ^ 18 = (val256 x mod 10 ^ 18) * 10 ^ length frac"
      "length frac = 1 \<or> last frac \<noteq> CHR ''0''"
    using print_decimal [of 18 x] unfolding d by auto
  from balance_command [OF x(1) f(1)] f(2-4) x(2) show ?thesis by auto
qed

theorem wallet_balance_prints_witness:
  "\<exists>w' frac. wallet_balance demo_machine demo_stack [''balance''] demo_shell = Inr (0, w') \<and>
    sh_out w' = ''0.'' @ frac @ [LF] \<and> dec_val frac * 10 ^ 18 = 42 * 10 ^ length frac"
proof -
  let ?a = "addr_a (acc_address (sh_account demo_shell))"
  have a: "?a = replicate 20 0" "length ?a = 20" by (simp_all add: demo_shell_def account_init_def)
  have g: "good_reply (on_lbits demo_machine) demo_reply ''0'' ''2a''" using demo_good(1) by (simp add: demo_machine_def)
  have "length (json_text (request ''eth_getBalance'' (w_req_id (rpc_web3 (sh_rpc demo_shell))) [hex_json ?a, JStr ''latest'']))
      < w_buf_size (rpc_web3 (sh_rpc demo_shell))"
    unfolding a(1) by (simp add: demo_shell_def rpc_init_def WEB3_BUF_SIZE_def request_def hex_json_def quoted_def
        show_int_def digits_less HEXDIGITS_def)
  from wallet_balance_prints [OF demo_shell_ready a(2) g this, of "[''balance'']"] demo_answers [OF demo_good(2)] demo_good(3)
  show ?thesis by (auto simp: demo_machine_def demo_shell_def digits_less HEXDIGITS_def)
qed

text \<open>
  C36: the address is the key's. Once \<open>wallet_set_global_privkey\<close> has set a key, every session of wallet
  commands, keys entered later and failing commands included, ends with the address that belongs to
  the private key.
\<close>

theorem wallet_address_of_key:
  assumes "length pk = 32" "wallet_set_global_privkey ma pk w = Inr w1" "wallet_session ma cs w1 = Inr w2"
  shows "privkey_to_ethereum_address (on_keccak ma) (on_pubkey ma) (acc_privkey (sh_account w2)) =
      Inr (0, acc_address (sh_account w2)) \<and> length (acc_privkey (sh_account w2)) = 32"
proof -
  have "address_ok ma (sh_account w1)" using set_global_privkey_ok [OF assms(2,1)] by blast
  from wallet_session_address_ok [OF assms(3) this] show ?thesis by (simp add: address_ok_def)
qed

theorem wallet_address_of_key_witness:
  "\<exists>w1 w2. wallet_set_global_privkey demo_machine (replicate 32 7) demo_shell = Inr w1 \<and>
    wallet_session demo_machine [(demo_stack, W_nonce, [''nonce'', ''9''])] w1 = Inr w2 \<and>
    acc_nonce (sh_account w2) = 9 \<and>
    privkey_to_ethereum_address (on_keccak demo_machine) (on_pubkey demo_machine) (acc_privkey (sh_account w2)) =
      Inr (0, acc_address (sh_account w2))"
proof -
  obtain w1 where w1: "wallet_set_global_privkey demo_machine (replicate 32 7) demo_shell = Inr w1" "\<not> sh_errno w1"
    by (simp add: wallet_set_global_privkey_def demo_machine_def privkey_to_ethereum_address_def
        publickey_to_address_def read_at_def demo_shell_def)
  have "decimal ''9''" "dec_val ''9'' = 9" by (simp_all add: decimal_def dec_val_def map_hex_def)
  then obtain w2 where w2: "wallet_session demo_machine [(demo_stack, W_nonce, [''nonce'', ''9''])] w1 = Inr w2"
      "acc_nonce (sh_account w2) = 9"
    using w1(2) by (simp add: wallet_set_nonce_def wallet_setting_def arg_def convert_ulong_def char_at_def
        strtoul10_decimal demo_machine_def Let_def)
  from wallet_address_of_key [OF _ w1(1) w2(1)] w1(1) w2 show ?thesis by auto
qed

text \<open>
  One bad number disables the settings. They do not clear \<open>errno\<close>: after a number that does not fit
  \<open>unsigned long\<close>, every \<open>nonce\<close>, \<open>gas_price\<close> or \<open>gas_limit\<close> command that follows directly fails, whatever its argument, and
  the account stays as it is.
\<close>

lemma wallet_errno_sticks:
  assumes "decimal (argv ! 1)" "2 ^ on_lbits ma \<le> dec_val (argv ! 1)" "1 < length argv" "sets_number c"
  shows "\<exists>w1. wallet_run ma st c argv w = Inr (-1, w1) \<and> sh_account w1 = sh_account w \<and>
    (\<forall>cs. (\<forall>(st, c, argv) \<in> set cs. sets_number c \<and> 1 < length argv) \<longrightarrow>
      (\<exists>w2. wallet_session ma cs w1 = Inr w2 \<and> sh_account w2 = sh_account w) \<and>
      (\<forall>st c argv w2. wallet_session ma cs w1 = Inr w2 \<longrightarrow> sets_number c \<longrightarrow> 1 < length argv \<longrightarrow>
        (\<exists>w3. wallet_run ma st c argv w2 = Inr (-1, w3) \<and> sh_account w3 = sh_account w)))"
proof -
  obtain w1 where w1: "wallet_run ma st c argv w = Inr (-1, w1)" "sh_account w1 = sh_account w" "sh_errno w1"
    using overflow_sets_errno [OF assms] by blast
  have "\<exists>w2. wallet_session ma cs w1 = Inr w2 \<and> sh_account w2 = sh_account w \<and> sh_errno w2"
    if "\<forall>(st, c, argv) \<in> set cs. sets_number c \<and> 1 < length argv" for cs
    using errno_session [OF w1(3) that] w1(2) by simp
  with w1(1,2) show ?thesis using errno_refuses by (intro exI [of _ w1]) fastforce
qed

lemma wallet_errno_sticks_witness:
  "\<exists>w1. wallet_run demo_machine demo_stack W_gas_price [''gas_price'', ''9999999999''] demo_shell = Inr (-1, w1) \<and>
    (\<exists>w3. wallet_run demo_machine demo_stack W_nonce [''nonce'', ''1''] w1 = Inr (-1, w3) \<and>
      sh_account w3 = sh_account demo_shell)"
proof -
  have "decimal ([''gas_price'', ''9999999999''] ! 1)" "2 ^ on_lbits demo_machine \<le> dec_val ([''gas_price'', ''9999999999''] ! 1)"
    by (simp_all add: decimal_def dec_val_def map_hex_def demo_machine_def)
  from wallet_errno_sticks [OF this, of W_gas_price demo_stack demo_shell] obtain w1 where
    w1: "wallet_run demo_machine demo_stack W_gas_price [''gas_price'', ''9999999999''] demo_shell = Inr (-1, w1)"
      "\<forall>cs. (\<forall>(st, c, argv) \<in> set cs. sets_number c \<and> 1 < length argv) \<longrightarrow>
        (\<forall>st c argv w2. wallet_session demo_machine cs w1 = Inr w2 \<longrightarrow> sets_number c \<longrightarrow> 1 < length argv \<longrightarrow>
          (\<exists>w3. wallet_run demo_machine st c argv w2 = Inr (-1, w3) \<and> sh_account w3 = sh_account demo_shell))"
    by (auto simp: sets_number_def)
  from w1(2) [rule_format, of "[]" w1 W_nonce "[''nonce'', ''1'']" demo_stack] w1(1) show ?thesis
    by (auto simp: sets_number_def)
qed

end
