(* ===== verification/Erc20.thy ===== *)
theory Erc20
  imports Wallet AbiData
begin

text \<open>
  \<open>zephyr-wallet/erc20_shell.c\<close>: the table of tokens and the commands on them. The encoders of the
  contract's methods (\<open>erc20_abi.h\<close>) are generated when the program is built; they are the argument
  \<open>token_abi\<close>.
\<close>

section \<open>Definitions\<close>

definition TOKEN_SYMBOL_MAX :: nat where "TOKEN_SYMBOL_MAX = 3"
definition TOKENS_MAX :: nat where "TOKENS_MAX = 5"

text \<open>\<open>symbol\<close> is the array of \<open>TOKEN_SYMBOL_MAX + 1\<close> characters.\<close>

record token_nfo_t =
  tkn_address :: address_t
  tkn_decimals :: u8
  tkn_symbol :: string
  tkn_used :: u8

text \<open>The static table starts out all zero.\<close>

definition tokens_init :: "token_nfo_t list" where
  "tokens_init = replicate TOKENS_MAX
     \<lparr>tkn_address = \<lparr>addr_a = replicate 20 0\<rparr>, tkn_decimals = 0, tkn_symbol = replicate 4 NUL, tkn_used = 0\<rparr>"

record token_abi =
  Token_balanceOf :: "address_t \<Rightarrow> data_block_t \<Rightarrow> (int \<times> data_block_t) outcome"
  Token_transfer :: "address_t \<Rightarrow> uint256_t \<Rightarrow> data_block_t \<Rightarrow> (int \<times> data_block_t) outcome"
  Token_decimals :: "data_block_t \<Rightarrow> (int \<times> data_block_t) outcome"
  Token_totalSupply :: "data_block_t \<Rightarrow> (int \<times> data_block_t) outcome"

text \<open>\<open>strncpy\<close> of at most \<open>n\<close> characters, padded with NULs.\<close>

definition strncpy :: "string \<Rightarrow> nat \<Rightarrow> string" where
  "strncpy src n = take n src @ replicate (n - length src) NUL"

fun token_add :: "address_t \<Rightarrow> u8 \<Rightarrow> string \<Rightarrow> token_nfo_t list \<Rightarrow> int \<times> token_nfo_t list" where
  "token_add addr decimals symbol [] = (-1, [])"
| "token_add addr decimals symbol (t # ts) =
    (if tkn_used t = 1 then let (ret, ts) = token_add addr decimals symbol ts in (ret, t # ts)
     else (0, \<lparr>tkn_address = addr, tkn_decimals = decimals,
        tkn_symbol = strncpy symbol TOKEN_SYMBOL_MAX @ [NUL], tkn_used = 1\<rparr> # ts))"

text \<open>The shell with the table; the commands below it are those of the wallet's shell.\<close>

record ('m, 'n) erc20 =
  e_shell :: "('m, 'n) shell"
  e_tokens :: "token_nfo_t list"

definition tell :: "string \<Rightarrow> ('m, 'n) erc20 \<Rightarrow> ('m, 'n) erc20" where
  "tell s w = w\<lparr>e_shell := say s (e_shell w)\<rparr>"

definition tell_line :: "string \<Rightarrow> ('m, 'n) erc20 \<Rightarrow> ('m, 'n) erc20" where
  "tell_line s w = tell (s @ [LF]) w"

text \<open>
  The index is cut to 8 bits before it is compared with \<open>TOKENS_MAX\<close>; the result is a position in the
  table.
\<close>

definition get_token_by_index ::
    "('m, 'n) machine \<Rightarrow> string \<Rightarrow> ('m, 'n) erc20 \<Rightarrow> (int \<times> nat \<times> ('m, 'n) erc20) outcome" where
  "get_token_by_index ma str w =
    bindE (strtoul10 (on_lbits ma) False str) (\<lambda>(val, errno, at_end).
    let w = w\<lparr>e_shell := e_shell w\<lparr>sh_errno := errno\<rparr>\<rparr>; token_idx = unat (of_nat val :: u8) in
    if errno \<or> \<not> at_end \<or> token_idx \<ge> TOKENS_MAX then Inr (-1, 0, tell_line ''invalid token index'' w)
    else if token_idx \<ge> length (e_tokens w) then Inl Out_of_bounds
    else if tkn_used (e_tokens w ! token_idx) = 0 then Inr (-1, token_idx, tell_line ''invalid token index'' w)
    else Inr (0, token_idx, w))"

text \<open>
  A block of 260 uninitialised bytes for the call data, at the address \<open>ptr\<close>; \<open>stk_u256\<close> is the result.
\<close>

record erc20_stack =
  es_stack :: stack
  es_datablk :: "u8 list"
  es_ptr :: u64

definition data_block :: "erc20_stack \<Rightarrow> data_block_t" where
  "data_block st = \<lparr>blk_len = 260, blk_data = Some (es_datablk st)\<rparr>"

text \<open>\<open>memset(&tx, 0, sizeof(tx))\<close>.\<close>

definition tx_zero :: transaction_t where
  "tx_zero = \<lparr>tx_nonce = 0, tx_gas_price = 0, tx_gas_limit = 0, tx_to = \<lparr>addr_a = replicate 20 0\<rparr>,
     tx_value = clear256, tx_data = None, tx_data_len = 0\<rparr>"

definition on_shell ::
    "(('m, 'n) shell \<Rightarrow> (int \<times> 'a \<times> ('m, 'n) shell) outcome) \<Rightarrow> ('m, 'n) erc20 \<Rightarrow> (int \<times> 'a \<times> ('m, 'n) erc20) outcome" where
  "on_shell f w = bindE (f (e_shell w)) (\<lambda>(ret, x, sh). Inr (ret, x, w\<lparr>e_shell := sh\<rparr>))"

text \<open>A method of the contract at \<open>address\<close> that is only called: the encoded data, the call, the number it returns.\<close>

definition call_method ::
    "('m, 'n) machine \<Rightarrow> erc20_stack \<Rightarrow> (data_block_t \<Rightarrow> (int \<times> data_block_t) outcome) \<Rightarrow>
     (('m, 'n) erc20 \<Rightarrow> ('m, 'n) erc20) \<Rightarrow> address_t \<Rightarrow> ('m, 'n) erc20 \<Rightarrow> (int \<times> uint256_t \<times> ('m, 'n) erc20) outcome" where
  "call_method ma st encode complain address w =
    bindE (encode (data_block st)) (\<lambda>(encoded_data_len, tx_data).
    if encoded_data_len < 0 then Inr (-1, stk_u256 (es_stack st), complain w)
    else
      let tx = tx_zero\<lparr>tx_data := Some (es_ptr st, blk_mem tx_data), tx_data_len := nat encoded_data_len,
            tx_to := address\<rparr> in
      on_shell (on_rpc (es_stack st) (web3_eth_call (on_platform ma) (on_asserts ma) (on_lbits ma) (stk_thread (es_stack st))
        (stk_toks (es_stack st)) (stk_res (es_stack st)) (acc_address (sh_account (e_shell w))) tx
        (stk_u256 (es_stack st)) (TX_NO_FROM OR TX_NO_GAS OR TX_NO_GASPRICE OR TX_NO_VALUE))) w)"

definition erc20_balance ::
    "('m, 'n) machine \<Rightarrow> token_abi \<Rightarrow> erc20_stack \<Rightarrow> string list \<Rightarrow> ('m, 'n) erc20 \<Rightarrow> (int \<times> ('m, 'n) erc20) outcome" where
  "erc20_balance ma abi st argv w =
    (if length argv \<noteq> 2 then Inr (-1, tell_line ''use: erc20 balance <token_idx>'' w)
     else bindE (arg argv 1) (\<lambda>str.
       bindE (get_token_by_index ma str w) (\<lambda>(ret, i, w).
       if ret \<noteq> 0 then Inr (-1, w)
       else
         let tkn = e_tokens w ! i; acc = sh_account (e_shell w) in
         bindE (call_method ma st (Token_balanceOf abi (acc_address acc))
           (tell_line (''Can'' @ [CHR 0x27] @ ''t encode Token::balanceOf()'')) (tkn_address tkn) w) (\<lambda>(ret, out, w).
         if ret < 0 then Inr (-1, w)
         else bindE (shell_print_decimal_u256 out (tkn_decimals tkn)) (\<lambda>s. Inr (0, tell s w))))))"

definition erc20_totalSupply ::
    "('m, 'n) machine \<Rightarrow> token_abi \<Rightarrow> erc20_stack \<Rightarrow> string list \<Rightarrow> ('m, 'n) erc20 \<Rightarrow> (int \<times> ('m, 'n) erc20) outcome" where
  "erc20_totalSupply ma abi st argv w =
    (if length argv \<noteq> 2 then Inr (-1, tell_line ''missing argument: token index'' w)
     else bindE (arg argv 1) (\<lambda>str.
       bindE (get_token_by_index ma str w) (\<lambda>(ret, i, w).
       if ret \<noteq> 0 then Inr (-1, w)
       else
         let tkn = e_tokens w ! i in
         bindE (call_method ma st (Token_totalSupply abi)
           (tell_line (''Can'' @ [CHR 0x27] @ ''t encode Token::totalSupply()'')) (tkn_address tkn) w) (\<lambda>(ret, out, w).
         if ret < 0 then Inr (-1, w)
         else bindE (shell_print_decimal_u256 out (tkn_decimals tkn)) (\<lambda>s. Inr (0, tell s w))))))"

text \<open>
  \<open>writeu256BE\<close> overwrites the struct \<open>tx_value_u256\<close> with the bytes of the product; \<open>address_to\<close>, \<open>tx\<close>
  and the result are uninitialised before (\<open>hextobin\<close> clears the bytes it fills).
\<close>

definition erc20_transfer ::
    "('m, 'n) machine \<Rightarrow> token_abi \<Rightarrow> erc20_stack \<Rightarrow> string list \<Rightarrow> ('m, 'n) erc20 \<Rightarrow> (int \<times> ('m, 'n) erc20) outcome" where
  "erc20_transfer ma abi st argv w =
    (if length argv \<noteq> 4 then Inr (-1, tell_line ''use: erc20 transfer <index> <address_to> <amount>'' w)
     else bindE (arg argv 1) (\<lambda>index_text.
       bindE (get_token_by_index ma index_text w) (\<lambda>(ret, i, w).
       if ret \<noteq> 0 then Inr (-1, w)
       else bindE (arg argv 2) (\<lambda>to_text.
         bindE (hextobin to_text (replicate 20 0) 20) (\<lambda>(ret, to_bytes).
         if ret < 0 then Inr (-1, tell_line ''invalid argument: address'' w)
         else bindE (arg argv 3) (\<lambda>amount_text.
           bindE (shell_get_uint64 (on_lbits ma) amount_text) (\<lambda>(ret, tx_value, errno).
           let w = w\<lparr>e_shell := e_shell w\<lparr>sh_errno := errno\<rparr>\<rparr> in
           if ret \<noteq> 0 then Inr (-1, tell_line ''invalid argument: amount'' w)
           else
             let tkn = e_tokens w ! i; acc = sh_account (e_shell w);
                 decimals_u256 = set256_uint64 (ipow 10 (tkn_decimals tkn));
                 tx_value_u256 = set256_uint64 tx_value;
                 tx_result_u256 = mul256 tx_value_u256 decimals_u256 in
             bindE (writeu256BE tx_result_u256 (bytes_of_uint256 tx_value_u256) 0) (\<lambda>value_bytes.
             let tx = (stk_tx (es_stack st))\<lparr>tx_nonce := acc_nonce acc, tx_gas_price := acc_gas_price acc,
                   tx_gas_limit := 35427, tx_to := tkn_address tkn, tx_value := clear256\<rparr> in
             bindE (Token_transfer abi \<lparr>addr_a = to_bytes\<rparr> (uint256_of_bytes value_bytes) (data_block st))
               (\<lambda>(encoded_data_len, tx_data).
             if encoded_data_len < 0 then
               Inr (-1, tell_line (''Can'' @ [CHR 0x27] @ ''t encode Token::transfer()'') w)
             else
               let tx = tx\<lparr>tx_data := Some (es_ptr st, blk_mem tx_data), tx_data_len := nat encoded_data_len\<rparr> in
               bindE (on_shell (sign_and_send ma (es_stack st) tx) w) (\<lambda>(ret, tx_hash, w).
               if ret < 0 then Inr (-1, tell_line ''Error: eth_sendRawTransaction()'' w)
               else bindE (printk_uint256 tx_hash) (\<lambda>s. Inr (0, tell s w))))))))))))"

text \<open>The decimals of a token are cut to 8 bits.\<close>

definition token_decimals ::
    "('m, 'n) machine \<Rightarrow> token_abi \<Rightarrow> erc20_stack \<Rightarrow> address_t \<Rightarrow> u8 \<Rightarrow> ('m, 'n) erc20 \<Rightarrow>
     (int \<times> u8 \<times> ('m, 'n) erc20) outcome" where
  "token_decimals ma abi st addr out w =
    bindE (call_method ma st (Token_decimals abi) id addr w) (\<lambda>(ret, out_u256, w).
    if ret < 0 then Inr (-1, out, w) else Inr (0, ucast (LOWER (LOWER256 out_u256)), w))"

definition erc20_add ::
    "('m, 'n) machine \<Rightarrow> token_abi \<Rightarrow> erc20_stack \<Rightarrow> string list \<Rightarrow> ('m, 'n) erc20 \<Rightarrow> (int \<times> ('m, 'n) erc20) outcome" where
  "erc20_add ma abi st argv w =
    (if length argv < 2 then Inr (-1, tell_line ''missing argument: address'' w)
     else bindE (arg argv 1) (\<lambda>str.
       bindE (hextobin str (replicate 20 0) 20) (\<lambda>(ret, bytes).
       if ret < 0 then Inr (-1, tell_line ''invalid argument: address'' w)
       else bindE (token_decimals ma abi st \<lparr>addr_a = bytes\<rparr> 0 w) (\<lambda>(ret, decimals, w).
         if ret < 0 then Inr (-1, tell_line (''couldn'' @ [CHR 0x27] @ ''t get token decimals'') w)
         else
           let (ret, tokens) = token_add \<lparr>addr_a = bytes\<rparr> decimals ''TKN'' (e_tokens w);
               w = w\<lparr>e_tokens := tokens\<rparr> in
           if ret < 0 then Inr (-1, tell_line (''can'' @ [CHR 0x27] @ ''t add token'') w)
           else Inr (0, w)))))"

fun erc20_list_from :: "nat \<Rightarrow> token_nfo_t list \<Rightarrow> ('m, 'n) erc20 \<Rightarrow> ('m, 'n) erc20 outcome" where
  "erc20_list_from i [] w = Inr w"
| "erc20_list_from i (nfo # ts) w =
    (if tkn_used nfo = 0 then erc20_list_from (i + 1) ts w
     else bindE (print_buffer (tkn_symbol nfo)) (\<lambda>symbol.
       bindE (printk_hex (addr_a (tkn_address nfo)) 20) (\<lambda>address.
       erc20_list_from (i + 1) ts (tell (digits 10 i @ [TAB] @ symbol @ [TAB] @
         digits 10 (unat (tkn_decimals nfo)) @ [TAB] @ address @ [LF]) w))))"

definition erc20_list :: "string list \<Rightarrow> ('m, 'n) erc20 \<Rightarrow> (int \<times> ('m, 'n) erc20) outcome" where
  "erc20_list argv w = bindE (erc20_list_from 0 (e_tokens w) w) (\<lambda>w. Inr (0, w))"

text \<open>The commands of \<open>sub_erc20\<close>.\<close>

datatype erc20_command = T_add | T_balance | T_list | T_transfer | T_totalSupply

fun erc20_run ::
    "('m, 'n) machine \<Rightarrow> token_abi \<Rightarrow> erc20_stack \<Rightarrow> erc20_command \<Rightarrow> string list \<Rightarrow> ('m, 'n) erc20 \<Rightarrow>
     (int \<times> ('m, 'n) erc20) outcome" where
  "erc20_run ma abi st T_add argv w = erc20_add ma abi st argv w"
| "erc20_run ma abi st T_balance argv w = erc20_balance ma abi st argv w"
| "erc20_run ma abi st T_list argv w = erc20_list argv w"
| "erc20_run ma abi st T_transfer argv w = erc20_transfer ma abi st argv w"
| "erc20_run ma abi st T_totalSupply argv w = erc20_totalSupply ma abi st argv w"

section \<open>The table\<close>

text \<open>The first \<open>k\<close> of the five entries are used.\<close>

definition tokens_ok :: "nat \<Rightarrow> token_nfo_t list \<Rightarrow> bool" where
  "tokens_ok k ts \<longleftrightarrow> length ts = TOKENS_MAX \<and> k \<le> TOKENS_MAX \<and>
     (\<forall>i < length ts. tkn_used (ts ! i) = (if i < k then 1 else 0))"

definition new_token :: "address_t \<Rightarrow> u8 \<Rightarrow> string \<Rightarrow> token_nfo_t" where
  "new_token addr decimals symbol = \<lparr>tkn_address = addr, tkn_decimals = decimals,
     tkn_symbol = strncpy symbol TOKEN_SYMBOL_MAX @ [NUL], tkn_used = 1\<rparr>"

lemma token_add_slot:
  assumes "\<forall>i < length ts. tkn_used (ts ! i) = (if i < k then 1 else 0)" "k \<le> length ts"
  shows "token_add a d s ts = (if k < length ts then (0, ts[k := new_token a d s]) else (-1, ts))"
  using assms
proof (induction ts arbitrary: k)
  case (Cons t ts)
  show ?case
  proof (cases k)
    case 0
    with Cons.prems(1) have "tkn_used t = 0" by auto
    with 0 show ?thesis by (simp add: new_token_def)
  next
    case (Suc j)
    with Cons.prems have "tkn_used t = 1" "\<forall>i < length ts. tkn_used (ts ! i) = (if i < j then 1 else 0)" "j \<le> length ts"
      by (force, force, simp)
    with Cons.IH [of j] Suc show ?thesis by simp
  qed
qed simp

lemma token_add_ok:
  assumes "tokens_ok k ts"
  shows "token_add a d s ts = (if k < TOKENS_MAX then (0, ts[k := new_token a d s]) else (-1, ts))"
    "k < TOKENS_MAX \<Longrightarrow> tokens_ok (Suc k) (ts[k := new_token a d s])"
  using assms token_add_slot [of ts k a d s]
  by (auto simp: tokens_ok_def new_token_def nth_list_update less_Suc_eq)

lemma tokens_init_ok: "tokens_ok 0 tokens_init"
  by (simp add: tokens_ok_def tokens_init_def)

lemma tell_simps [simp]: "e_tokens (tell s w) = e_tokens w" "e_tokens (tell_line s w) = e_tokens w"
  "e_shell (tell s w) = say s (e_shell w)" "e_shell (tell_line s w) = say_line s (e_shell w)"
  by (simp_all add: tell_def tell_line_def say_line_def)

lemma on_shell_keeps: "on_shell f w = Inr (ret, x, w') \<Longrightarrow> e_tokens w' = e_tokens w"
  by (auto simp: on_shell_def bindE_eq_Inr)

lemma get_token_keeps: "get_token_by_index ma str w = Inr (ret, i, w') \<Longrightarrow> e_tokens w' = e_tokens w"
  by (auto simp: get_token_by_index_def bindE_eq_Inr Let_def split: if_splits)

lemma call_method_keeps:
  "call_method ma st encode complain addr w = Inr (ret, x, w') \<Longrightarrow> (\<And>w. e_tokens (complain w) = e_tokens w) \<Longrightarrow>
   e_tokens w' = e_tokens w"
  by (auto simp: call_method_def bindE_eq_Inr Let_def split: if_splits dest!: on_shell_keeps)

text \<open>Only \<open>add\<close> changes the table, and only by one more entry.\<close>

abbreviation keeps_tokens :: "('m, 'n) erc20 \<Rightarrow> (int \<times> ('m, 'n) erc20) outcome \<Rightarrow> bool" where
  "keeps_tokens w \<equiv> ensures (\<lambda>(ret, w'). e_tokens w' = e_tokens w)"

lemma list_from_keeps: "erc20_list_from i ts w = Inr w' \<Longrightarrow> e_tokens w' = e_tokens w"
  by (induction i ts w rule: erc20_list_from.induct) (auto simp: bindE_eq_Inr split: if_splits)

lemma keeps_erc20_balance: "keeps_tokens w (erc20_balance ma abi st argv w)"
  unfolding erc20_balance_def Let_def
  by (intro ensures_rules) (auto dest!: get_token_keeps call_method_keeps)

lemma keeps_erc20_totalSupply: "keeps_tokens w (erc20_totalSupply ma abi st argv w)"
  unfolding erc20_totalSupply_def Let_def
  by (intro ensures_rules) (auto dest!: get_token_keeps call_method_keeps)

lemma keeps_erc20_transfer: "keeps_tokens w (erc20_transfer ma abi st argv w)"
  unfolding erc20_transfer_def Let_def
  by (intro ensures_rules) (auto dest!: get_token_keeps on_shell_keeps)

lemma keeps_erc20_list: "keeps_tokens w (erc20_list argv w)"
  unfolding erc20_list_def by (intro ensures_rules) (auto dest: list_from_keeps)

definition grows :: "nat \<Rightarrow> token_nfo_t list \<Rightarrow> token_nfo_t list \<Rightarrow> bool" where
  "grows k ts ts' \<longleftrightarrow> ts' = ts \<or> k < TOKENS_MAX \<and> (\<exists>a d. ts' = ts[k := new_token a d ''TKN''])"

lemma token_decimals_keeps: "token_decimals ma abi st addr out w = Inr (ret, d, w') \<Longrightarrow> e_tokens w' = e_tokens w"
  by (auto simp: token_decimals_def bindE_eq_Inr split: if_splits dest!: call_method_keeps)

lemma erc20_add_grows:
  assumes "tokens_ok k (e_tokens w)"
  shows "ensures (\<lambda>(ret, w'). grows k (e_tokens w) (e_tokens w')) (erc20_add ma abi st argv w)"
  unfolding erc20_add_def Let_def
  by (intro ensures_rules)
    (auto simp: grows_def token_add_ok(1) [OF assms] split: if_splits dest!: token_decimals_keeps, blast)

lemma erc20_run_grows:
  assumes "erc20_run ma abi st c argv w = Inr (ret, w')" "tokens_ok k (e_tokens w)"
  shows "grows k (e_tokens w) (e_tokens w')"
proof (cases c)
  case T_add
  with assms(1) ensuresD [OF erc20_add_grows [OF assms(2)]] show ?thesis by fastforce
next
  case T_balance
  with assms(1) ensuresD [OF keeps_erc20_balance] show ?thesis by (fastforce simp: grows_def)
next
  case T_list
  with assms(1) ensuresD [OF keeps_erc20_list] show ?thesis by (fastforce simp: grows_def)
next
  case T_transfer
  with assms(1) ensuresD [OF keeps_erc20_transfer] show ?thesis by (fastforce simp: grows_def)
next
  case T_totalSupply
  with assms(1) ensuresD [OF keeps_erc20_totalSupply] show ?thesis by (fastforce simp: grows_def)
qed

text \<open>A session of token commands.\<close>

fun erc20_session ::
    "('m, 'n) machine \<Rightarrow> token_abi \<Rightarrow> (erc20_stack \<times> erc20_command \<times> string list) list \<Rightarrow> ('m, 'n) erc20 \<Rightarrow>
     ('m, 'n) erc20 outcome" where
  "erc20_session ma abi [] w = Inr w"
| "erc20_session ma abi ((st, c, argv) # cs) w =
    bindE (erc20_run ma abi st c argv w) (\<lambda>(ret, w). erc20_session ma abi cs w)"

lemma grows_ok:
  assumes "tokens_ok k ts" "grows k ts ts'"
  shows "\<exists>k'. k \<le> k' \<and> tokens_ok k' ts' \<and> take k ts' = take k ts"
  using assms token_add_ok(2) [OF assms(1)] unfolding grows_def by (auto intro: exI [of _ k] exI [of _ "Suc k"])

lemma erc20_session_ok:
  "erc20_session ma abi cs w = Inr w' \<Longrightarrow> tokens_ok k (e_tokens w) \<Longrightarrow>
   \<exists>k'. k \<le> k' \<and> tokens_ok k' (e_tokens w') \<and> take k (e_tokens w') = take k (e_tokens w)"
proof (induction cs arbitrary: w k)
  case (Cons x cs)
  obtain st c argv where x: "x = (st, c, argv)" by (cases x)
  with Cons.prems(1) obtain ret w1 where r: "erc20_run ma abi st c argv w = Inr (ret, w1)" "erc20_session ma abi cs w1 = Inr w'"
    by (auto simp: bindE_eq_Inr)
  obtain k1 where k1: "k \<le> k1" "tokens_ok k1 (e_tokens w1)" "take k (e_tokens w1) = take k (e_tokens w)"
    using grows_ok [OF Cons.prems(2) erc20_run_grows [OF r(1) Cons.prems(2)]] by blast
  obtain k2 where k2: "k1 \<le> k2" "tokens_ok k2 (e_tokens w')" "take k1 (e_tokens w') = take k1 (e_tokens w1)"
    using Cons.IH [OF r(2) k1(2)] by blast
  have "take k (e_tokens w') = take k (e_tokens w1)"
    using arg_cong [OF k2(3), of "take k"] k1(1) by (simp add: min_def)
  with k1 k2 show ?case by (intro exI [of _ k2]) simp
qed auto

section \<open>The index\<close>

lemma token_index:
  assumes "decimal ds" "dec_val ds < 2 ^ on_lbits ma" "length (e_tokens w) = TOKENS_MAX"
  shows "get_token_by_index ma ds w =
    (let w' = w\<lparr>e_shell := e_shell w\<lparr>sh_errno := False\<rparr>\<rparr>; i = dec_val ds mod 256 in
     if TOKENS_MAX \<le> i then Inr (-1, 0, tell_line ''invalid token index'' w')
     else if tkn_used (e_tokens w ! i) = 0 then Inr (-1, i, tell_line ''invalid token index'' w')
     else Inr (0, i, w'))"
  using assms by (simp add: get_token_by_index_def strtoul10_decimal unat_of_nat Let_def)

section \<open>The generated encoders\<close>

text \<open>
  What \<open>abi_compiler\<close> emits for the methods of the token standard: set the selector, encode the
  arguments in order, return the length.
\<close>

definition as_generated :: "token_abi \<Rightarrow> bool" where
  "as_generated abi \<longleftrightarrow>
    (\<forall>to v blk. 72 \<le> blk_len blk \<longrightarrow> Token_transfer abi to v blk =
      bindE (data_set_selector blk 0xa9059cbb) (\<lambda>(_, blk).
      bindE (encode_address blk 0 to) (\<lambda>(_, blk).
      bindE (encode_uint256 blk 1 v) (\<lambda>(_, blk). Inr (68, blk))))) \<and>
    (\<forall>a blk. 40 \<le> blk_len blk \<longrightarrow> Token_balanceOf abi a blk =
      bindE (data_set_selector blk 0x70a08231) (\<lambda>(_, blk).
      bindE (encode_address blk 0 a) (\<lambda>(_, blk). Inr (36, blk))))"

definition transfer_data :: "address_t \<Rightarrow> u8 list \<Rightarrow> u8 list" where
  "transfer_data to value_bytes = be_bytes 4 0xa9059cbb @ replicate 12 0 @ addr_a to @ value_bytes"

definition balance_data :: "address_t \<Rightarrow> u8 list" where
  "balance_data a = be_bytes 4 0x70a08231 @ replicate 12 0 @ addr_a a"

lemma generated_transfer:
  assumes "as_generated abi" "length (es_datablk st) = 260" "length (addr_a to) = 20" "length value_bytes = 32"
  shows "Token_transfer abi to (uint256_of_bytes value_bytes) (data_block st) =
    Inr (68, \<lparr>blk_len = 260, blk_data = Some (transfer_data to value_bytes @ drop 68 (es_datablk st))\<rparr>)"
proof -
  have "Token_transfer abi to (uint256_of_bytes value_bytes) (data_block st) =
      bindE (data_set_selector (data_block st) 0xa9059cbb) (\<lambda>(_, blk).
      bindE (encode_address blk 0 to) (\<lambda>(_, blk).
      bindE (encode_uint256 blk 1 (uint256_of_bytes value_bytes)) (\<lambda>(_, blk). Inr (68, blk))))"
    using assms(1) by (simp add: as_generated_def data_block_def)
  then show ?thesis using assms(2-4)
    by (simp add: data_set_selector_def blk_write_def blk_mem_def write_at_def store_swap_uint32 encode_address_def
        encode_uint256_def item_clear_def compute_item_index_def SELECTOR_LEN_def DATA_ITEM_LEN_def data_block_def
        transfer_data_def bytes_of_uint256_of Let_def)
qed

lemma generated_balance:
  assumes "as_generated abi" "length (es_datablk st) = 260" "length (addr_a a) = 20"
  shows "Token_balanceOf abi a (data_block st) =
    Inr (36, \<lparr>blk_len = 260, blk_data = Some (balance_data a @ drop 36 (es_datablk st))\<rparr>)"
proof -
  have "Token_balanceOf abi a (data_block st) =
      bindE (data_set_selector (data_block st) 0x70a08231) (\<lambda>(_, blk).
      bindE (encode_address blk 0 a) (\<lambda>(_, blk). Inr (36, blk)))"
    using assms(1) by (simp add: as_generated_def data_block_def)
  then show ?thesis using assms(2,3)
    by (simp add: data_set_selector_def blk_write_def blk_mem_def write_at_def store_swap_uint32 encode_address_def
        item_clear_def compute_item_index_def SELECTOR_LEN_def DATA_ITEM_LEN_def data_block_def balance_data_def Let_def)
qed

section \<open>Calls and transfers\<close>

definition call_request :: "u32 \<Rightarrow> address_t \<Rightarrow> u8 list \<Rightarrow> string" where
  "call_request i address bytes = json_text (request ''eth_call'' i
     [JObj (members_of [(''to'', hex_json (addr_a address)), (''data'', hex_json bytes)]), JStr ''latest''])"

lemma length_call_request:
  "length (addr_a address) = 20 \<Longrightarrow> length bytes \<le> 68 \<Longrightarrow> length (call_request i address bytes) < 512"
  using length_show_int [of i] by (simp add: call_request_def request_def hex_json_def quoted_def)

lemma call_flags:
  "(TX_NO_FROM OR TX_NO_GAS OR TX_NO_GASPRICE OR TX_NO_VALUE) AND TX_NO_FROM \<noteq> 0"
  "(TX_NO_FROM OR TX_NO_GAS OR TX_NO_GASPRICE OR TX_NO_VALUE) AND TX_NO_GAS \<noteq> 0"
  "(TX_NO_FROM OR TX_NO_GAS OR TX_NO_GASPRICE OR TX_NO_VALUE) AND TX_NO_GASPRICE \<noteq> 0"
  "(TX_NO_FROM OR TX_NO_GAS OR TX_NO_GASPRICE OR TX_NO_VALUE) AND TX_NO_VALUE \<noteq> 0"
  "(TX_NO_FROM OR TX_NO_GAS OR TX_NO_GASPRICE OR TX_NO_VALUE) AND TX_NO_DATA = 0"
  by (simp_all add: TX_NO_FROM_def TX_NO_GAS_def TX_NO_GASPRICE_def TX_NO_VALUE_def TX_NO_DATA_def)

lemma call_method_answered:
  assumes enc: "encode (data_block st) = Inr (int n, blk)" "0 < n" "n \<le> 68" "n \<le> length (blk_mem blk)"
    and ready: "shell_ready ma (es_stack st) (e_shell w)" and reply: "good_reply (on_lbits ma) kvs i hs"
    and addr: "length (addr_a (acc_address (sh_account (e_shell w)))) = 20" "length (addr_a address) = 20"
    and ans: "answers (on_platform ma) (call_request (w_req_id (rpc_web3 (sh_rpc (e_shell w)))) address (take n (blk_mem blk)))
      (document kvs)"
  shows "\<exists>x w'. call_method ma st encode complain address w = Inr (0, x, w') \<and> val256 x = hex_val hs \<and>
    e_tokens w' = e_tokens w \<and> sh_account (e_shell w') = sh_account (e_shell w) \<and> sh_out (e_shell w') = sh_out (e_shell w)"
proof -
  let ?tx = "tx_zero\<lparr>tx_data := Some (es_ptr st, blk_mem blk), tx_data_len := n, tx_to := address\<rparr>"
  let ?flags = "TX_NO_FROM OR TX_NO_GAS OR TX_NO_GASPRICE OR TX_NO_VALUE"
  let ?from = "acc_address (sh_account (e_shell w))"
  let ?params = "[JObj (members_of [(''to'', hex_json (addr_a address)), (''data'', hex_json (take n (blk_mem blk)))]), JStr ''latest'']"
  have r: "rpc_ready (on_platform ma) (on_asserts ma) (stk_thread (es_stack st)) (sh_rpc (e_shell w))"
      "length (stk_toks (es_stack st)) = 64" "0 \<le> err_code (res_error (stk_res (es_stack st)))"
      "w_buf_size (rpc_web3 (sh_rpc (e_shell w))) = 512"
    using ready by (simp_all add: shell_ready_def WEB3_BUF_SIZE_def)
  have "call_fields ?from ?tx ?flags = [(''to'', hex_json (addr_a address)), (''data'', hex_json (take n (blk_mem blk)))]"
    using enc(2) call_flags by (simp add: call_fields_def tx_zero_def)
  moreover have "tx_ok ?tx" using enc(4) addr(2) by (simp add: tx_ok_def)
  ultimately have call: "writes_request (eth_call ?from ?tx ?flags) ''eth_call'' ?params"
    using writes_requestI [OF prints_txparam [of ?tx ?from ?flags]] addr(1) by (simp add: eth_call_def)
  have room: "length (json_text (request ''eth_call'' (w_req_id (rpc_web3 (sh_rpc (e_shell w)))) ?params)) <
      w_buf_size (rpc_web3 (sh_rpc (e_shell w)))"
    using length_call_request [OF addr(2), of "take n (blk_mem blk)"] enc(3) unfolding call_request_def r(4) by simp
  obtain x rpc where "web3_eth_call (on_platform ma) (on_asserts ma) (on_lbits ma) (stk_thread (es_stack st))
        (stk_toks (es_stack st)) (stk_res (es_stack st)) ?from ?tx (stk_u256 (es_stack st)) ?flags (sh_rpc (e_shell w)) =
        Inr (0, x, rpc)" "val256 x = hex_val hs"
    using call_replied [OF call r(1) reply r(2) room ans [unfolded call_request_def] r(3)] by blast
  with enc(1) show ?thesis by (simp add: call_method_def on_shell_def on_rpc_def)
qed

text \<open>The transaction of a token transfer.\<close>

definition token_tx :: "erc20_stack \<Rightarrow> account_t \<Rightarrow> address_t \<Rightarrow> u8 list \<Rightarrow> nat \<Rightarrow> transaction_t" where
  "token_tx st a token mem n = (stk_tx (es_stack st))\<lparr>tx_nonce := acc_nonce a, tx_gas_price := acc_gas_price a,
     tx_gas_limit := 35427, tx_to := token, tx_value := clear256, tx_data := Some (es_ptr st, mem), tx_data_len := n\<rparr>"

lemma token_tx_fields:
  assumes "length data = 68"
  shows "tx_fields (token_tx st a token (data @ rest) 68) None =
    [min_bytes (unat (acc_nonce a)), min_bytes (unat (acc_gas_price a)), min_bytes 35427, addr_a token, [], data]"
proof -
  have "val256 clear256 = 0" by (simp add: clear256_def clear128_def val256_def val128_def)
  moreover have "data \<noteq> [0]" using assms by auto
  ultimately show ?thesis
    using assms by (simp add: tx_fields_def token_tx_def uint256_content_def data_content_def strip_zero_def)
qed

lemma token_tx_payload:
  assumes "length data = 68" "length (addr_a token) = 20"
  shows "Transaction.tx_ok (token_tx st a token (data @ rest) 68)"
    "length (tx_payload (token_tx st a token (data @ rest) 68) None) \<le> 110"
    "length (tx_payload (token_tx st a token (data @ rest) 68) None) \<noteq> 55"
proof -
  have m: "length (min_bytes (unat (acc_nonce a))) \<le> 4" "length (min_bytes (unat (acc_gas_price a))) \<le> 4"
      "length (min_bytes 35427) \<le> 2"
    using u32_bound by (simp_all add: length_min_bytes_le)
  then have "length (rlp_string (min_bytes (unat (acc_nonce a)))) \<le> 5" "length (rlp_string (min_bytes (unat (acc_gas_price a)))) \<le> 5"
      "length (rlp_string (min_bytes 35427)) \<le> 3" "length (rlp_string (addr_a token)) \<le> 21" "length (rlp_string []) \<le> 1"
    using assms(2) by (auto intro!: order_trans [OF length_rlp_short])
  moreover have "length (rlp_string data) = 70"
  proof -
    have "min_bytes 68 = [68]" by (simp add: min_bytes_pos)
    with assms(1) show ?thesis by (simp add: rlp_string_def)
  qed
  ultimately show "length (tx_payload (token_tx st a token (data @ rest) 68) None) \<le> 110"
      "length (tx_payload (token_tx st a token (data @ rest) 68) None) \<noteq> 55"
    by (simp_all add: tx_payload_def token_tx_fields [OF assms(1)])
  have "val256 clear256 = 0" by (simp add: clear256_def clear128_def val256_def val128_def)
  then show "Transaction.tx_ok (token_tx st a token (data @ rest) 68)"
    using assms by (simp add: Transaction.tx_ok_def token_tx_def uint256_ok_def)
qed

lemma token_transfer_command:
  assumes abi: "as_generated abi" "length (es_datablk st) = 260"
    and tok: "get_token_by_index ma index_text w = Inr (0, i, w1)"
      "e_tokens w1 = e_tokens w" "e_shell w1 = e_shell w\<lparr>sh_errno := False\<rparr>"
    and to: "hextobin to_text (replicate 20 0) 20 = Inr (20, to_bytes)" "length to_bytes = 20"
    and amount: "decimal ds" "dec_val ds < 2 ^ on_lbits ma" "dec_val ds < 2 ^ 64"
    and d: "unat (tkn_decimals (e_tokens w ! i)) \<le> 19"
    and send: "sign_and_send ma (es_stack st) (token_tx st (sh_account (e_shell w)) (tkn_address (e_tokens w ! i))
        (transfer_data \<lparr>addr_a = to_bytes\<rparr> (be_bytes 32 (dec_val ds * 10 ^ unat (tkn_decimals (e_tokens w ! i)))) @
          drop 68 (es_datablk st)) 68) (e_shell w\<lparr>sh_errno := False\<rparr>) = Inr (0, x, sh)"
  shows "\<exists>w'. erc20_transfer ma abi st [cmd, index_text, to_text, ds] w = Inr (0, w') \<and> e_tokens w' = e_tokens w \<and>
    e_shell w' = say (''0x'' @ digits 16 (val256 x) @ [LF]) sh"
proof -
  let ?d = "unat (tkn_decimals (e_tokens w ! i))"
  have ten: "val256 (set256_uint64 (ipow 10 (tkn_decimals (e_tokens w ! i)))) = 10 ^ ?d"
    using ipow_10_fits [OF d] by simp
  have v: "val256 (set256_uint64 (of_nat (dec_val ds))) = dec_val ds" using amount(3) by (simp add: unat_of_nat)
  have "(10::nat) ^ ?d \<le> 10 ^ 19" using d by (intro power_increasing) simp_all
  then have small: "val256 (set256_uint64 (of_nat (dec_val ds))) < 2 ^ 64"
      "val256 (set256_uint64 (ipow 10 (tkn_decimals (e_tokens w ! i)))) < 2 ^ 64"
    unfolding v ten using amount(3) by simp_all
  have "val256 (mul256 (set256_uint64 (of_nat (dec_val ds))) (set256_uint64 (ipow 10 (tkn_decimals (e_tokens w ! i))))) =
      dec_val ds * 10 ^ ?d"
    unfolding val256_mul_uint64 [OF small] v ten ..
  then have wr: "writeu256BE (mul256 (set256_uint64 (of_nat (dec_val ds))) (set256_uint64 (ipow 10 (tkn_decimals (e_tokens w ! i)))))
      (bytes_of_uint256 (set256_uint64 (of_nat (dec_val ds)))) 0 = Inr (be_bytes 32 (dec_val ds * 10 ^ ?d))"
    by (simp add: writeu256BE_eq write_at_def)
  have gen: "Token_transfer abi \<lparr>addr_a = to_bytes\<rparr> (uint256_of_bytes (be_bytes 32 (dec_val ds * 10 ^ ?d))) (data_block st) =
      Inr (68, \<lparr>blk_len = 260, blk_data = Some (transfer_data \<lparr>addr_a = to_bytes\<rparr> (be_bytes 32 (dec_val ds * 10 ^ ?d)) @
        drop 68 (es_datablk st))\<rparr>)"
    using generated_transfer [OF abi] to(2) by simp
  let ?mem = "transfer_data \<lparr>addr_a = to_bytes\<rparr> (be_bytes 32 (dec_val ds * 10 ^ ?d)) @ drop 68 (es_datablk st)"
  have tx: "(stk_tx (es_stack st))\<lparr>tx_nonce := acc_nonce a, tx_gas_price := acc_gas_price a, tx_gas_limit := 35427,
      tx_to := t, tx_value := clear256, tx_data := Some (es_ptr st, ?mem), tx_data_len := 68\<rparr> = token_tx st a t ?mem 68" for a t
    by (simp add: token_tx_def)
  have same: "w1\<lparr>e_shell := e_shell w1\<lparr>sh_errno := False\<rparr>\<rparr> = w1" using tok(3) by (cases w1) simp
  show ?thesis
    using tok to amount(1,2) send
    by (simp add: erc20_transfer_def arg_def get_uint64_decimal same wr gen tx blk_mem_def on_shell_def
        printk_uint256_text Let_def)
qed

text \<open>A table and encoders for the witnesses.\<close>

definition demo_abi :: token_abi where
  "demo_abi = \<lparr>
     Token_balanceOf = (\<lambda>a blk. bindE (data_set_selector blk 0x70a08231) (\<lambda>(_, blk).
       bindE (encode_address blk 0 a) (\<lambda>(_, blk). Inr (36, blk)))),
     Token_transfer = (\<lambda>to v blk. bindE (data_set_selector blk 0xa9059cbb) (\<lambda>(_, blk).
       bindE (encode_address blk 0 to) (\<lambda>(_, blk).
       bindE (encode_uint256 blk 1 v) (\<lambda>(_, blk). Inr (68, blk))))),
     Token_decimals = (\<lambda>blk. bindE (data_set_selector blk 0x313ce567) (\<lambda>(_, blk). Inr (4, blk))),
     Token_totalSupply = (\<lambda>blk. bindE (data_set_selector blk 0x18160ddd) (\<lambda>(_, blk). Inr (4, blk)))\<rparr>"

lemma demo_generated: "as_generated demo_abi"
  by (simp add: as_generated_def demo_abi_def)

definition demo_erc20 :: "u8 \<Rightarrow> (thread \<times> nat, unit) erc20" where
  "demo_erc20 d = \<lparr>e_shell = demo_shell, e_tokens = tokens_init[0 := new_token \<lparr>addr_a = replicate 20 3\<rparr> d ''TKN'']\<rparr>"

definition demo_erc20_stack :: erc20_stack where
  "demo_erc20_stack = \<lparr>es_stack = demo_stack, es_datablk = replicate 260 7, es_ptr = 4096\<rparr>"

lemma demo_tokens: "tokens_ok 1 (e_tokens (demo_erc20 d))"
  using token_add_ok(2) [OF tokens_init_ok, of "\<lparr>addr_a = replicate 20 3\<rparr>" d "''TKN''"]
  by (simp add: demo_erc20_def TOKENS_MAX_def)

section \<open>Properties\<close>

text \<open>
  C39: the token table. In every session of token commands that starts with a table whose first \<open>k\<close>
  entries are used, the used entries stay a prefix of the five, those added before keep their place,
  address, decimals and symbol, and \<open>_token_add\<close> fills the next free entry or reports that there is none.
\<close>

theorem erc20_table_stable:
  assumes "erc20_session ma abi cs w = Inr w'" "tokens_ok k (e_tokens w)"
  shows "\<exists>k'. k \<le> k' \<and> tokens_ok k' (e_tokens w') \<and> take k (e_tokens w') = take k (e_tokens w) \<and>
    token_add a d s (e_tokens w') =
      (if k' < TOKENS_MAX then (0, (e_tokens w')[k' := new_token a d s]) else (-1, e_tokens w'))"
  using erc20_session_ok [OF assms] token_add_ok(1) by blast

theorem erc20_table_stable_witness:
  "\<exists>w' k'. erc20_session demo_machine demo_abi [(demo_erc20_stack, T_balance, [''balance''])] (demo_erc20 18) = Inr w' \<and>
    1 \<le> k' \<and> tokens_ok k' (e_tokens w')"
proof -
  obtain w' where "erc20_session demo_machine demo_abi [(demo_erc20_stack, T_balance, [''balance''])] (demo_erc20 18) = Inr w'"
    by (simp add: erc20_balance_def)
  with erc20_table_stable [OF this demo_tokens] show ?thesis by blast
qed

text \<open>
  C40: which token a number names. \<open>_get_token_by_index\<close> cuts the number to 8 bits before it compares it
  with the size of the table: a decimal text names the token at its value modulo 256, so 256 is
  token 0, and is refused when that is not a used entry.
\<close>

theorem erc20_index_wraps:
  assumes "decimal ds" "dec_val ds < 2 ^ on_lbits ma" "tokens_ok k (e_tokens w)"
  shows "\<exists>w'. e_tokens w' = e_tokens w \<and> sh_account (e_shell w') = sh_account (e_shell w) \<and>
    (if dec_val ds mod 256 < k then get_token_by_index ma ds w = Inr (0, dec_val ds mod 256, w')
     else \<exists>i. get_token_by_index ma ds w = Inr (-1, i, w'))"
proof -
  have len: "length (e_tokens w) = TOKENS_MAX" "k \<le> TOKENS_MAX" using assms(3) by (simp_all add: tokens_ok_def)
  let ?i = "dec_val ds mod 256"
  have used: "tkn_used (e_tokens w ! ?i) = (if ?i < k then 1 else 0)" if "?i < TOKENS_MAX"
    using assms(3) that by (simp add: tokens_ok_def)
  let ?w = "w\<lparr>e_shell := e_shell w\<lparr>sh_errno := False\<rparr>\<rparr>"
  show ?thesis
  proof (cases "?i < k")
    case True
    with used len token_index [OF assms(1,2) len(1)] show ?thesis by (intro exI [of _ ?w]) simp
  next
    case False
    with used len token_index [OF assms(1,2) len(1)] show ?thesis
      by (intro exI [of _ "tell_line ''invalid token index'' ?w"]) (auto simp: Let_def not_less)
  qed
qed

theorem erc20_index_wraps_witness:
  "\<exists>w'. get_token_by_index demo_machine ''256'' (demo_erc20 18) = Inr (0, 0, w')"
proof -
  have "decimal ''256''" "dec_val ''256'' = 256" by (simp_all add: decimal_def dec_val_def map_hex_def)
  with erc20_index_wraps [of "''256''" demo_machine 1 "demo_erc20 18"] demo_tokens show ?thesis
    by (auto simp: demo_machine_def)
qed

text \<open>
  C2: a token transfer, end to end. For a used token with up to 19 decimals, a recipient of 40
  hexadecimal digits and a decimal amount, the bytes sent to the server decode to the account's nonce
  and gas price, the fixed gas limit, the contract, no value, the call of \<open>transfer\<close> with the
  recipient and the amount times ten to the decimals, and the signature of that list; and when the
  server answers with a well-formed response the command succeeds and prints its hash.
\<close>

theorem erc20_transfer_sends:
  assumes abi: "as_generated abi" "length (es_datablk st) = 260"
    and tok: "decimal is" "dec_val is < 2 ^ on_lbits ma" "tokens_ok k (e_tokens w)" "dec_val is < k"
      "tkn = e_tokens w ! dec_val is" "unat (tkn_decimals tkn) \<le> 19" "length (addr_a (tkn_address tkn)) = 20"
    and to: "hex_bytes (skip_0x to_text) = Some to_bytes" "length to_bytes = 20"
    and amount: "decimal ds" "dec_val ds < 2 ^ on_lbits ma" and ready: "shell_ready ma (es_stack st) (e_shell w)"
    and mem: "mem = transfer_data \<lparr>addr_a = to_bytes\<rparr> (be_bytes 32 (dec_val ds * 10 ^ unat (tkn_decimals tkn)))"
    and sign: "signs ma (acc_privkey (sh_account (e_shell w)))
      (token_tx st (sh_account (e_shell w)) (tkn_address tkn) (mem @ drop 68 (es_datablk st)) 68) rs pby"
  shows "\<exists>bytes. rlp_decode_tx bytes = Some [min_bytes (unat (acc_nonce (sh_account (e_shell w)))),
      min_bytes (unat (acc_gas_price (sh_account (e_shell w)))), min_bytes 35427, addr_a (tkn_address tkn), [], mem,
      min_bytes (unat (pby + 27)), take 32 rs, drop 32 rs] \<and>
    (\<forall>kvs i hs. good_reply (on_lbits ma) kvs i hs \<longrightarrow>
       answers (on_platform ma) (raw_request (w_req_id (rpc_web3 (sh_rpc (e_shell w)))) bytes) (document kvs) \<longrightarrow>
       (\<exists>w'. erc20_transfer ma abi st [cmd, is, to_text, ds] w = Inr (0, w') \<and> e_tokens w' = e_tokens w \<and>
         sh_out (e_shell w') = sh_out (e_shell w) @ ''0x'' @ digits 16 (hex_val hs) @ [LF]))"
proof -
  let ?a = "sh_account (e_shell w)" and ?w1 = "w\<lparr>e_shell := e_shell w\<lparr>sh_errno := False\<rparr>\<rparr>"
  let ?tx = "token_tx st ?a (tkn_address tkn) (mem @ drop 68 (es_datablk st)) 68"
  have len: "length mem = 68" using to(2) by (simp add: mem transfer_data_def)
  have five: "length (e_tokens w) = TOKENS_MAX" "dec_val is < TOKENS_MAX" "tkn_used tkn = 1"
    using tok(3-5) by (simp_all add: tokens_ok_def)
  then have "dec_val is mod 256 = dec_val is" by (simp add: TOKENS_MAX_def)
  with token_index [OF tok(1,2) five(1)] five tok(5) have g: "get_token_by_index ma is w = Inr (0, dec_val is, ?w1)"
    by (simp add: Let_def)
  have "(2::nat) ^ on_lbits ma \<le> 2 ^ 64" using ready by (intro power_increasing) (simp_all add: shell_ready_def)
  with amount(2) have v: "dec_val ds < 2 ^ 64" by linarith
  have h: "hextobin to_text (replicate 20 0) 20 = Inr (20, to_bytes)" using recipient_parsed [OF to, of "replicate 20 0"] by simp
  note p = token_tx_payload [OF len tok(7), of st ?a "drop 68 (es_datablk st)"]
  have r: "shell_ready ma (es_stack st) (e_shell w\<lparr>sh_errno := False\<rparr>)"
      "signs ma (acc_privkey (sh_account (e_shell w\<lparr>sh_errno := False\<rparr>))) ?tx rs pby"
    using ready sign by (simp_all add: shell_ready_def)
  from sign_and_send_answered [OF p(1,3,2) r(2,1)] obtain bytes where
    b: "rlp_decode_tx bytes = Some (tx_fields ?tx None @ [min_bytes (unat (pby + 27)), take 32 rs, drop 32 rs])"
      "\<forall>kvs i hs. good_reply (on_lbits ma) kvs i hs \<longrightarrow>
         answers (on_platform ma) (raw_request (w_req_id (rpc_web3 (sh_rpc (e_shell w\<lparr>sh_errno := False\<rparr>)))) bytes) (document kvs) \<longrightarrow>
         (\<exists>x sh. sign_and_send ma (es_stack st) ?tx (e_shell w\<lparr>sh_errno := False\<rparr>) = Inr (0, x, sh) \<and> val256 x = hex_val hs \<and>
           sh_account sh = sh_account (e_shell w\<lparr>sh_errno := False\<rparr>) \<and>
           sh_out sh = sh_out (e_shell w\<lparr>sh_errno := False\<rparr>))"
    by (elim exE conjE) (rule that)
  show ?thesis
  proof (intro exI [of _ bytes] conjI allI impI)
    show "rlp_decode_tx bytes = Some [min_bytes (unat (acc_nonce ?a)), min_bytes (unat (acc_gas_price ?a)), min_bytes 35427,
        addr_a (tkn_address tkn), [], mem, min_bytes (unat (pby + 27)), take 32 rs, drop 32 rs]"
      using b(1) by (simp add: token_tx_fields [OF len])
  next
    fix kvs i hs
    assume ga: "good_reply (on_lbits ma) kvs i hs"
      "answers (on_platform ma) (raw_request (w_req_id (rpc_web3 (sh_rpc (e_shell w)))) bytes) (document kvs)"
    have same: "sh_rpc (e_shell w\<lparr>sh_errno := False\<rparr>) = sh_rpc (e_shell w)" "sh_out (e_shell w\<lparr>sh_errno := False\<rparr>) = sh_out (e_shell w)"
      by simp_all
    from b(2) ga obtain x sh where s: "sign_and_send ma (es_stack st) ?tx (e_shell w\<lparr>sh_errno := False\<rparr>) = Inr (0, x, sh)"
        "val256 x = hex_val hs" "sh_out sh = sh_out (e_shell w)"
      unfolding same by blast
    have "\<exists>w'. erc20_transfer ma abi st [cmd, is, to_text, ds] w = Inr (0, w') \<and> e_tokens w' = e_tokens w \<and>
        e_shell w' = say (''0x'' @ digits 16 (val256 x) @ [LF]) sh"
      by (rule token_transfer_command [OF abi g _ _ h to(2) amount v])
        (use s(1) tok(5,6) mem in \<open>simp_all\<close>)
    with s(2,3) show "\<exists>w'. erc20_transfer ma abi st [cmd, is, to_text, ds] w = Inr (0, w') \<and> e_tokens w' = e_tokens w \<and>
         sh_out (e_shell w') = sh_out (e_shell w) @ ''0x'' @ digits 16 (hex_val hs) @ [LF]"
      by auto
  qed
qed

theorem erc20_transfer_sends_witness:
  "\<exists>w'. erc20_transfer demo_machine demo_abi demo_erc20_stack [''transfer'', ''0'', ''0x'' @ replicate 40 CHR ''1'', ''1500'']
      (demo_erc20 18) = Inr (0, w') \<and> sh_out (e_shell w') = ''0x2a'' @ [LF]"
proof -
  let ?to = "''0x'' @ replicate 40 CHR ''1''"
  let ?tkn = "new_token \<lparr>addr_a = replicate 20 3\<rparr> 18 ''TKN''"
  have "skip_0x ?to = replicate 40 CHR ''1''" by (simp add: skip_0x_def has_0x_def)
  moreover have "hex_bytes (replicate 40 CHR ''1'') = Some (replicate 20 0x11)" by (simp add: numeral_eq_Suc map_hex_def)
  ultimately have to_ok: "hex_bytes (skip_0x ?to) = Some (replicate 20 0x11)" by simp
  have ds: "decimal ''1500''" "dec_val ''1500'' = 1500" "decimal ''0''" "dec_val ''0'' = 0"
    by (simp_all add: decimal_def dec_val_def map_hex_def)
  have small: "dec_val ''0'' < 2 ^ on_lbits demo_machine" "dec_val ''0'' < 1" "dec_val ''1500'' < 2 ^ on_lbits demo_machine"
    using ds by (simp_all add: demo_machine_def)
  have tkn: "?tkn = e_tokens (demo_erc20 18) ! dec_val ''0''" "unat (tkn_decimals ?tkn) \<le> 19" "length (addr_a (tkn_address ?tkn)) = 20"
    using ds(4) by (simp_all add: demo_erc20_def tokens_init_def TOKENS_MAX_def new_token_def)
  have len: "length (es_datablk demo_erc20_stack) = 260" "length (replicate 20 (0x11::u8)) = 20"
    by (simp_all add: demo_erc20_stack_def)
  have ready: "shell_ready demo_machine (es_stack demo_erc20_stack) (e_shell (demo_erc20 18))"
    using demo_shell_ready by (simp add: demo_erc20_def demo_erc20_stack_def)
  have d: "good_reply (on_lbits demo_machine) demo_reply ''0'' ''2a''" "sh_out (e_shell (demo_erc20 18)) = []"
    using demo_good(1) by (simp_all add: demo_machine_def demo_erc20_def demo_shell_def)
  have ans: "answers (on_platform demo_machine) msg (document demo_reply)" for msg
    using demo_answers [OF demo_good(2)] by (simp add: demo_machine_def)
  have "digits 16 42 = ''2a''" by (simp add: digits_ge digits_less HEXDIGITS_def)
  with erc20_transfer_sends [OF demo_generated len(1) ds(3) small(1) demo_tokens small(2) tkn to_ok len(2) ds(1) small(3)
      ready HOL.refl demo_signs, of "''transfer''"] ans d demo_good(3)
  show ?thesis by fastforce
qed

end
