(* ===== verification/Protobuf.thy ===== *)
theory Protobuf
  imports HexBin
begin

text \<open>
  The encoding library of the Sawtooth part and the format it writes. \<open>nanopb\<close> (\<open>thirdparty/nanopb\<close>) is
  not part of the repository: its functions are the record \<open>nanopb\<close>, a parameter of the definitions,
  and \<open>pb_documented\<close> states what its documentation promises. The format of protocol buffers is the
  list of tagged fields \<open>proto\<close>, with the reader \<open>fields_of\<close>.
\<close>

section \<open>The interface of nanopb\<close>

text \<open>A field descriptor: the number and the kind of the field in the \<open>.proto\<close> file.\<close>

datatype pb_ltype = PB_STRING | PB_BYTES | PB_SUBMESSAGE | PB_VARINT

record pb_field_t =
  pb_tag :: nat
  pb_ltype :: pb_ltype

text \<open>An output stream over a buffer of \<open>max_size\<close> bytes, with the bytes written so far (\<open>bytes_written\<close> is their number).\<close>

record pb_ostream_t =
  max_size :: nat
  written :: "u8 list"

type_synonym pb_result = "(bool \<times> pb_ostream_t) outcome"

type_synonym pb_encoder = "pb_field_t \<Rightarrow> pb_ostream_t \<Rightarrow> pb_result"

text \<open>
  A message as its descriptors present it to the library: the fields by number, each with its encoder
  (\<open>None\<close> for a field that writes nothing: no callback is set, or a static field has its default value).
\<close>

type_synonym pb_message = "(pb_field_t \<times> pb_encoder option) list"

record nanopb =
  pb_write :: "u8 list \<Rightarrow> pb_ostream_t \<Rightarrow> bool \<times> pb_ostream_t"
  pb_encode_varint :: "u64 \<Rightarrow> pb_ostream_t \<Rightarrow> bool \<times> pb_ostream_t"
  pb_encode_tag_for_field :: "pb_field_t \<Rightarrow> pb_ostream_t \<Rightarrow> bool \<times> pb_ostream_t"
  pb_encode_string :: "u8 list \<Rightarrow> pb_ostream_t \<Rightarrow> bool \<times> pb_ostream_t"
  pb_encode_submessage :: "pb_message \<Rightarrow> pb_ostream_t \<Rightarrow> pb_result"
  pb_encode :: "pb_message \<Rightarrow> pb_ostream_t \<Rightarrow> pb_result"

text \<open>\<open>pb_ostream_from_buffer\<close>, and the buffer after the stream has been written to.\<close>

definition pb_ostream_from_buffer :: "nat \<Rightarrow> pb_ostream_t" where
  "pb_ostream_from_buffer bufsize = \<lparr>max_size = bufsize, written = []\<rparr>"

text \<open>\<open>if(!f(stream)) { return false; } \<dots>\<close>, also written with \<open>&&\<close> in the code.\<close>

definition and_then :: "bool \<times> pb_ostream_t \<Rightarrow> (pb_ostream_t \<Rightarrow> pb_result) \<Rightarrow> pb_result" where
  "and_then r k = (case r of (ok, s) \<Rightarrow> if ok then k s else Inr (False, s))"

definition and_thenE :: "pb_result \<Rightarrow> (pb_ostream_t \<Rightarrow> pb_result) \<Rightarrow> pb_result" where
  "and_thenE r k = bindE r (\<lambda>r. and_then r k)"

text \<open>A loop over indices that stops at the first failure.\<close>

fun each :: "(nat \<Rightarrow> pb_ostream_t \<Rightarrow> pb_result) \<Rightarrow> nat list \<Rightarrow> pb_ostream_t \<Rightarrow> pb_result" where
  "each f [] s = Inr (True, s)"
| "each f (i # is) s = and_thenE (f i s) (each f is)"

section \<open>The format\<close>

fun varint :: "nat \<Rightarrow> u8 list" where
  "varint n = (if n < 128 then [of_nat n] else of_nat (n mod 128 + 128) # varint (n div 128))"

declare varint.simps [simp del]

text \<open>A field of wire type 2 (strings, bytes and messages): key, length and contents.\<close>

definition delimited :: "nat \<Rightarrow> u8 list \<Rightarrow> u8 list" where
  "delimited tag bs = varint (tag * 8 + 2) @ varint (length bs) @ bs"

definition proto :: "(nat \<times> u8 list) list \<Rightarrow> u8 list" where
  "proto fs = concat (map (\<lambda>(tag, bs). delimited tag bs) fs)"

fun read_varint :: "u8 list \<Rightarrow> (nat \<times> u8 list) option" where
  "read_varint [] = None"
| "read_varint (b # bs) =
    (if unat b < 128 then Some (unat b, bs)
     else (case read_varint bs of None \<Rightarrow> None | Some (n, bs') \<Rightarrow> Some (unat b - 128 + 128 * n, bs')))"

lemma read_varint_shorter: "read_varint bs = Some (n, bs') \<Longrightarrow> length bs' < length bs"
proof (induction bs arbitrary: n)
  case (Cons b bs)
  then show ?case by (force split: if_splits option.splits)
qed simp

text \<open>The reader: the fields of a message, all of wire type 2.\<close>

function fields_of :: "u8 list \<Rightarrow> (nat \<times> u8 list) list option" where
  "fields_of bs =
    (if bs = [] then Some []
     else (case read_varint bs of None \<Rightarrow> None
       | Some (key, bs1) \<Rightarrow>
         if key mod 8 \<noteq> 2 then None
         else (case read_varint bs1 of None \<Rightarrow> None
           | Some (n, bs2) \<Rightarrow>
             if length bs2 < n then None
             else (case fields_of (drop n bs2) of None \<Rightarrow> None
               | Some fs \<Rightarrow> Some ((key div 8, take n bs2) # fs)))))"
  by pat_completeness auto
termination
  by (relation "measure length") (auto dest!: read_varint_shorter)

declare fields_of.simps [simp del]

lemma read_varint_varint [simp]: "read_varint (varint n @ bs) = Some (n, bs)"
proof (induction n rule: varint.induct)
  case (1 n)
  show ?case
  proof (cases "n < 128")
    case True
    then show ?thesis by (subst varint.simps) (simp add: unat_of_nat_u8)
  next
    case False
    have "unat (of_nat (n mod 128 + 128) :: u8) = n mod 128 + 128" by (simp only: unat_of_nat_u8) simp
    with False 1 show ?thesis by (subst varint.simps) simp
  qed
qed

lemma varint_not_Nil [simp]: "varint n \<noteq> []"
  by (subst varint.simps) simp

lemma fields_of_Nil [simp]: "fields_of [] = Some []"
  by (subst fields_of.simps) simp

lemma fields_of_delimited [simp]:
  "fields_of (delimited tag bs @ rest) =
    (case fields_of rest of None \<Rightarrow> None | Some fs \<Rightarrow> Some ((tag, bs) # fs))"
proof -
  define key where "key = tag * 8 + 2"
  have "key mod 8 = 2" unfolding key_def by (simp only: mod_mult_self3) simp
  moreover have "key div 8 = tag" unfolding key_def using div_mult_self3 [of 8 tag 2] by simp
  ultimately show ?thesis
    by (subst fields_of.simps) (simp add: delimited_def flip: key_def del: add_2_eq_Suc' add_2_eq_Suc split: option.split)
qed

lemma fields_of_proto [simp]: "fields_of (proto fs) = Some fs"
  by (induction fs) (auto simp: proto_def)

lemma proto_Nil [simp]: "proto [] = []"
  by (simp add: proto_def)

lemma proto_Cons: "proto ((tag, bs) # fs) = delimited tag bs @ proto fs"
  by (simp add: proto_def)

lemma proto_append: "proto (fs @ gs) = proto fs @ proto gs"
  by (simp add: proto_def)

lemma proto_inj: "proto fs = proto gs \<Longrightarrow> fs = gs"
  by (metis fields_of_proto option.inject)

section \<open>What nanopb documents\<close>

text \<open>
  An encoder that writes \<open>bs\<close> when they fit, and otherwise fails without going past the buffer.
\<close>

definition emits :: "(pb_ostream_t \<Rightarrow> pb_result) \<Rightarrow> u8 list \<Rightarrow> bool" where
  "emits f bs \<longleftrightarrow> (\<forall>s. length (written s) \<le> max_size s \<longrightarrow>
     (if length (written s) + length bs \<le> max_size s then f s = Inr (True, s\<lparr>written := written s @ bs\<rparr>)
      else \<exists>s'. f s = Inr (False, s') \<and> max_size s' = max_size s \<and> length (written s') \<le> max_size s))"

text \<open>
  The documented behaviour: the writers append what they are given; a submessage is its length and the
  bytes its own encoding has; the fields of a message are encoded in order, until one fails.
\<close>

definition wire_type :: "pb_ltype \<Rightarrow> nat" where
  "wire_type t = (if t = PB_VARINT then 0 else 2)"

definition pb_documented :: "nanopb \<Rightarrow> bool" where
  "pb_documented pb \<longleftrightarrow>
     (\<forall>bs. emits (\<lambda>s. Inr (pb_write pb bs s)) bs) \<and>
     (\<forall>v. emits (\<lambda>s. Inr (pb_encode_varint pb v s)) (varint (unat v))) \<and>
     (\<forall>f. emits (\<lambda>s. Inr (pb_encode_tag_for_field pb f s)) (varint (pb_tag f * 8 + wire_type (pb_ltype f)))) \<and>
     (\<forall>bs. emits (\<lambda>s. Inr (pb_encode_string pb bs s)) (varint (length bs) @ bs)) \<and>
     (\<forall>m bs. emits (pb_encode pb m) bs \<longrightarrow> length bs < 2 ^ 31 \<longrightarrow> emits (pb_encode_submessage pb m) (varint (length bs) @ bs)) \<and>
     (\<forall>s. pb_encode pb [] s = Inr (True, s)) \<and>
     (\<forall>f m s. pb_encode pb ((f, None) # m) s = pb_encode pb m s) \<and>
     (\<forall>f cb m s. pb_encode pb ((f, Some cb) # m) s = and_thenE (cb f s) (pb_encode pb m))"

lemma pb_simps:
  assumes "pb_documented pb"
  shows "emits (\<lambda>s. Inr (pb_write pb bs s)) bs"
    "emits (\<lambda>s. Inr (pb_encode_varint pb v s)) (varint (unat v))"
    "emits (\<lambda>s. Inr (pb_encode_tag_for_field pb f s)) (varint (pb_tag f * 8 + wire_type (pb_ltype f)))"
    "emits (\<lambda>s. Inr (pb_encode_string pb bs s)) (varint (length bs) @ bs)"
    "emits (pb_encode pb m) bs \<Longrightarrow> length bs < 2 ^ 31 \<Longrightarrow> emits (pb_encode_submessage pb m) (varint (length bs) @ bs)"
    "pb_encode pb [] s = Inr (True, s)"
    "pb_encode pb ((f, None) # m) s = pb_encode pb m s"
    "pb_encode pb ((f, Some cb) # m) s = and_thenE (cb f s) (pb_encode pb m)"
  using assms unfolding pb_documented_def by blast+

section \<open>Writing in sequence\<close>

lemma emits_nothing: "emits (\<lambda>s. Inr (True, s)) []"
  by (simp add: emits_def)

lemma emits_room:
  "emits f bs \<Longrightarrow> length (written s) + length bs \<le> max_size s \<Longrightarrow> f s = Inr (True, s\<lparr>written := written s @ bs\<rparr>)"
  by (simp add: emits_def)

lemma emits_no_room:
  assumes "emits f bs" "length (written s) \<le> max_size s" "max_size s < length (written s) + length bs"
  obtains s' where "f s = Inr (False, s')" "max_size s' = max_size s" "length (written s') \<le> max_size s"
proof -
  from assms have "\<not> length (written s) + length bs \<le> max_size s" by linarith
  with assms(1,2) show ?thesis using that unfolding emits_def by metis
qed

lemma emits_then:
  assumes f: "emits f bs" and g: "emits g bs'"
  shows "emits (\<lambda>s. and_thenE (f s) g) (bs @ bs')"
proof -
  have "if length (written s) + length (bs @ bs') \<le> max_size s
      then and_thenE (f s) g = Inr (True, s\<lparr>written := written s @ bs @ bs'\<rparr>)
      else \<exists>s'. and_thenE (f s) g = Inr (False, s') \<and> max_size s' = max_size s \<and> length (written s') \<le> max_size s"
    if ok: "length (written s) \<le> max_size s" for s
  proof (cases "length (written s) + length bs \<le> max_size s")
    case True
    let ?s = "s\<lparr>written := written s @ bs\<rparr>"
    have fs: "f s = Inr (True, ?s)" using f True by (rule emits_room)
    then have fg: "and_thenE (f s) g = g ?s" by (simp add: and_thenE_def and_then_def)
    show ?thesis
    proof (cases "length (written s) + length (bs @ bs') \<le> max_size s")
      case True
      then have "g ?s = Inr (True, ?s\<lparr>written := written ?s @ bs'\<rparr>)" by (intro emits_room [OF g]) simp
      with True fg show ?thesis by simp
    next
      case False
      with \<open>length (written s) + length bs \<le> max_size s\<close> obtain s' where
        "g ?s = Inr (False, s')" "max_size s' = max_size ?s" "length (written s') \<le> max_size ?s"
        by (auto intro: emits_no_room [OF g, of ?s])
      with False fg show ?thesis by auto
    qed
  next
    case False
    with ok obtain s' where s': "f s = Inr (False, s')" "max_size s' = max_size s" "length (written s') \<le> max_size s"
      by (auto intro: emits_no_room [OF f, of s])
    then have "and_thenE (f s) g = Inr (False, s')" by (simp add: and_thenE_def and_then_def)
    with s' False show ?thesis by auto
  qed
  then show ?thesis by (simp add: emits_def)
qed

lemma and_thenE_Inr [simp]: "and_thenE (Inr r) k = and_then r k"
  by (simp add: and_thenE_def)

lemma emits_and_then:
  assumes "emits (\<lambda>s. Inr (f s)) bs" "emits g bs'"
  shows "emits (\<lambda>s. and_then (f s) g) (bs @ bs')"
  using emits_then [OF assms] by simp

lemma emits_each:
  assumes "\<And>i. i \<in> set is \<Longrightarrow> emits (f i) (b i)"
  shows "emits (each f is) (concat (map b is))"
  using assms
proof (induction "is")
  case Nil
  have "each f [] = (\<lambda>s. Inr (True, s))" by (rule ext) simp
  with emits_nothing show ?case by simp
next
  case (Cons i "is")
  have "each f (i # is) = (\<lambda>s. and_thenE (f i s) (each f is))" by (rule ext) simp
  with Cons emits_then [of "f i" "b i" "each f is"] show ?case by simp
qed

text \<open>The fields of a message, one after the other.\<close>

lemma emits_message:
  assumes pb: "pb_documented pb" and "list_all2 (\<lambda>(f, e) bs. case e of None \<Rightarrow> bs = [] | Some cb \<Rightarrow> emits (cb f) bs) m bss"
  shows "emits (pb_encode pb m) (concat bss)"
  using assms(2)
proof (induction rule: list_all2_induct)
  case Nil
  have "pb_encode pb [] = (\<lambda>s. Inr (True, s))" using pb_simps(6) [OF pb] by blast
  with emits_nothing show ?case by simp
next
  case (Cons fe m bs bss)
  obtain f e where fe: "fe = (f, e)" by (cases fe)
  show ?case
  proof (cases e)
    case None
    then have "pb_encode pb (fe # m) = pb_encode pb m" using fe pb_simps(7) [OF pb] by (intro ext) simp
    with None fe Cons show ?thesis by simp
  next
    case (Some cb)
    then have "pb_encode pb (fe # m) = (\<lambda>s. and_thenE (cb f s) (pb_encode pb m))"
      using fe pb_simps(8) [OF pb] by (intro ext) simp
    with Some fe Cons emits_then [of "cb f" bs "pb_encode pb m"] show ?thesis by simp
  qed
qed

section \<open>Messages with numbers\<close>

text \<open>A field holds a number (wire type 0) or bytes (wire type 2); the reader, as above.\<close>

datatype wire_value = Number nat | Bytes "u8 list"

fun wire_field :: "nat \<times> wire_value \<Rightarrow> u8 list" where
  "wire_field (tag, Number n) = varint (tag * 8) @ varint n"
| "wire_field (tag, Bytes bs) = delimited tag bs"

definition wire :: "(nat \<times> wire_value) list \<Rightarrow> u8 list" where
  "wire fs = concat (map wire_field fs)"

function read_wire :: "u8 list \<Rightarrow> (nat \<times> wire_value) list option" where
  "read_wire bs =
    (if bs = [] then Some []
     else (case read_varint bs of None \<Rightarrow> None
       | Some (key, bs1) \<Rightarrow>
         (case read_varint bs1 of None \<Rightarrow> None
           | Some (n, bs2) \<Rightarrow>
             if key mod 8 = 0 then map_option (Cons (key div 8, Number n)) (read_wire bs2)
             else if key mod 8 = 2 \<and> n \<le> length bs2 then
               map_option (Cons (key div 8, Bytes (take n bs2))) (read_wire (drop n bs2))
             else None)))"
  by pat_completeness auto
termination
  by (relation "measure length") (auto dest!: read_varint_shorter)

declare read_wire.simps [simp del]

lemma read_wire_field: "read_wire (wire_field f @ rest) = map_option (Cons f) (read_wire rest)"
proof (cases f)
  case (Pair tag v)
  show ?thesis
  proof (cases v)
    case (Number n)
    with Pair show ?thesis by (subst read_wire.simps) simp
  next
    case (Bytes bs)
    define key where "key = tag * 8 + 2"
    have "key mod 8 = 2" unfolding key_def by (simp only: mod_mult_self3) simp
    moreover have "key div 8 = tag" unfolding key_def using div_mult_self3 [of 8 tag 2] by simp
    ultimately show ?thesis using Pair Bytes
      by (subst read_wire.simps) (simp add: delimited_def flip: key_def del: add_2_eq_Suc' add_2_eq_Suc)
  qed
qed

lemma read_wire_wire [simp]: "read_wire (wire fs) = Some fs"
proof (induction fs)
  case Nil
  then show ?case by (simp add: wire_def read_wire.simps)
next
  case (Cons f fs)
  then show ?case using read_wire_field [of f "wire fs"] by (simp add: wire_def)
qed

lemma wire_Nil [simp]: "wire [] = []"
  by (simp add: wire_def)

lemma wire_Cons: "wire (f # fs) = wire_field f @ wire fs"
  by (simp add: wire_def)

lemma wire_append: "wire (fs @ gs) = wire fs @ wire gs"
  by (simp add: wire_def)

text \<open>Signed numbers are folded: the sign becomes the lowest bit.\<close>

definition zigzag :: "u64 \<Rightarrow> u64" where
  "zigzag v = (if sint v < 0 then NOT (v * 2) else v * 2)"

definition unzigzag :: "nat \<Rightarrow> int" where
  "unzigzag n = (if even n then int (n div 2) else - int (n div 2) - 1)"

lemma unzigzag_zigzag [simp]: "unzigzag (unat (zigzag v)) = sint v"
proof -
  have b: "- (2 ^ 63) \<le> sint v" "sint v < 2 ^ 63" using sint_greater_eq [of v] sint_less [of v] by simp_all
  show ?thesis
  proof (cases "sint v < 0")
    case True
    define m where "m = nat (- sint v - 1)"
    have m: "sint v = - int m - 1" "m < 2 ^ 63" using True b by (simp_all add: m_def)
    have "v = of_int (- int m - 1)" unfolding m(1) [symmetric] by simp
    then have "NOT (v * 2) = of_nat (2 * m + 1)" by (simp only: not_eq_complement) (simp add: algebra_simps)
    then have "unat (zigzag v) = 2 * m + 1" using True m(2) by (simp only: zigzag_def if_True unat_of_nat) simp
    then show ?thesis using m(1) by (simp add: unzigzag_def)
  next
    case False
    define m where "m = nat (sint v)"
    have m: "sint v = int m" "m < 2 ^ 63" using False b by (simp_all add: m_def)
    have "v = of_int (int m)" unfolding m(1) [symmetric] by simp
    then have "v * 2 = of_nat (2 * m)" by simp
    then have "unat (zigzag v) = 2 * m" using False m(2) by (simp only: zigzag_def if_False unat_of_nat) simp
    then show ?thesis using m(1) by (simp add: unzigzag_def)
  qed
qed

end
