(* ===== verification/Sawtooth.thy ===== *)
theory Sawtooth
  imports Protobuf Sign
begin

text \<open>
  \<open>sawtooth/encoders.c\<close> and \<open>sawtooth/st_transaction.c\<close>: Sawtooth transactions and batches, encoded with
  nanopb and signed. The hash functions and the curve are those of trezor-crypto, as in \<open>eth/sign.c\<close>.
  The field numbers are those of \<open>sawtooth/protos\<close>.
\<close>

section \<open>Definitions\<close>

text \<open>Arrays of bytes are lists of their length (65, 35, 65 and 32 bytes). A list of addresses is a pointer and a size.\<close>

definition ST_PUBKEY_SIZE :: nat where "ST_PUBKEY_SIZE = 65"
definition FAMILY_NAME_MAX :: nat where "FAMILY_NAME_MAX = 16"
definition FAMILY_VERSION_MAX :: nat where "FAMILY_VERSION_MAX = 4"
definition NONCE_MAX :: nat where "NONCE_MAX = 4"
definition SHA_512_SIZE :: nat where "SHA_512_SIZE = 64"
definition ST_ADDRESS_SIZE :: nat where "ST_ADDRESS_SIZE = 32 + 3"
definition ST_SIGNATURE_SIZE :: nat where "ST_SIGNATURE_SIZE = 64 + 1"

record st_pubkey_t = st_k :: "u8 list"

record st_address_t = st_a :: "u8 list"

record st_signature_t = st_s :: "u8 list"

record st_address_lst_t =
  al_lst :: "st_address_t list"
  al_size :: nat

record st_payload_t =
  pl_buf :: "u8 list"
  pl_size :: nat

record st_tx_hdr_t =
  hdr_batcher_pubkey :: st_pubkey_t
  hdr_dependencies :: st_address_lst_t
  hdr_family_name :: "u8 list"
  hdr_family_version :: "u8 list"
  hdr_inputs :: st_address_lst_t
  hdr_nonce :: "u8 list"
  hdr_outputs :: st_address_lst_t
  hdr_payload_sha512 :: "u8 list"
  hdr_signer_pubkey :: st_pubkey_t

record st_tx_t =
  st_header :: st_tx_hdr_t
  st_header_signature :: st_signature_t
  st_payload :: st_payload_t

record st_tx_lst_t =
  tl_lst :: "st_tx_t list"
  tl_size :: nat

record st_batch_hdr_data_t =
  bh_tx_lst :: st_tx_lst_t
  bh_signer_pubkey :: st_pubkey_t

text \<open>
  What the argument of an encoder (a \<open>void *\<close>) points to; reading it as something else is undefined.
  \<open>P_messages\<close> is an array, with its size, of messages of another \<open>.proto\<close> file as their descriptors present them.
\<close>

datatype pointee =
    P_bytes "u8 list"
  | P_addresses st_address_lst_t
  | P_payload st_payload_t
  | P_header st_tx_hdr_t
  | P_tx st_tx_t
  | P_txs st_tx_lst_t
  | P_batch_hdr st_batch_hdr_data_t
  | P_messages "pb_message list" nat

type_synonym void_ptr = "pointee option"

fun as_bytes :: "void_ptr \<Rightarrow> u8 list outcome" where
  "as_bytes (Some (P_bytes b)) = Inr b" | "as_bytes _ = Inl Undefined"

fun as_addresses :: "void_ptr \<Rightarrow> st_address_lst_t outcome" where
  "as_addresses (Some (P_addresses l)) = Inr l" | "as_addresses _ = Inl Undefined"

fun as_payload :: "void_ptr \<Rightarrow> st_payload_t outcome" where
  "as_payload (Some (P_payload p)) = Inr p" | "as_payload _ = Inl Undefined"

fun as_header :: "void_ptr \<Rightarrow> st_tx_hdr_t outcome" where
  "as_header (Some (P_header h)) = Inr h" | "as_header _ = Inl Undefined"

fun as_tx :: "void_ptr \<Rightarrow> st_tx_t outcome" where
  "as_tx (Some (P_tx t)) = Inr t" | "as_tx _ = Inl Undefined"

fun as_txs :: "void_ptr \<Rightarrow> st_tx_lst_t outcome" where
  "as_txs (Some (P_txs l)) = Inr l" | "as_txs _ = Inl Undefined"

fun as_messages :: "void_ptr \<Rightarrow> (pb_message list \<times> nat) outcome" where
  "as_messages (Some (P_messages ms n)) = Inr (ms, n)" | "as_messages _ = Inl Undefined"

fun as_batch_hdr :: "void_ptr \<Rightarrow> st_batch_hdr_data_t outcome" where
  "as_batch_hdr (Some (P_batch_hdr d)) = Inr d" | "as_batch_hdr _ = Inl Undefined"

text \<open>An element of a list behind a pointer, and the length of a C string in an array.\<close>

definition elem :: "'a list \<Rightarrow> nat \<Rightarrow> 'a outcome" where
  "elem xs i = (if i < length xs then Inr (xs ! i) else Inl Out_of_bounds)"

definition strlen_in :: "u8 list \<Rightarrow> nat outcome" where
  "strlen_in bs = (if 0 \<in> set bs then Inr (length (takeWhile (\<lambda>b. b \<noteq> 0) bs)) else Inl Out_of_bounds)"

text \<open>\<open>pb_callback_t\<close>: the encoder in \<open>funcs.encode\<close> and its argument.\<close>

type_synonym encode_fun = "void_ptr \<Rightarrow> pb_encoder"

record pb_callback_t =
  cb_encode :: "encode_fun option"
  cb_arg :: void_ptr

definition callback_zero :: pb_callback_t where
  "callback_zero = \<lparr>cb_encode = None, cb_arg = None\<rparr>"

text \<open>The message structs generated from \<open>transaction.proto\<close> and \<open>batch.proto\<close>, in the order of the field numbers.\<close>

record TransactionHeader =
  batcher_public_key :: pb_callback_t
  dependencies :: pb_callback_t
  family_name :: pb_callback_t
  family_version :: pb_callback_t
  inputs :: pb_callback_t
  nonce :: pb_callback_t
  outputs :: pb_callback_t
  payload_sha512 :: pb_callback_t
  signer_public_key :: pb_callback_t

record Transaction =
  tx_header :: pb_callback_t
  tx_header_signature :: pb_callback_t
  tx_payload :: pb_callback_t

record TransactionList =
  tl_transactions :: pb_callback_t

record BatchHeader =
  bh_signer_public_key :: pb_callback_t
  bh_transaction_ids :: pb_callback_t

record Batch =
  b_header :: pb_callback_t
  b_header_signature :: pb_callback_t
  b_transactions :: pb_callback_t
  b_trace :: bool

definition fld :: "nat \<Rightarrow> pb_ltype \<Rightarrow> pb_callback_t \<Rightarrow> pb_field_t \<times> pb_encoder option" where
  "fld tag t cb = (\<lparr>pb_tag = tag, pb_ltype = t\<rparr>, map_option (\<lambda>f. f (cb_arg cb)) (cb_encode cb))"

definition TransactionHeader_fields :: "TransactionHeader \<Rightarrow> pb_message" where
  "TransactionHeader_fields th =
    [fld 1 PB_STRING (batcher_public_key th), fld 2 PB_STRING (dependencies th), fld 3 PB_STRING (family_name th),
     fld 4 PB_STRING (family_version th), fld 5 PB_STRING (inputs th), fld 6 PB_STRING (nonce th),
     fld 7 PB_STRING (outputs th), fld 9 PB_STRING (payload_sha512 th), fld 10 PB_STRING (signer_public_key th)]"

definition Transaction_fields :: "Transaction \<Rightarrow> pb_message" where
  "Transaction_fields tx =
    [fld 1 PB_BYTES (tx_header tx), fld 2 PB_STRING (tx_header_signature tx), fld 3 PB_BYTES (tx_payload tx)]"

definition TransactionList_fields :: "TransactionList \<Rightarrow> pb_message" where
  "TransactionList_fields l = [fld 1 PB_SUBMESSAGE (tl_transactions l)]"

definition BatchHeader_fields :: "BatchHeader \<Rightarrow> pb_message" where
  "BatchHeader_fields bh = [fld 1 PB_STRING (bh_signer_public_key bh), fld 2 PB_STRING (bh_transaction_ids bh)]"

text \<open>A static \<open>bool\<close> that is false is not encoded; the code never sets \<open>trace\<close>.\<close>

definition Batch_fields :: "nanopb \<Rightarrow> Batch \<Rightarrow> pb_message" where
  "Batch_fields pb b =
    [fld 1 PB_BYTES (b_header b), fld 2 PB_STRING (b_header_signature b), fld 3 PB_SUBMESSAGE (b_transactions b),
     (\<lparr>pb_tag = 4, pb_ltype = PB_VARINT\<rparr>,
      if b_trace b then Some (\<lambda>f s. and_then (pb_encode_tag_for_field pb f s) (\<lambda>s. Inr (pb_encode_varint pb 1 s))) else None)]"

text \<open>\<open>encoders.c\<close>. The macro \<open>PB_WRITE_BYTES(x)\<close>: \<open>x\<close> bytes as a string of hexadecimal digits.\<close>

definition write_bytes_hex :: "nanopb \<Rightarrow> nat \<Rightarrow> encode_fun" where
  "write_bytes_hex pb x arg field stream =
    and_then (pb_encode_tag_for_field pb field stream) (\<lambda>stream.
    and_then (pb_encode_varint pb (of_nat x * 2) stream) (\<lambda>stream.
    each (\<lambda>i stream.
      bindE (as_bytes arg) (\<lambda>a.
      bindE (bintohex_nonull (Some (drop i a)) 1 (replicate 2 (CHR 0x00)) 2) (\<lambda>(_, out_buf).
      Inr (pb_write pb (string_bytes out_buf) stream)))) [0..<x] stream))"

definition write_pubkey :: "nanopb \<Rightarrow> encode_fun" where
  "write_pubkey pb arg field stream = write_bytes_hex pb 65 arg field stream"

definition write_string :: "nanopb \<Rightarrow> encode_fun" where
  "write_string pb arg field stream =
    (if arg = None then Inr (True, stream)
     else and_then (pb_encode_tag_for_field pb field stream) (\<lambda>stream.
       bindE (as_bytes arg) (\<lambda>a.
       bindE (strlen_in a) (\<lambda>n. Inr (pb_encode_string pb (take n a) stream)))))"

definition write_address_list :: "nanopb \<Rightarrow> encode_fun" where
  "write_address_list pb arg field stream =
    bindE (as_addresses arg) (\<lambda>lst.
    each (\<lambda>i stream. bindE (elem (al_lst lst) i) (\<lambda>a. write_bytes_hex pb 35 (Some (P_bytes (st_a a))) field stream))
      [0..<al_size lst] stream)"

definition write_input_list :: "nanopb \<Rightarrow> encode_fun" where
  "write_input_list pb arg field stream =
    bindE (as_addresses arg) (\<lambda>lst.
    each (\<lambda>i stream. bindE (elem (al_lst lst) i) (\<lambda>a. write_bytes_hex pb 3 (Some (P_bytes (st_a a))) field stream))
      [0..<al_size lst] stream)"

definition write_bytes :: "nanopb \<Rightarrow> encode_fun" where
  "write_bytes pb arg field stream =
    bindE (as_payload arg) (\<lambda>pl.
    and_then (pb_encode_tag_for_field pb field stream) (\<lambda>stream.
    and_then (pb_encode_varint pb (of_nat (pl_size pl)) stream) (\<lambda>stream.
    bindE (read_at (pl_buf pl) 0 (pl_size pl)) (\<lambda>bs. Inr (pb_write pb bs stream)))))"

definition write_payload :: "nanopb \<Rightarrow> encode_fun" where
  "write_payload pb arg field stream = write_bytes pb arg field stream"

text \<open>The argument of \<open>write_varint\<close> is the number itself, cast to \<open>long\<close>.\<close>

definition write_varint :: "nanopb \<Rightarrow> int \<Rightarrow> pb_encoder" where
  "write_varint pb arg field stream =
    and_then (pb_encode_tag_for_field pb field stream) (\<lambda>stream. Inr (pb_encode_varint pb (of_int arg) stream))"

definition set_encode :: "encode_fun \<Rightarrow> pb_callback_t \<Rightarrow> pb_callback_t" where
  "set_encode f cb = cb\<lparr>cb_encode := Some f\<rparr>"

definition set_arg :: "pointee \<Rightarrow> pb_callback_t \<Rightarrow> pb_callback_t" where
  "set_arg p cb = cb\<lparr>cb_arg := Some p\<rparr>"

definition TransactionHeader_init_zero :: TransactionHeader where
  "TransactionHeader_init_zero = \<lparr>batcher_public_key = callback_zero, dependencies = callback_zero,
     family_name = callback_zero, family_version = callback_zero, inputs = callback_zero, nonce = callback_zero,
     outputs = callback_zero, payload_sha512 = callback_zero, signer_public_key = callback_zero\<rparr>"

definition TransactionHeader_init_encoder :: "nanopb \<Rightarrow> TransactionHeader \<Rightarrow> TransactionHeader" where
  "TransactionHeader_init_encoder pb th = th\<lparr>
     nonce := set_encode (write_string pb) (nonce th),
     family_name := set_encode (write_string pb) (family_name th),
     family_version := set_encode (write_string pb) (family_version th),
     payload_sha512 := set_encode (write_bytes_hex pb 64) (payload_sha512 th),
     signer_public_key := set_encode (write_pubkey pb) (signer_public_key th),
     batcher_public_key := set_encode (write_bytes_hex pb 33) (batcher_public_key th),
     inputs := set_encode (write_input_list pb) (inputs th),
     outputs := set_encode (write_input_list pb) (outputs th),
     dependencies := set_encode (write_address_list pb) (dependencies th)\<rparr>"

text \<open>The header with its encoders and arguments, as \<open>write_tx_header\<close> and \<open>st_encode_header\<close> set it up.\<close>

definition header_message :: "nanopb \<Rightarrow> st_tx_hdr_t \<Rightarrow> TransactionHeader" where
  "header_message pb header =
    (let hdr = TransactionHeader_init_encoder pb TransactionHeader_init_zero in hdr\<lparr>
       batcher_public_key := set_arg (P_bytes (st_k (hdr_batcher_pubkey header))) (batcher_public_key hdr),
       family_name := set_arg (P_bytes (hdr_family_name header)) (family_name hdr),
       family_version := set_arg (P_bytes (hdr_family_version header)) (family_version hdr),
       nonce := set_arg (P_bytes (hdr_nonce header)) (nonce hdr),
       payload_sha512 := set_arg (P_bytes (hdr_payload_sha512 header)) (payload_sha512 hdr),
       signer_public_key := set_arg (P_bytes (st_k (hdr_signer_pubkey header))) (signer_public_key hdr),
       inputs := set_arg (P_addresses (hdr_inputs header)) (inputs hdr),
       outputs := set_arg (P_addresses (hdr_outputs header)) (outputs hdr),
       dependencies := set_arg (P_addresses (hdr_dependencies header)) (dependencies hdr)\<rparr>)"

definition write_tx_header :: "nanopb \<Rightarrow> encode_fun" where
  "write_tx_header pb arg field stream =
    bindE (as_header arg) (\<lambda>header.
    let hdr = header_message pb header in
    and_then (pb_encode_tag_for_field pb field stream) (pb_encode_submessage pb (TransactionHeader_fields hdr)))"

definition write_transaction_ids :: "nanopb \<Rightarrow> encode_fun" where
  "write_transaction_ids pb arg field stream =
    bindE (as_txs arg) (\<lambda>lst.
    each (\<lambda>i stream. bindE (elem (tl_lst lst) i) (\<lambda>tx.
        write_bytes_hex pb 64 (Some (P_bytes (st_s (st_header_signature tx)))) field stream))
      [0..<tl_size lst] stream)"

definition BatchHeader_init_default :: BatchHeader where
  "BatchHeader_init_default = \<lparr>bh_signer_public_key = callback_zero, bh_transaction_ids = callback_zero\<rparr>"

definition BatchHeader_init_encoder :: "nanopb \<Rightarrow> BatchHeader \<Rightarrow> BatchHeader" where
  "BatchHeader_init_encoder pb bh = bh\<lparr>
     bh_signer_public_key := set_encode (write_pubkey pb) (bh_signer_public_key bh),
     bh_transaction_ids := set_encode (write_transaction_ids pb) (bh_transaction_ids bh)\<rparr>"

definition batch_header_message :: "nanopb \<Rightarrow> st_tx_lst_t \<Rightarrow> st_pubkey_t \<Rightarrow> BatchHeader" where
  "batch_header_message pb tx_lst signer_pubkey =
    (let hdr = BatchHeader_init_encoder pb BatchHeader_init_default in hdr\<lparr>
       bh_transaction_ids := set_arg (P_txs tx_lst) (bh_transaction_ids hdr),
       bh_signer_public_key := set_arg (P_bytes (st_k signer_pubkey)) (bh_signer_public_key hdr)\<rparr>)"

definition write_batch_header :: "nanopb \<Rightarrow> encode_fun" where
  "write_batch_header pb arg field stream =
    bindE (as_batch_hdr arg) (\<lambda>hdr_data.
    let hdr = batch_header_message pb (bh_tx_lst hdr_data) (bh_signer_pubkey hdr_data) in
    and_then (pb_encode_tag_for_field pb field stream) (pb_encode_submessage pb (BatchHeader_fields hdr)))"

definition Transaction_init_zero :: Transaction where
  "Transaction_init_zero = \<lparr>tx_header = callback_zero, tx_header_signature = callback_zero, tx_payload = callback_zero\<rparr>"

definition Transaction_init_encoder :: "nanopb \<Rightarrow> Transaction \<Rightarrow> Transaction" where
  "Transaction_init_encoder pb tx = tx\<lparr>
     tx_header_signature := set_encode (write_bytes_hex pb 64) (tx_header_signature tx),
     tx_payload := set_encode (write_payload pb) (tx_payload tx),
     tx_header := set_encode (write_tx_header pb) (tx_header tx)\<rparr>"

definition transaction_message :: "nanopb \<Rightarrow> st_tx_t \<Rightarrow> Transaction" where
  "transaction_message pb tx =
    (let tx_proto = Transaction_init_encoder pb Transaction_init_zero in tx_proto\<lparr>
       tx_header_signature := set_arg (P_bytes (st_s (st_header_signature tx))) (tx_header_signature tx_proto),
       tx_payload := set_arg (P_payload (st_payload tx)) (tx_payload tx_proto),
       tx_header := set_arg (P_header (st_header tx)) (tx_header tx_proto)\<rparr>)"

definition write_transaction :: "nanopb \<Rightarrow> encode_fun" where
  "write_transaction pb arg field stream =
    bindE (as_tx arg) (\<lambda>tx.
    let tx_proto = transaction_message pb tx in
    and_then (pb_encode_tag_for_field pb field stream) (pb_encode_submessage pb (Transaction_fields tx_proto)))"

definition write_transactions :: "nanopb \<Rightarrow> encode_fun" where
  "write_transactions pb arg field stream =
    bindE (as_txs arg) (\<lambda>lst.
    each (\<lambda>i stream. bindE (elem (tl_lst lst) i) (\<lambda>tx. write_transaction pb (Some (P_tx tx)) field stream))
      [0..<tl_size lst] stream)"

definition Batch_init_default :: Batch where
  "Batch_init_default = \<lparr>b_header = callback_zero, b_header_signature = callback_zero,
     b_transactions = callback_zero, b_trace = False\<rparr>"

definition Batch_init_encoder :: "nanopb \<Rightarrow> Batch \<Rightarrow> Batch" where
  "Batch_init_encoder pb batch = batch\<lparr>
     b_header := set_encode (write_batch_header pb) (b_header batch),
     b_header_signature := set_encode (write_bytes_hex pb 64) (b_header_signature batch),
     b_transactions := set_encode (write_transactions pb) (b_transactions batch)\<rparr>"

definition TransactionList_init_zero :: TransactionList where
  "TransactionList_init_zero = \<lparr>tl_transactions = callback_zero\<rparr>"

definition TransactionList_init_encoder :: "nanopb \<Rightarrow> TransactionList \<Rightarrow> TransactionList" where
  "TransactionList_init_encoder pb tx_lst =
     tx_lst\<lparr>tl_transactions := set_encode (write_transactions pb) (tl_transactions tx_lst)\<rparr>"

text \<open>\<open>st_transaction.c\<close>. \<open>return stream.bytes_written\<close> converts a \<open>size_t\<close> to \<open>int\<close>.\<close>

definition encode_into :: "nanopb \<Rightarrow> pb_message \<Rightarrow> u8 list \<Rightarrow> nat \<Rightarrow> (int \<times> u8 list) outcome" where
  "encode_into pb m buf buf_size =
    bindE (pb_encode pb m (pb_ostream_from_buffer buf_size)) (\<lambda>(ok, stream).
    bindE (write_at buf 0 (written stream)) (\<lambda>buf.
    if \<not> ok then Inr (-1, buf) else Inr (sint (of_nat (length (written stream)) :: u32), buf)))"

definition st_encode_header :: "nanopb \<Rightarrow> st_tx_hdr_t \<Rightarrow> u8 list \<Rightarrow> nat \<Rightarrow> (int \<times> u8 list) outcome" where
  "st_encode_header pb header buf buf_size =
    encode_into pb (TransactionHeader_fields (header_message pb header)) buf buf_size"

definition st_encode_tx :: "nanopb \<Rightarrow> st_tx_t \<Rightarrow> u8 list \<Rightarrow> nat \<Rightarrow> (int \<times> u8 list) outcome" where
  "st_encode_tx pb tx buf buf_size = encode_into pb (Transaction_fields (transaction_message pb tx)) buf buf_size"

definition st_sign_data_rawsig ::
    "(u8 list \<Rightarrow> u8 list) \<Rightarrow> ecdsa_sign \<Rightarrow> u8 list \<Rightarrow> u8 list \<Rightarrow> nat \<Rightarrow> u8 list \<Rightarrow> (int \<times> u8 list) outcome" where
  "st_sign_data_rawsig sha256 ecdsa_sign privkey data data_size signature =
    bindE (read_at data 0 data_size) (\<lambda>d.
    let digest = sha256 d; (rs, pby) = ecdsa_sign privkey digest in
    bindE (write_at signature 0 rs) (\<lambda>signature.
    bindE (write_at signature 64 [pby + 27]) (\<lambda>signature. Inr (0, signature))))"

definition st_sign_tx ::
    "nanopb \<Rightarrow> (u8 list \<Rightarrow> u8 list) \<Rightarrow> (u8 list \<Rightarrow> u8 list) \<Rightarrow> ecdsa_sign \<Rightarrow> st_tx_t \<Rightarrow> u8 list \<Rightarrow> u8 list \<Rightarrow> nat \<Rightarrow>
     (int \<times> st_tx_t \<times> u8 list) outcome" where
  "st_sign_tx pb sha512 sha256 ecdsa_sign tx privkey buf buf_size =
    bindE (read_at (pl_buf (st_payload tx)) 0 (pl_size (st_payload tx))) (\<lambda>payload.
    bindE (write_at (hdr_payload_sha512 (st_header tx)) 0 (sha512 payload)) (\<lambda>hash.
    let tx = tx\<lparr>st_header := st_header tx\<lparr>hdr_payload_sha512 := hash\<rparr>\<rparr> in
    bindE (st_encode_header pb (st_header tx) buf buf_size) (\<lambda>(ret, buf).
    if ret \<le> 0 then Inr (-1, tx, buf)
    else bindE (st_sign_data_rawsig sha256 ecdsa_sign privkey buf (nat ret) (st_s (st_header_signature tx)))
      (\<lambda>(r, signature).
      let tx = tx\<lparr>st_header_signature := \<lparr>st_s = signature\<rparr>\<rparr> in
      if r \<noteq> 0 then Inr (-1, tx, buf) else Inr (0, tx, buf)))))"

definition st_encode_batch_header ::
    "nanopb \<Rightarrow> st_tx_t list \<Rightarrow> nat \<Rightarrow> st_pubkey_t \<Rightarrow> u8 list \<Rightarrow> nat \<Rightarrow> (int \<times> u8 list) outcome" where
  "st_encode_batch_header pb transactions transactions_size signer_pubkey buf buf_size =
    (let tx_lst = \<lparr>tl_lst = transactions, tl_size = transactions_size\<rparr> in
     encode_into pb (BatchHeader_fields (batch_header_message pb tx_lst signer_pubkey)) buf buf_size)"

text \<open>
  \<open>bits\<close> is the width of \<open>size_t\<close>, \<open>header_signature\<close> the uninitialised local array. \<open>header_size\<close> is
  unsigned, so a failure of \<open>st_encode_batch_header\<close> is a large number here.
\<close>

definition st_encode_batch ::
    "nanopb \<Rightarrow> nat \<Rightarrow> keccak \<Rightarrow> ecdsa_sign \<Rightarrow> u8 list \<Rightarrow> st_tx_t list \<Rightarrow> nat \<Rightarrow> u8 list \<Rightarrow> st_pubkey_t \<Rightarrow> u8 list \<Rightarrow> nat \<Rightarrow>
     (int \<times> u8 list) outcome" where
  "st_encode_batch pb bits keccak ecdsa_sign header_signature transactions transactions_size batcher_privkey signer_pubkey buf buf_size =
    (let batch = Batch_init_encoder pb Batch_init_default;
         pubk = \<lparr>st_k = replicate 65 0\<rparr> in
     bindE (st_encode_batch_header pb transactions transactions_size pubk buf buf_size) (\<lambda>(ret, buf).
     let header_size = nat (ret mod 2 ^ bits) in
     if header_size = 0 then Inr (-1, buf)
     else if header_size \<ge> buf_size then Inr (-1, buf)
     else bindE (eth_sign_data_rawsig keccak ecdsa_sign batcher_privkey buf header_size header_signature)
       (\<lambda>(ret, header_signature).
       if ret \<noteq> 0 then Inr (-1, buf)
       else
         let tx_lst = \<lparr>tl_lst = transactions, tl_size = transactions_size\<rparr>;
             bh_data = \<lparr>bh_tx_lst = tx_lst, bh_signer_pubkey = signer_pubkey\<rparr>;
             batch = batch\<lparr>
               b_header := set_arg (P_batch_hdr bh_data) (b_header batch),
               b_header_signature := set_arg (P_bytes header_signature) (b_header_signature batch),
               b_transactions := set_arg (P_txs tx_lst) (b_transactions batch)\<rparr>
         in encode_into pb (Batch_fields pb batch) buf buf_size)))"

definition st_encode_tx_list :: "nanopb \<Rightarrow> st_tx_t list \<Rightarrow> nat \<Rightarrow> u8 list \<Rightarrow> nat \<Rightarrow> (int \<times> u8 list) outcome" where
  "st_encode_tx_list pb transactions transactions_size buf buf_size =
    (let tx_lst_proto = TransactionList_init_encoder pb TransactionList_init_zero;
         tx_lst = \<lparr>tl_lst = transactions, tl_size = transactions_size\<rparr>;
         tx_lst_proto = tx_lst_proto\<lparr>tl_transactions := set_arg (P_txs tx_lst) (tl_transactions tx_lst_proto)\<rparr>
     in encode_into pb (TransactionList_fields tx_lst_proto) buf buf_size)"

section \<open>What the encoders write\<close>

text \<open>Bytes as a string of hexadecimal digits, and the text of a C string in an array.\<close>

definition hexb :: "u8 list \<Rightarrow> u8 list" where
  "hexb bs = string_bytes (hex_text bs)"

definition text_of :: "u8 list \<Rightarrow> u8 list" where
  "text_of bs = takeWhile (\<lambda>b. b \<noteq> 0) bs"

definition addresses :: "st_address_lst_t \<Rightarrow> u8 list list" where
  "addresses l = map st_a (take (al_size l) (al_lst l))"

text \<open>The fields of the messages, as lists of field number and contents.\<close>

definition header_fields :: "st_tx_hdr_t \<Rightarrow> (nat \<times> u8 list) list" where
  "header_fields h =
    [(1, hexb (take 33 (st_k (hdr_batcher_pubkey h))))] @
    map (\<lambda>a. (2, hexb (take 35 a))) (addresses (hdr_dependencies h)) @
    [(3, text_of (hdr_family_name h)), (4, text_of (hdr_family_version h))] @
    map (\<lambda>a. (5, hexb (take 3 a))) (addresses (hdr_inputs h)) @
    [(6, text_of (hdr_nonce h))] @
    map (\<lambda>a. (7, hexb (take 3 a))) (addresses (hdr_outputs h)) @
    [(9, hexb (hdr_payload_sha512 h)), (10, hexb (st_k (hdr_signer_pubkey h)))]"

definition st_tx_fields :: "st_tx_t \<Rightarrow> (nat \<times> u8 list) list" where
  "st_tx_fields tx =
    [(1, proto (header_fields (st_header tx))), (2, hexb (take 64 (st_s (st_header_signature tx)))),
     (3, take (pl_size (st_payload tx)) (pl_buf (st_payload tx)))]"

definition batch_header_fields :: "st_tx_t list \<Rightarrow> u8 list \<Rightarrow> (nat \<times> u8 list) list" where
  "batch_header_fields txs key = (1, hexb key) # map (\<lambda>tx. (2, hexb (take 64 (st_s (st_header_signature tx))))) txs"

text \<open>Structs whose arrays have their lengths, and whose lists have at least the elements their size says.\<close>

definition addresses_ok :: "st_address_lst_t \<Rightarrow> bool" where
  "addresses_ok l \<longleftrightarrow> al_size l \<le> length (al_lst l) \<and> (\<forall>a \<in> set (al_lst l). length (st_a a) = ST_ADDRESS_SIZE)"

definition header_ok :: "st_tx_hdr_t \<Rightarrow> bool" where
  "header_ok h \<longleftrightarrow> length (st_k (hdr_batcher_pubkey h)) = ST_PUBKEY_SIZE \<and> length (st_k (hdr_signer_pubkey h)) = ST_PUBKEY_SIZE \<and>
     addresses_ok (hdr_dependencies h) \<and> addresses_ok (hdr_inputs h) \<and> addresses_ok (hdr_outputs h) \<and>
     0 \<in> set (hdr_family_name h) \<and> 0 \<in> set (hdr_family_version h) \<and> 0 \<in> set (hdr_nonce h) \<and>
     length (hdr_payload_sha512 h) = SHA_512_SIZE"

definition st_tx_ok :: "st_tx_t \<Rightarrow> bool" where
  "st_tx_ok tx \<longleftrightarrow> header_ok (st_header tx) \<and> length (st_s (st_header_signature tx)) = ST_SIGNATURE_SIZE \<and>
     pl_size (st_payload tx) \<le> length (pl_buf (st_payload tx))"

lemmas size_defs = ST_PUBKEY_SIZE_def ST_ADDRESS_SIZE_def SHA_512_SIZE_def ST_SIGNATURE_SIZE_def

lemma string_bytes_append: "string_bytes (s @ t) = string_bytes s @ string_bytes t"
  by (simp add: string_bytes_def)

lemma length_hexb [simp]: "length (hexb bs) = 2 * length bs"
  by (simp add: hexb_def string_bytes_def)

lemma hexb_Nil [simp]: "hexb [] = []"
  by (simp add: hexb_def string_bytes_def)

lemma hexb_append: "hexb (xs @ ys) = hexb xs @ hexb ys"
  by (induction xs) (simp_all add: hexb_def string_bytes_def)

lemma of_char_u8: "(of_char c :: u8) = of_char d \<longleftrightarrow> c = d"
proof -
  have "unat (of_char c :: u8) = of_char c" for c
  proof -
    have "(of_char c :: nat) mod 256 = of_char c" by simp
    then show ?thesis using unat_of_nat_u8 [of "of_char c"] by (simp only: of_nat_of_char)
  qed
  then show ?thesis by (metis of_char_eq_iff)
qed

lemma hexb_inj: "hexb xs = hexb ys \<Longrightarrow> xs = ys"
proof -
  assume "hexb xs = hexb ys"
  then have "map (of_char :: char \<Rightarrow> u8) (hex_text xs) = map of_char (hex_text ys)" by (simp add: hexb_def string_bytes_def)
  moreover have "inj (of_char :: char \<Rightarrow> u8)" by (simp add: inj_def of_char_u8)
  ultimately have "hex_text xs = hex_text ys" by (simp add: inj_map_eq_map)
  then show ?thesis using hex_bytes_hex_text by (metis option.inject)
qed

lemma unat_of_nat_u64: "n < 2 ^ 64 \<Longrightarrow> unat (of_nat n :: u64) = n"
  by (simp add: unat_of_nat)

lemma emits_string_field:
  assumes "pb_documented pb" "pb_ltype f \<noteq> PB_VARINT" "emits g (varint (length bs) @ bs)"
  shows "emits (\<lambda>s. and_then (pb_encode_tag_for_field pb f s) g) (delimited (pb_tag f) bs)"
  using emits_and_then [OF pb_simps(3) [OF assms(1)] assms(3), of f] assms(2)
  by (simp add: delimited_def wire_type_def)

lemma concat_hexb: "x \<le> length a \<Longrightarrow> concat (map (\<lambda>i. hexb [a ! i]) [0..<x]) = hexb (take x a)"
  by (induction x) (simp_all add: take_Suc_conv_app_nth hexb_append)

lemma emits_bytes_hex:
  assumes pb: "pb_documented pb" and "pb_ltype f \<noteq> PB_VARINT" "x \<le> length a" "x < 2 ^ 63"
  shows "emits (write_bytes_hex pb x (Some (P_bytes a)) f) (delimited (pb_tag f) (hexb (take x a)))"
proof -
  let ?put = "\<lambda>i stream. bindE (as_bytes (Some (P_bytes a))) (\<lambda>a.
      bindE (bintohex_nonull (Some (drop i a)) 1 (replicate 2 (CHR 0x00)) 2) (\<lambda>(_, out_buf).
      Inr (pb_write pb (string_bytes out_buf) stream)))"
  have len: "unat (of_nat x * 2 :: u64) = length (hexb (take x a))"
    using assms(3,4) unat_of_nat_u64 [of "x * 2"] by simp
  have "emits (?put i) (hexb [a ! i])" if "i \<in> set [0..<x]" for i
  proof -
    from that assms(3) have i: "i < length a" by simp
    then have "take 1 (drop i a) = [a ! i]" by (simp add: take_Suc_conv_app_nth Cons_nth_drop_Suc [symmetric])
    with i bintohex_nonull_take [of 1 "drop i a" 2 "replicate 2 (CHR 0x00)"]
    have "?put i = (\<lambda>s. Inr (pb_write pb (hexb [a ! i]) s))" by (simp add: hexb_def)
    with pb_simps(1) [OF pb] show ?thesis by simp
  qed
  then have "emits (each ?put [0..<x]) (concat (map (\<lambda>i. hexb [a ! i]) [0..<x]))" by (rule emits_each)
  then have "emits (each ?put [0..<x]) (hexb (take x a))" unfolding concat_hexb [OF assms(3)] .
  from emits_string_field [OF pb assms(2) emits_and_then [OF pb_simps(2) [OF pb, of "of_nat x * 2"] this, unfolded len]]
  show ?thesis unfolding write_bytes_hex_def by simp
qed

lemma emits_pubkey:
  assumes "pb_documented pb" "pb_ltype f \<noteq> PB_VARINT" "length k = 65"
  shows "emits (write_pubkey pb (Some (P_bytes k)) f) (delimited (pb_tag f) (hexb k))"
proof -
  have "write_pubkey pb (Some (P_bytes k)) f = write_bytes_hex pb 65 (Some (P_bytes k)) f"
    by (rule ext) (simp add: write_pubkey_def)
  with emits_bytes_hex [OF assms(1,2), of 65 k] assms(3) show ?thesis by simp
qed

lemma emits_string:
  assumes pb: "pb_documented pb" and "pb_ltype f \<noteq> PB_VARINT" "0 \<in> set a"
  shows "emits (write_string pb (Some (P_bytes a)) f) (delimited (pb_tag f) (text_of a))"
proof -
  have "take (length (text_of a)) a = text_of a" unfolding text_of_def by (metis takeWhile_eq_take)
  then have "write_string pb (Some (P_bytes a)) f =
      (\<lambda>s. and_then (pb_encode_tag_for_field pb f s) (\<lambda>s. Inr (pb_encode_string pb (text_of a) s)))"
    using assms(3) by (intro ext) (simp add: write_string_def strlen_in_def text_of_def)
  with emits_string_field [OF pb assms(2) pb_simps(4) [OF pb]] show ?thesis by simp
qed

lemma emits_payload:
  assumes pb: "pb_documented pb" and "pb_ltype f \<noteq> PB_VARINT" "pl_size p \<le> length (pl_buf p)" "pl_size p < 2 ^ 64"
  shows "emits (write_payload pb (Some (P_payload p)) f) (delimited (pb_tag f) (take (pl_size p) (pl_buf p)))"
proof -
  let ?bs = "take (pl_size p) (pl_buf p)"
  have "write_payload pb (Some (P_payload p)) f = (\<lambda>s. and_then (pb_encode_tag_for_field pb f s) (\<lambda>s.
      and_then (pb_encode_varint pb (of_nat (length ?bs)) s) (\<lambda>s. Inr (pb_write pb ?bs s))))"
    using assms(3) by (intro ext) (simp add: write_payload_def write_bytes_def read_at_def min_absorb2)
  moreover have "emits (\<lambda>s. and_then (pb_encode_varint pb (of_nat (length ?bs)) s) (\<lambda>s. Inr (pb_write pb ?bs s)))
      (varint (length ?bs) @ ?bs)"
    using emits_and_then [OF pb_simps(2) [OF pb, of "of_nat (length ?bs)"] pb_simps(1) [OF pb, of ?bs]] assms(3,4)
    by (simp only: unat_of_nat_u64 length_take min_absorb2)
  ultimately show ?thesis using emits_string_field [OF pb assms(2)] by metis
qed

text \<open>Repeated fields.\<close>

lemma emits_list:
  assumes "\<And>x. x \<in> set (take n xs) \<Longrightarrow> emits (g x) (b x)" "n \<le> length xs"
  shows "emits (each (\<lambda>i s. bindE (elem xs i) (\<lambda>x. g x s)) [0..<n]) (concat (map b (take n xs)))"
proof -
  let ?f = "\<lambda>i s. bindE (elem xs i) (\<lambda>x. g x s)"
  have "emits (?f i) (b (xs ! i))" if "i \<in> set [0..<n]" for i
  proof -
    have i: "i < length xs" "xs ! i \<in> set (take n xs)" using that assms(2) by (auto simp: in_set_conv_nth)
    then have "?f i = g (xs ! i)" by (intro ext) (simp add: elem_def)
    with assms(1) [OF i(2)] show ?thesis by simp
  qed
  then have "emits (each ?f [0..<n]) (concat (map (\<lambda>i. b (xs ! i)) [0..<n]))" by (rule emits_each)
  moreover have "map (\<lambda>i. b (xs ! i)) [0..<n] = map b (take n xs)"
    using assms(2) by (intro nth_equalityI) simp_all
  ultimately show ?thesis by simp
qed

lemma proto_map: "proto (map (\<lambda>x. (tag, b x)) xs) = concat (map (\<lambda>x. delimited tag (b x)) xs)"
  by (induction xs) (simp_all add: proto_Cons)

lemma emits_address_list:
  assumes pb: "pb_documented pb" and "pb_ltype f \<noteq> PB_VARINT" "addresses_ok l"
  shows "emits (write_address_list pb (Some (P_addresses l)) f) (proto (map (\<lambda>a. (pb_tag f, hexb (take 35 a))) (addresses l)))"
    "emits (write_input_list pb (Some (P_addresses l)) f) (proto (map (\<lambda>a. (pb_tag f, hexb (take 3 a))) (addresses l)))"
proof -
  have n: "al_size l \<le> length (al_lst l)" "\<And>a. a \<in> set (take (al_size l) (al_lst l)) \<Longrightarrow> length (st_a a) = 35"
    using assms(3) in_set_takeD by (fastforce simp: addresses_ok_def size_defs)+
  have "emits (write_bytes_hex pb 35 (Some (P_bytes (st_a a))) f) (delimited (pb_tag f) (hexb (take 35 (st_a a))))"
      "emits (write_bytes_hex pb 3 (Some (P_bytes (st_a a))) f) (delimited (pb_tag f) (hexb (take 3 (st_a a))))"
    if "a \<in> set (take (al_size l) (al_lst l))" for a
    using n(2) [OF that] by (intro emits_bytes_hex pb assms(2); simp)+
  note e = emits_list [OF this(1) n(1)] emits_list [OF this(2) n(1)]
  have "write_address_list pb (Some (P_addresses l)) f =
      each (\<lambda>i s. bindE (elem (al_lst l) i) (\<lambda>a. write_bytes_hex pb 35 (Some (P_bytes (st_a a))) f s)) [0..<al_size l]"
      "write_input_list pb (Some (P_addresses l)) f =
      each (\<lambda>i s. bindE (elem (al_lst l) i) (\<lambda>a. write_bytes_hex pb 3 (Some (P_bytes (st_a a))) f s)) [0..<al_size l]"
    by (intro ext; simp add: write_address_list_def write_input_list_def)+
  with e show "emits (write_address_list pb (Some (P_addresses l)) f) (proto (map (\<lambda>a. (pb_tag f, hexb (take 35 a))) (addresses l)))"
    "emits (write_input_list pb (Some (P_addresses l)) f) (proto (map (\<lambda>a. (pb_tag f, hexb (take 3 a))) (addresses l)))"
    by (simp_all add: addresses_def proto_map comp_def)
qed

lemmas message_defs = fld_def set_encode_def set_arg_def callback_zero_def Let_def

lemma emits_header:
  assumes pb: "pb_documented pb" and ok: "header_ok h"
  shows "emits (pb_encode pb (TransactionHeader_fields (header_message pb h))) (proto (header_fields h))"
proof -
  let ?f = "\<lambda>tag. \<lparr>pb_tag = tag, pb_ltype = PB_STRING\<rparr>"
  have fields: "TransactionHeader_fields (header_message pb h) =
     [(?f 1, Some (write_bytes_hex pb 33 (Some (P_bytes (st_k (hdr_batcher_pubkey h)))))),
      (?f 2, Some (write_address_list pb (Some (P_addresses (hdr_dependencies h))))),
      (?f 3, Some (write_string pb (Some (P_bytes (hdr_family_name h))))),
      (?f 4, Some (write_string pb (Some (P_bytes (hdr_family_version h))))),
      (?f 5, Some (write_input_list pb (Some (P_addresses (hdr_inputs h))))),
      (?f 6, Some (write_string pb (Some (P_bytes (hdr_nonce h))))),
      (?f 7, Some (write_input_list pb (Some (P_addresses (hdr_outputs h))))),
      (?f 9, Some (write_bytes_hex pb 64 (Some (P_bytes (hdr_payload_sha512 h))))),
      (?f 10, Some (write_pubkey pb (Some (P_bytes (st_k (hdr_signer_pubkey h))))))]"
    by (simp add: TransactionHeader_fields_def header_message_def TransactionHeader_init_encoder_def
        TransactionHeader_init_zero_def message_defs)
  from ok have k: "length (st_k (hdr_batcher_pubkey h)) = 65" "length (st_k (hdr_signer_pubkey h)) = 65"
      "addresses_ok (hdr_dependencies h)" "addresses_ok (hdr_inputs h)" "addresses_ok (hdr_outputs h)"
      "0 \<in> set (hdr_family_name h)" "0 \<in> set (hdr_family_version h)" "0 \<in> set (hdr_nonce h)" "length (hdr_payload_sha512 h) = 64"
    by (simp_all add: header_ok_def size_defs)
  have t: "pb_ltype (?f n) \<noteq> PB_VARINT" "pb_tag (?f n) = n" for n by simp_all
  note w = emits_bytes_hex [OF pb t(1), unfolded t(2)] emits_address_list [OF pb t(1), unfolded t(2)]
    emits_string [OF pb t(1), unfolded t(2)] emits_pubkey [OF pb t(1), unfolded t(2)]
  have b: "emits (write_bytes_hex pb 33 (Some (P_bytes (st_k (hdr_batcher_pubkey h)))) (?f 1)) (delimited 1 (hexb (take 33 (st_k (hdr_batcher_pubkey h)))))"
      "emits (write_bytes_hex pb 64 (Some (P_bytes (hdr_payload_sha512 h))) (?f 9)) (delimited 9 (hexb (hdr_payload_sha512 h)))"
    using w(1) [of 33 "st_k (hdr_batcher_pubkey h)" 1] w(1) [of 64 "hdr_payload_sha512 h" 9] k(1,9) by simp_all
  note e = emits_message [OF pb, where m = "TransactionHeader_fields (header_message pb h)" and
      bss = "[delimited 1 (hexb (take 33 (st_k (hdr_batcher_pubkey h)))), proto (map (\<lambda>a. (2, hexb (take 35 a))) (addresses (hdr_dependencies h))),
        delimited 3 (text_of (hdr_family_name h)), delimited 4 (text_of (hdr_family_version h)),
        proto (map (\<lambda>a. (5, hexb (take 3 a))) (addresses (hdr_inputs h))), delimited 6 (text_of (hdr_nonce h)),
        proto (map (\<lambda>a. (7, hexb (take 3 a))) (addresses (hdr_outputs h))), delimited 9 (hexb (hdr_payload_sha512 h)),
        delimited 10 (hexb (st_k (hdr_signer_pubkey h)))]"]
  show ?thesis
    using e b w(2) [OF k(3), of 2] w(3) [OF k(4), of 5] w(3) [OF k(5), of 7] w(4) [OF k(6), of 3] w(4) [OF k(7), of 4]
      w(4) [OF k(8), of 6] w(5) [OF k(2), of 10]
    unfolding fields by (simp add: header_fields_def proto_append proto_Cons)
qed

lemma emits_submessage_field:
  assumes "pb_documented pb" "pb_ltype f \<noteq> PB_VARINT" "emits (pb_encode pb m) bs" "length bs < 2 ^ 31"
  shows "emits (\<lambda>s. and_then (pb_encode_tag_for_field pb f s) (pb_encode_submessage pb m)) (delimited (pb_tag f) bs)"
  using emits_string_field [OF assms(1,2) pb_simps(5) [OF assms(1,3,4)]] .

lemma emits_tx:
  assumes pb: "pb_documented pb" and ok: "st_tx_ok tx" and small: "length (proto (st_tx_fields tx)) < 2 ^ 31"
  shows "emits (pb_encode pb (Transaction_fields (transaction_message pb tx))) (proto (st_tx_fields tx))"
proof -
  let ?f = "\<lambda>tag t. \<lparr>pb_tag = tag, pb_ltype = t\<rparr>" and ?s = "st_s (st_header_signature tx)" and ?p = "st_payload tx"
  let ?h = "proto (header_fields (st_header tx))"
  have fields: "Transaction_fields (transaction_message pb tx) =
     [(?f 1 PB_BYTES, Some (write_tx_header pb (Some (P_header (st_header tx))))),
      (?f 2 PB_STRING, Some (write_bytes_hex pb 64 (Some (P_bytes ?s)))),
      (?f 3 PB_BYTES, Some (write_payload pb (Some (P_payload ?p))))]"
    by (simp add: Transaction_fields_def transaction_message_def Transaction_init_encoder_def Transaction_init_zero_def message_defs)
  from ok have k: "header_ok (st_header tx)" "length ?s = 65" "pl_size ?p \<le> length (pl_buf ?p)"
    by (simp_all add: st_tx_ok_def size_defs)
  have len: "length ?h < 2 ^ 31" "pl_size ?p < 2 ^ 64"
    using small k(3) by (simp_all add: st_tx_fields_def proto_Cons delimited_def)
  have "write_tx_header pb (Some (P_header (st_header tx))) (?f 1 PB_BYTES) =
      (\<lambda>s. and_then (pb_encode_tag_for_field pb (?f 1 PB_BYTES) s) (pb_encode_submessage pb (TransactionHeader_fields (header_message pb (st_header tx)))))"
    by (rule ext) (simp add: write_tx_header_def)
  with emits_submessage_field [OF pb _ emits_header [OF pb k(1)] len(1), of "?f 1 PB_BYTES"]
  have "emits (write_tx_header pb (Some (P_header (st_header tx))) (?f 1 PB_BYTES)) (delimited 1 ?h)" by simp
  moreover from emits_bytes_hex [OF pb, of "?f 2 PB_STRING" 64 ?s] k(2)
  have "emits (write_bytes_hex pb 64 (Some (P_bytes ?s)) (?f 2 PB_STRING)) (delimited 2 (hexb (take 64 ?s)))" by simp
  moreover from emits_payload [OF pb _ k(3) len(2), of "?f 3 PB_BYTES"]
  have "emits (write_payload pb (Some (P_payload ?p)) (?f 3 PB_BYTES)) (delimited 3 (take (pl_size ?p) (pl_buf ?p)))" by simp
  moreover note emits_message [OF pb, where m = "Transaction_fields (transaction_message pb tx)" and
      bss = "[delimited 1 ?h, delimited 2 (hexb (take 64 ?s)), delimited 3 (take (pl_size ?p) (pl_buf ?p))]"]
  ultimately show ?thesis unfolding fields by (simp add: st_tx_fields_def proto_Cons)
qed

definition tx_list_fields :: "nat \<Rightarrow> st_tx_t list \<Rightarrow> (nat \<times> u8 list) list" where
  "tx_list_fields tag txs = map (\<lambda>tx. (tag, proto (st_tx_fields tx))) txs"

lemma tx_list_fields_small:
  "tx \<in> set txs \<Longrightarrow> length (proto (st_tx_fields tx)) \<le> length (proto (tx_list_fields tag txs))"
proof (induction txs)
  case (Cons t txs)
  then show ?case by (auto simp: tx_list_fields_def proto_Cons delimited_def)
qed simp

lemma emits_transactions:
  assumes pb: "pb_documented pb" and "pb_ltype f \<noteq> PB_VARINT" and ok: "\<forall>tx \<in> set txs. st_tx_ok tx"
    and small: "length (proto (tx_list_fields (pb_tag f) txs)) < 2 ^ 31"
  shows "emits (write_transactions pb (Some (P_txs \<lparr>tl_lst = txs, tl_size = length txs\<rparr>)) f) (proto (tx_list_fields (pb_tag f) txs))"
proof -
  have "emits (write_transaction pb (Some (P_tx tx)) f) (delimited (pb_tag f) (proto (st_tx_fields tx)))"
    if "tx \<in> set (take (length txs) txs)" for tx
  proof -
    from that have tx: "tx \<in> set txs" by simp
    with small tx_list_fields_small [of tx txs "pb_tag f"] have len: "length (proto (st_tx_fields tx)) < 2 ^ 31" by linarith
    have "write_transaction pb (Some (P_tx tx)) f =
        (\<lambda>s. and_then (pb_encode_tag_for_field pb f s) (pb_encode_submessage pb (Transaction_fields (transaction_message pb tx))))"
      by (rule ext) (simp add: write_transaction_def)
    with emits_submessage_field [OF pb assms(2) emits_tx [OF pb _ len] len] ok tx show ?thesis by simp
  qed
  note e = emits_list [where g = "\<lambda>tx. write_transaction pb (Some (P_tx tx)) f", OF this order_refl]
  have "write_transactions pb (Some (P_txs \<lparr>tl_lst = txs, tl_size = length txs\<rparr>)) f =
      each (\<lambda>i s. bindE (elem txs i) (\<lambda>tx. write_transaction pb (Some (P_tx tx)) f s)) [0..<length txs]"
    by (rule ext) (simp add: write_transactions_def)
  with e show ?thesis by (simp add: tx_list_fields_def proto_map)
qed

lemma emits_single:
  assumes "pb_documented pb" "emits (cb f) bs"
  shows "emits (pb_encode pb [(f, Some cb)]) bs"
  using emits_message [OF assms(1), of "[(f, Some cb)]" "[bs]"] assms(2) by simp

lemma emits_tx_list:
  assumes pb: "pb_documented pb" and ok: "\<forall>tx \<in> set txs. st_tx_ok tx" and small: "length (proto (tx_list_fields 1 txs)) < 2 ^ 31"
  shows "emits (pb_encode pb [(\<lparr>pb_tag = 1, pb_ltype = PB_SUBMESSAGE\<rparr>,
      Some (write_transactions pb (Some (P_txs \<lparr>tl_lst = txs, tl_size = length txs\<rparr>))))]) (proto (tx_list_fields 1 txs))"
  by (rule emits_single [OF pb]) (use emits_transactions [OF pb _ ok, of "\<lparr>pb_tag = 1, pb_ltype = PB_SUBMESSAGE\<rparr>"] small in simp)

lemma emits_batch_header:
  assumes pb: "pb_documented pb" and ok: "\<forall>tx \<in> set txs. st_tx_ok tx" and key: "length k = 65"
  shows "emits (pb_encode pb (BatchHeader_fields (batch_header_message pb \<lparr>tl_lst = txs, tl_size = length txs\<rparr> \<lparr>st_k = k\<rparr>)))
    (proto (batch_header_fields txs k))"
proof -
  let ?f = "\<lambda>tag. \<lparr>pb_tag = tag, pb_ltype = PB_STRING\<rparr>" and ?l = "P_txs \<lparr>tl_lst = txs, tl_size = length txs\<rparr>"
  let ?ids = "map (\<lambda>tx. (2, hexb (take 64 (st_s (st_header_signature tx))))) txs :: (nat \<times> u8 list) list"
  have fields: "BatchHeader_fields (batch_header_message pb \<lparr>tl_lst = txs, tl_size = length txs\<rparr> \<lparr>st_k = k\<rparr>) =
     [(?f 1, Some (write_pubkey pb (Some (P_bytes k)))), (?f 2, Some (write_transaction_ids pb (Some ?l)))]"
    by (simp add: BatchHeader_fields_def batch_header_message_def BatchHeader_init_encoder_def BatchHeader_init_default_def message_defs)
  have "emits (write_bytes_hex pb 64 (Some (P_bytes (st_s (st_header_signature tx)))) (?f 2))
      (delimited 2 (hexb (take 64 (st_s (st_header_signature tx)))))" if "tx \<in> set (take (length txs) txs)" for tx
    using ok that emits_bytes_hex [OF pb, of "?f 2" 64 "st_s (st_header_signature tx)"] by (simp add: st_tx_ok_def size_defs)
  note e = emits_list [where g = "\<lambda>tx. write_bytes_hex pb 64 (Some (P_bytes (st_s (st_header_signature tx)))) (?f 2)", OF this order_refl]
  have "write_transaction_ids pb (Some ?l) (?f 2) =
      each (\<lambda>i s. bindE (elem txs i) (\<lambda>tx. write_bytes_hex pb 64 (Some (P_bytes (st_s (st_header_signature tx)))) (?f 2) s)) [0..<length txs]"
    by (rule ext) (simp add: write_transaction_ids_def)
  with e have ids: "emits (write_transaction_ids pb (Some ?l) (?f 2)) (proto ?ids)" by (simp add: proto_map)
  have "emits (write_pubkey pb (Some (P_bytes k)) (?f 1)) (delimited 1 (hexb k))" using emits_pubkey [OF pb _ key, of "?f 1"] by simp
  with ids emits_message [OF pb, of "BatchHeader_fields (batch_header_message pb \<lparr>tl_lst = txs, tl_size = length txs\<rparr> \<lparr>st_k = k\<rparr>)"
      "[delimited 1 (hexb k), proto ?ids]"]
  show ?thesis unfolding fields by (simp add: batch_header_fields_def proto_Cons)
qed

section \<open>Into a buffer\<close>

lemma encode_into_emits:
  assumes "emits (pb_encode pb m) bs" "length bs < 2 ^ 31" "buf_size \<le> length buf"
  shows "length bs \<le> buf_size \<Longrightarrow> encode_into pb m buf buf_size = Inr (int (length bs), bs @ drop (length bs) buf)"
    and "buf_size < length bs \<Longrightarrow> \<exists>buf'. encode_into pb m buf buf_size = Inr (-1, buf') \<and> length buf' = length buf"
proof -
  let ?s = "pb_ostream_from_buffer buf_size"
  have s: "written ?s = []" "max_size ?s = buf_size" by (simp_all add: pb_ostream_from_buffer_def)
  have "sint (of_int (int (length bs)) :: u32) = int (length bs)" using assms(2) by (simp only: int_word_sint) simp
  then have n: "sint (of_nat (length bs) :: u32) = int (length bs)" by simp
  { assume "length bs \<le> buf_size"
    with emits_room [OF assms(1), of ?s] s assms(3) n
    show "encode_into pb m buf buf_size = Inr (int (length bs), bs @ drop (length bs) buf)"
      by (simp add: encode_into_def write_at_def) }
  { assume "buf_size < length bs"
    then obtain s' where "pb_encode pb m ?s = Inr (False, s')" "length (written s') \<le> buf_size"
      using emits_no_room [OF assms(1), of ?s] s by auto
    with assms(3) show "\<exists>buf'. encode_into pb m buf buf_size = Inr (-1, buf') \<and> length buf' = length buf"
      by (simp add: encode_into_def write_at_def) }
qed

lemma st_encode_header_bytes:
  assumes pb: "pb_documented pb" and "header_ok h" "length (proto (header_fields h)) \<le> buf_size" "buf_size \<le> length buf" "length buf < 2 ^ 31"
  shows "st_encode_header pb h buf buf_size =
    Inr (int (length (proto (header_fields h))), proto (header_fields h) @ drop (length (proto (header_fields h))) buf)"
proof -
  from assms have "length (proto (header_fields h)) < 2 ^ 31" by linarith
  from encode_into_emits(1) [OF emits_header [OF pb assms(2)] this assms(4,3)] show ?thesis by (simp add: st_encode_header_def)
qed

lemma header_not_empty: "0 < length (proto (header_fields h))"
  by (simp add: header_fields_def proto_Cons delimited_def)

section \<open>An instance of the library\<close>

text \<open>An implementation of the documented interface, for the concrete runs below.\<close>

definition demo_write :: "u8 list \<Rightarrow> pb_ostream_t \<Rightarrow> bool \<times> pb_ostream_t" where
  "demo_write bs s = (if length (written s) + length bs \<le> max_size s then (True, s\<lparr>written := written s @ bs\<rparr>) else (False, s))"

fun demo_encode :: "pb_message \<Rightarrow> pb_ostream_t \<Rightarrow> pb_result" where
  "demo_encode [] s = Inr (True, s)"
| "demo_encode ((f, None) # m) s = demo_encode m s"
| "demo_encode ((f, Some cb) # m) s = and_thenE (cb f s) (demo_encode m)"

definition demo_pb :: nanopb where
  "demo_pb = \<lparr>pb_write = demo_write, pb_encode_varint = (\<lambda>v. demo_write (varint (unat v))),
     pb_encode_tag_for_field = (\<lambda>f. demo_write (varint (pb_tag f * 8 + wire_type (pb_ltype f)))),
     pb_encode_string = (\<lambda>bs. demo_write (varint (length bs) @ bs)),
     pb_encode_submessage = (\<lambda>m s. and_thenE (demo_encode m (pb_ostream_from_buffer (2 ^ 31)))
       (\<lambda>t. Inr (demo_write (varint (length (written t)) @ written t) s))),
     pb_encode = demo_encode\<rparr>"

lemma emits_demo_write: "emits (\<lambda>s. Inr (demo_write bs s)) bs"
  by (simp add: emits_def demo_write_def)

lemma demo_documented: "pb_documented demo_pb"
proof -
  have "emits (\<lambda>s. and_thenE (demo_encode m (pb_ostream_from_buffer (2 ^ 31))) (\<lambda>t. Inr (demo_write (varint (length (written t)) @ written t) s)))
      (varint (length bs) @ bs)" if "emits (demo_encode m) bs" "length bs < 2 ^ 31" for m bs
    using emits_room [OF that(1), of "pb_ostream_from_buffer (2 ^ 31)"] that(2) emits_demo_write
    by (simp add: pb_ostream_from_buffer_def and_then_def)
  then show ?thesis unfolding pb_documented_def demo_pb_def by (simp add: emits_demo_write)
qed

definition demo_hdr :: st_tx_hdr_t where
  "demo_hdr = \<lparr>hdr_batcher_pubkey = \<lparr>st_k = replicate 65 2\<rparr>, hdr_dependencies = \<lparr>al_lst = [], al_size = 0\<rparr>,
     hdr_family_name = [0x66, 0], hdr_family_version = [0x31, 0],
     hdr_inputs = \<lparr>al_lst = [\<lparr>st_a = replicate 35 5\<rparr>], al_size = 1\<rparr>, hdr_nonce = [0x34, 0],
     hdr_outputs = \<lparr>al_lst = [], al_size = 0\<rparr>, hdr_payload_sha512 = replicate 64 0, hdr_signer_pubkey = \<lparr>st_k = replicate 65 4\<rparr>\<rparr>"

definition demo_st_tx :: st_tx_t where
  "demo_st_tx = \<lparr>st_header = demo_hdr, st_header_signature = \<lparr>st_s = replicate 65 0\<rparr>, st_payload = \<lparr>pl_buf = [1, 2, 3], pl_size = 2\<rparr>\<rparr>"

lemma demo_st_tx_ok: "header_ok demo_hdr" "st_tx_ok demo_st_tx"
  by (simp_all add: st_tx_ok_def demo_st_tx_def demo_hdr_def header_ok_def addresses_ok_def size_defs)

text \<open>A bound on the size of fields that needs no evaluation of their contents.\<close>


lemma length_varint_small: "n < 16384 \<Longrightarrow> length (varint n) \<le> 2"
  by (subst varint.simps, subst varint.simps) auto

lemma length_delimited: "tag < 2047 \<Longrightarrow> length bs < 16384 \<Longrightarrow> length (delimited tag bs) \<le> length bs + 4"
  using length_varint_small [of "tag * 8 + 2"] length_varint_small [of "length bs"] by (simp add: delimited_def)

lemma demo_fields:
  "header_fields demo_hdr = [(1, hexb (replicate 33 2)), (3, [0x66]), (4, [0x31]), (5, hexb (replicate 3 5)), (6, [0x34]),
     (9, hexb (replicate 64 0)), (10, hexb (replicate 65 4))]"
  "st_tx_fields demo_st_tx = [(1, proto (header_fields demo_hdr)), (2, hexb (replicate 64 0)), (3, [1, 2])]"
  by (simp_all add: header_fields_def demo_hdr_def addresses_def text_of_def st_tx_fields_def demo_st_tx_def)

lemma delimited_bound: "tag < 2047 \<Longrightarrow> length bs \<le> n \<Longrightarrow> n < 16384 \<Longrightarrow> length (delimited tag bs) \<le> n + 4"
  by (rule order_trans [OF length_delimited]) simp_all

lemma demo_length: "length (proto (header_fields demo_hdr)) \<le> 400" "length (proto (st_tx_fields demo_st_tx)) \<le> 600"
proof -
  have "length (delimited 1 (hexb (replicate 33 2))) \<le> 66 + 4" "length (delimited 3 [0x66]) \<le> 1 + 4" "length (delimited 4 [0x31]) \<le> 1 + 4"
      "length (delimited 5 (hexb (replicate 3 5))) \<le> 6 + 4" "length (delimited 6 [0x34]) \<le> 1 + 4"
      "length (delimited 9 (hexb (replicate 64 0))) \<le> 128 + 4" "length (delimited 10 (hexb (replicate 65 4))) \<le> 130 + 4"
    by (intro delimited_bound; simp)+
  then show h: "length (proto (header_fields demo_hdr)) \<le> 400" unfolding demo_fields proto_Cons length_append by simp
  have "length (delimited 1 (proto (header_fields demo_hdr))) \<le> 400 + 4" "length (delimited 2 (hexb (replicate 64 0))) \<le> 128 + 4"
      "length (delimited 3 [1, 2]) \<le> 2 + 4"
    using h by (intro delimited_bound; simp)+
  then show "length (proto (st_tx_fields demo_st_tx)) \<le> 600" unfolding demo_fields(2) proto_Cons length_append by simp
qed

section \<open>Properties\<close>

lemma st_tx_list_bytes:
  assumes pb: "pb_documented pb" and ok: "\<forall>tx \<in> set txs. st_tx_ok tx" and small: "length (proto (tx_list_fields 1 txs)) < 2 ^ 31"
    and buf: "buf_size \<le> length buf"
  shows "length (proto (tx_list_fields 1 txs)) \<le> buf_size \<Longrightarrow> st_encode_tx_list pb txs (length txs) buf buf_size =
      Inr (int (length (proto (tx_list_fields 1 txs))), proto (tx_list_fields 1 txs) @ drop (length (proto (tx_list_fields 1 txs))) buf)"
    and "buf_size < length (proto (tx_list_fields 1 txs)) \<Longrightarrow>
      \<exists>buf'. st_encode_tx_list pb txs (length txs) buf buf_size = Inr (-1, buf') \<and> length buf' = length buf"
  using encode_into_emits [OF emits_tx_list [OF pb ok small] small buf]
  by (simp_all add: st_encode_tx_list_def TransactionList_init_encoder_def TransactionList_init_zero_def
      TransactionList_fields_def message_defs)

text \<open>
  C6: \<open>st_encode_tx_list\<close> writes the list of transactions in the format of protocol buffers, for whatever
  implementation of nanopb does what its documentation says: with room in the buffer, the bytes read
  back as one field per transaction, each of which reads back as header, signature in hexadecimal and
  payload, and the header as its fields; without room the call fails and stays inside the buffer.
\<close>

theorem st_encode_tx_list_decodes:
  assumes "pb_documented pb" "\<forall>tx \<in> set txs. st_tx_ok tx" "length (proto (tx_list_fields 1 txs)) < 2 ^ 31"
    "buf_size \<le> length buf"
  shows "\<exists>ret buf'. st_encode_tx_list pb txs (length txs) buf buf_size = Inr (ret, buf') \<and> length buf' = length buf \<and>
    (if length (proto (tx_list_fields 1 txs)) \<le> buf_size
     then fields_of (take (nat ret) buf') = Some (map (\<lambda>tx. (1, proto (st_tx_fields tx))) txs) \<and>
       (\<forall>tx \<in> set txs. fields_of (proto (st_tx_fields tx)) =
            Some [(1, proto (header_fields (st_header tx))), (2, hexb (take 64 (st_s (st_header_signature tx)))),
              (3, take (pl_size (st_payload tx)) (pl_buf (st_payload tx)))] \<and>
          fields_of (proto (header_fields (st_header tx))) = Some (header_fields (st_header tx)))
     else ret = -1)"
proof (cases "length (proto (tx_list_fields 1 txs)) \<le> buf_size")
  case True
  with st_tx_list_bytes(1) [OF assms True] assms(4) show ?thesis by (auto simp: tx_list_fields_def st_tx_fields_def)
next
  case False
  with st_tx_list_bytes(2) [OF assms] show ?thesis by auto
qed

theorem st_encode_tx_list_decodes_witness:
  "\<exists>ret buf'. st_encode_tx_list demo_pb [demo_st_tx] 1 (replicate 2048 0) 2000 = Inr (ret, buf') \<and>
    fields_of (take (nat ret) buf') = Some [(1, proto (st_tx_fields demo_st_tx))]"
proof -
  have "length (proto (tx_list_fields 1 [demo_st_tx])) \<le> 2000"
    using demo_length(2) length_delimited [of 1 "proto (st_tx_fields demo_st_tx)"] by (simp add: tx_list_fields_def proto_Cons)
  with st_encode_tx_list_decodes [of demo_pb "[demo_st_tx]" 2000 "replicate 2048 0"] demo_documented demo_st_tx_ok(2)
  show ?thesis by auto
qed

text \<open>A transaction after \<open>st_sign_tx\<close>, with the bytes its signature covers.\<close>

definition signed_header :: "(u8 list \<Rightarrow> u8 list) \<Rightarrow> st_tx_t \<Rightarrow> st_tx_hdr_t" where
  "signed_header sha512 tx =
    (st_header tx)\<lparr>hdr_payload_sha512 := sha512 (take (pl_size (st_payload tx)) (pl_buf (st_payload tx)))\<rparr>"

lemma st_sign_tx_signs:
  assumes pb: "pb_documented pb" and ok: "st_tx_ok tx" and sha: "\<And>d. length (sha512 d) = 64"
    and sign: "ecdsa_sign privkey (sha256 (proto (header_fields (signed_header sha512 tx)))) = (rs, pby)" "length rs = 64"
    and buf: "length (proto (header_fields (signed_header sha512 tx))) \<le> buf_size" "buf_size \<le> length buf" "length buf < 2 ^ 31"
  shows "\<exists>buf'. st_sign_tx pb sha512 sha256 ecdsa_sign tx privkey buf buf_size =
      Inr (0, tx\<lparr>st_header := signed_header sha512 tx, st_header_signature := \<lparr>st_s = rs @ [pby + 27]\<rparr>\<rparr>, buf') \<and>
    length buf' = length buf"
proof -
  let ?h = "signed_header sha512 tx" and ?pl = "take (pl_size (st_payload tx)) (pl_buf (st_payload tx))"
  let ?H = "proto (header_fields ?h)"
  have h: "header_ok ?h" using ok sha by (simp add: st_tx_ok_def signed_header_def header_ok_def size_defs)
  have len: "length (hdr_payload_sha512 (st_header tx)) = 64" "length (st_s (st_header_signature tx)) = 65"
      "pl_size (st_payload tx) \<le> length (pl_buf (st_payload tx))"
    using ok by (simp_all add: st_tx_ok_def header_ok_def size_defs)
  have hash: "write_at (hdr_payload_sha512 (st_header tx)) 0 (sha512 ?pl) = Inr (sha512 ?pl)"
    using len(1) sha by (simp add: write_at_def)
  have enc: "st_encode_header pb ?h buf buf_size = Inr (int (length ?H), ?H @ drop (length ?H) buf)"
    using st_encode_header_bytes [OF pb h buf] .
  have nz: "\<not> int (length ?H) \<le> 0" using header_not_empty [of ?h] by linarith
  have sig: "st_sign_data_rawsig sha256 ecdsa_sign privkey (?H @ drop (length ?H) buf) (nat (int (length ?H))) (st_s (st_header_signature tx)) =
      Inr (0, rs @ [pby + 27])"
    using sign len(2) by (simp add: st_sign_data_rawsig_def read_at_def write_at_def)
  have pl: "read_at (pl_buf (st_payload tx)) 0 (pl_size (st_payload tx)) = Inr ?pl" using len(3) by (simp add: read_at_def)
  have "st_sign_tx pb sha512 sha256 ecdsa_sign tx privkey buf buf_size =
      Inr (0, tx\<lparr>st_header := ?h, st_header_signature := \<lparr>st_s = rs @ [pby + 27]\<rparr>\<rparr>, ?H @ drop (length ?H) buf)"
    unfolding st_sign_tx_def pl bindE_Inr hash Let_def
    using enc nz sig by (simp add: signed_header_def)
  with buf show ?thesis by simp
qed

lemma length_proto_single: "length bs < length (proto [(tag, bs)])"
  by (simp add: proto_Cons delimited_def)

text \<open>
  C5: signing and sending a Sawtooth transaction. What \<open>st_sign_tx\<close> and \<open>st_encode_tx_list\<close> put on the wire
  decodes to one transaction whose signature field is the hexadecimal text of the ECDSA signature over the
  SHA-256 digest of exactly the header bytes that are sent, and whose header carries the SHA-512
  digest of the payload that is sent.
\<close>

theorem st_signed_tx_verifies:
  assumes pb: "pb_documented pb" and ok: "st_tx_ok tx" and sha: "\<And>d. length (sha512 d) = 64"
    and sign: "ecdsa_sign privkey (sha256 (proto (header_fields (signed_header sha512 tx)))) = (rs, pby)" "length rs = 64"
    and T: "T = [(1, proto (header_fields (signed_header sha512 tx))), (2, hexb rs),
      (3, take (pl_size (st_payload tx)) (pl_buf (st_payload tx)))]"
    and buf: "length (proto [(1, proto T)]) \<le> buf_size" "buf_size \<le> length buf" "length buf < 2 ^ 31"
  shows "\<exists>tx' buf1 n buf2. st_sign_tx pb sha512 sha256 ecdsa_sign tx privkey buf buf_size = Inr (0, tx', buf1) \<and>
    st_encode_tx_list pb [tx'] 1 buf1 buf_size = Inr (int n, buf2) \<and>
    fields_of (take n buf2) = Some [(1, proto T)] \<and> fields_of (proto T) = Some T \<and>
    fields_of (proto (header_fields (signed_header sha512 tx))) = Some (header_fields (signed_header sha512 tx)) \<and>
    (9, hexb (sha512 (take (pl_size (st_payload tx)) (pl_buf (st_payload tx))))) \<in> set (header_fields (signed_header sha512 tx))"
proof -
  let ?h = "signed_header sha512 tx"
  let ?tx = "tx\<lparr>st_header := ?h, st_header_signature := \<lparr>st_s = rs @ [pby + 27]\<rparr>\<rparr>"
  have fields: "st_tx_fields ?tx = T" using sign(2) by (simp add: st_tx_fields_def T)
  then have list: "tx_list_fields 1 [?tx] = [(1, proto T)]" by (simp add: tx_list_fields_def)
  have "length (proto (header_fields ?h)) \<le> length (proto T)" by (simp add: T proto_Cons delimited_def)
  also have "\<dots> \<le> buf_size" using length_proto_single [of "proto T" 1] buf(1) by linarith
  finally obtain buf1 where s: "st_sign_tx pb sha512 sha256 ecdsa_sign tx privkey buf buf_size = Inr (0, ?tx, buf1)" "length buf1 = length buf"
    using st_sign_tx_signs [where ?sha512.0 = sha512 and ?sha256.0 = sha256 and ecdsa_sign = ecdsa_sign and tx = tx and
        privkey = privkey and buf_size = buf_size, OF pb ok sha sign _ buf(2,3)]
    by blast
  have ok': "\<forall>t \<in> set [?tx]. st_tx_ok t"
    using ok sha sign(2) by (simp add: st_tx_ok_def signed_header_def header_ok_def size_defs)
  have "length (proto (tx_list_fields 1 [?tx])) < 2 ^ 31" "length (proto (tx_list_fields 1 [?tx])) \<le> buf_size" "buf_size \<le> length buf1"
    using buf list s(2) by (simp_all add: order_le_less_trans)
  with st_tx_list_bytes(1) [OF pb ok'] have "st_encode_tx_list pb [?tx] 1 buf1 buf_size =
      Inr (int (length (proto [(1, proto T)])), proto [(1, proto T)] @ drop (length (proto [(1, proto T)])) buf1)"
    by (simp only: list) simp
  with s(1) show ?thesis by (auto simp: header_fields_def signed_header_def intro!: exI)
qed

theorem st_signed_tx_verifies_witness:
  "\<exists>tx' buf1 n buf2. st_sign_tx demo_pb (\<lambda>d. replicate 64 7) (\<lambda>d. replicate 32 (of_nat (length d))) (\<lambda>k d. (replicate 64 (hd d), 1))
      demo_st_tx (replicate 32 1) (replicate 2048 0) 2048 = Inr (0, tx', buf1) \<and>
    st_encode_tx_list demo_pb [tx'] 1 buf1 2048 = Inr (int n, buf2)"
proof -
  let ?sha512 = "\<lambda>d::u8 list. replicate 64 (7::u8)"
  let ?H = "proto (header_fields (signed_header ?sha512 demo_st_tx))"
  let ?rs = "replicate 64 (of_nat (length ?H)) :: u8 list"
  have "length ?H = length (proto (header_fields demo_hdr))"
    by (simp add: signed_header_def demo_st_tx_def header_fields_def proto_append proto_Cons delimited_def demo_hdr_def)
  then have H: "length ?H \<le> 400" using demo_length(1) by simp
  have "length (delimited 1 ?H) \<le> 400 + 4" "length (delimited 2 (hexb ?rs)) \<le> 128 + 4" "length (delimited 3 [1, 2]) \<le> 2 + 4"
    using H by (intro delimited_bound; simp)+
  then have "length (proto [(1, ?H), (2, hexb ?rs), (3, [1, 2])]) \<le> 600" unfolding proto_Cons length_append by simp
  then have "length (delimited 1 (proto [(1, ?H), (2, hexb ?rs), (3, [1, 2])])) \<le> 600 + 4" by (intro delimited_bound) simp_all
  then have "length (proto [(1, proto [(1, ?H), (2, hexb ?rs), (3, [1, 2])])]) \<le> 2048" unfolding proto_Cons length_append by simp
  then show ?thesis
    using st_signed_tx_verifies [OF demo_documented demo_st_tx_ok(2), of ?sha512 "\<lambda>k d. (replicate 64 (hd d), 1)" "replicate 32 1"
        "\<lambda>d. replicate 32 (of_nat (length d))" ?rs 1 "[(1, ?H), (2, hexb ?rs), (3, [1, 2])]" 2048 "replicate 2048 0"]
    by (fastforce simp: demo_st_tx_def)
qed

definition batch_fields :: "st_tx_t list \<Rightarrow> u8 list \<Rightarrow> u8 list \<Rightarrow> (nat \<times> u8 list) list" where
  "batch_fields txs key sig = (1, proto (batch_header_fields txs key)) # (2, hexb (take 64 sig)) # tx_list_fields 3 txs"

lemma emits_batch:
  assumes pb: "pb_documented pb" and ok: "\<forall>tx \<in> set txs. st_tx_ok tx" and key: "length k = 65" "length sig = 65"
    and small: "length (proto (batch_fields txs k sig)) < 2 ^ 31"
  defines "l \<equiv> \<lparr>tl_lst = txs, tl_size = length txs\<rparr>"
  shows "emits (pb_encode pb
     [(\<lparr>pb_tag = 1, pb_ltype = PB_BYTES\<rparr>, Some (write_batch_header pb (Some (P_batch_hdr \<lparr>bh_tx_lst = l, bh_signer_pubkey = \<lparr>st_k = k\<rparr>\<rparr>)))),
      (\<lparr>pb_tag = 2, pb_ltype = PB_STRING\<rparr>, Some (write_bytes_hex pb 64 (Some (P_bytes sig)))),
      (\<lparr>pb_tag = 3, pb_ltype = PB_SUBMESSAGE\<rparr>, Some (write_transactions pb (Some (P_txs l)))),
      (\<lparr>pb_tag = 4, pb_ltype = PB_VARINT\<rparr>, None)]) (proto (batch_fields txs k sig))"
    (is "emits (pb_encode pb ?m) _")
proof -
  let ?f = "\<lparr>pb_tag = 1, pb_ltype = PB_BYTES\<rparr>" and ?H = "proto (batch_header_fields txs k)"
  have len: "length ?H < 2 ^ 31" "length (proto (tx_list_fields 3 txs)) < 2 ^ 31"
    using small by (simp_all add: batch_fields_def proto_Cons delimited_def)
  have "write_batch_header pb (Some (P_batch_hdr \<lparr>bh_tx_lst = l, bh_signer_pubkey = \<lparr>st_k = k\<rparr>\<rparr>)) ?f =
      (\<lambda>s. and_then (pb_encode_tag_for_field pb ?f s) (pb_encode_submessage pb (BatchHeader_fields (batch_header_message pb l \<lparr>st_k = k\<rparr>))))"
    by (rule ext) (simp add: write_batch_header_def)
  with emits_submessage_field [OF pb _ emits_batch_header [OF pb ok key(1)] len(1), of ?f]
  have "emits (write_batch_header pb (Some (P_batch_hdr \<lparr>bh_tx_lst = l, bh_signer_pubkey = \<lparr>st_k = k\<rparr>\<rparr>)) ?f) (delimited 1 ?H)"
    by (simp add: l_def)
  moreover have "emits (write_bytes_hex pb 64 (Some (P_bytes sig)) \<lparr>pb_tag = 2, pb_ltype = PB_STRING\<rparr>) (delimited 2 (hexb (take 64 sig)))"
    using emits_bytes_hex [OF pb, of "\<lparr>pb_tag = 2, pb_ltype = PB_STRING\<rparr>" 64 sig] key(2) by simp
  moreover have "emits (write_transactions pb (Some (P_txs l)) \<lparr>pb_tag = 3, pb_ltype = PB_SUBMESSAGE\<rparr>) (proto (tx_list_fields 3 txs))"
    using emits_transactions [OF pb _ ok, of "\<lparr>pb_tag = 3, pb_ltype = PB_SUBMESSAGE\<rparr>"] len(2) by (simp add: l_def)
  moreover note emits_message [OF pb, of ?m "[delimited 1 ?H, delimited 2 (hexb (take 64 sig)), proto (tx_list_fields 3 txs), []]"]
  ultimately show ?thesis by (simp add: batch_fields_def proto_Cons)
qed

lemma batch_header_not_empty: "0 < length (proto (batch_header_fields txs k))"
  by (simp add: batch_header_fields_def proto_Cons delimited_def)

lemma batch_header_fields_inj:
  "batch_header_fields txs k = batch_header_fields txs k' \<Longrightarrow> k = k'"
  by (auto simp: batch_header_fields_def dest: hexb_inj)

text \<open>
  C20: what \<open>st_encode_batch\<close> signs. The batch decodes to a header, a signature and the transactions, but the
  signature covers the header with a public key of zeros that the call makes up first, not the
  header that is sent: for every signer the bytes signed and the bytes sent differ.
\<close>

theorem st_encode_batch_signs_other_header:
  assumes pb: "pb_documented pb" and ok: "\<forall>tx \<in> set txs. st_tx_ok tx"
    and key: "length (st_k signer) = 65" "\<exists>b \<in> set (st_k signer). b \<noteq> 0" and sig: "length header_signature = 65"
    and sign: "ecdsa_sign privkey (keccak (proto (batch_header_fields txs (replicate 65 0)))) = (rs, pby)" "length rs = 64"
    and B: "B = batch_fields txs (st_k signer) (rs @ [pby + 27])"
    and buf: "length (proto B) \<le> buf_size" "buf_size \<le> length buf" "length buf < 2 ^ 31" "31 \<le> bits"
  shows "\<exists>n buf'. st_encode_batch pb bits keccak ecdsa_sign header_signature txs (length txs) privkey signer buf buf_size = Inr (int n, buf') \<and>
    fields_of (take n buf') = Some ((1, proto (batch_header_fields txs (st_k signer))) # (2, hexb rs) # tx_list_fields 3 txs) \<and>
    proto (batch_header_fields txs (st_k signer)) \<noteq> proto (batch_header_fields txs (replicate 65 0))"
proof -
  let ?l = "\<lparr>tl_lst = txs, tl_size = length txs\<rparr>" and ?Z = "proto (batch_header_fields txs (replicate 65 0))"
  let ?H = "proto (batch_header_fields txs (st_k signer))"
  have h0: "length ?Z = length ?H" using key(1) by (simp add: batch_header_fields_def proto_Cons delimited_def)
  have hb: "length ?H < length (proto B)" by (simp add: B batch_fields_def proto_Cons delimited_def)
  have small: "length (proto B) < 2 ^ 31" "length ?Z < 2 ^ 31" using buf h0 hb by linarith+
  have room: "length ?Z < buf_size" "0 < length ?Z" using buf h0 hb batch_header_not_empty [of txs "replicate 65 0"] batch_header_not_empty [of txs "st_k signer"]
    by linarith+
  have "emits (pb_encode pb (BatchHeader_fields (batch_header_message pb ?l \<lparr>st_k = replicate 65 0\<rparr>))) ?Z"
    by (rule emits_batch_header [OF pb ok]) simp
  from encode_into_emits(1) [OF this small(2) buf(2)] room(1)
  have hdr: "st_encode_batch_header pb txs (length txs) \<lparr>st_k = replicate 65 0\<rparr> buf buf_size = Inr (int (length ?Z), ?Z @ drop (length ?Z) buf)"
    by (simp add: st_encode_batch_header_def)
  have "(2::nat) ^ 31 \<le> 2 ^ bits" using buf(4) by (rule power_increasing) simp
  with small(2) have "length ?Z < 2 ^ bits" by linarith
  then have n: "int (length ?Z) mod 2 ^ bits = int (length ?Z)" by (simp flip: zmod_int of_nat_power)
  have s: "eth_sign_data_rawsig keccak ecdsa_sign privkey (?Z @ drop (length ?Z) buf) (length ?Z) header_signature = Inr (0, rs @ [pby + 27])"
    using sign sig by (intro eth_sign_data_rawsig_val) simp_all
  have len: "buf_size \<le> length (?Z @ drop (length ?Z) buf)" "length (rs @ [pby + 27]) = 65" using buf(2) sign(2) by simp_all
  have "\<lparr>st_k = st_k signer\<rparr> = signer" by (cases signer) simp
  note e = emits_batch [OF pb ok key(1) len(2) small(1) [unfolded B], unfolded this]
  from encode_into_emits(1) [OF e small(1) [unfolded B] len(1)] buf(1)
  have "st_encode_batch pb bits keccak ecdsa_sign header_signature txs (length txs) privkey signer buf buf_size =
      Inr (int (length (proto B)), proto B @ drop (length (proto B)) (?Z @ drop (length ?Z) buf))"
    using room n s by (simp add: st_encode_batch_def hdr B message_defs Batch_fields_def Batch_init_encoder_def Batch_init_default_def)
  moreover have "fields_of (take (length (proto B)) (proto B @ drop (length (proto B)) (?Z @ drop (length ?Z) buf))) = Some B"
    by simp
  moreover have "B = (1, ?H) # (2, hexb rs) # tx_list_fields 3 txs" using sign(2) by (simp add: B batch_fields_def)
  moreover have "st_k signer \<noteq> replicate 65 0" using key(2) by auto
  then have "?H \<noteq> ?Z" using proto_inj batch_header_fields_inj by blast
  ultimately show ?thesis by metis
qed

theorem st_encode_batch_signs_other_header_witness:
  "\<exists>n buf'. st_encode_batch demo_pb 32 (\<lambda>d. replicate 32 1) (\<lambda>k d. (replicate 64 3, 1)) (replicate 65 0) [demo_st_tx] 1 (replicate 32 1)
      \<lparr>st_k = replicate 65 4\<rparr> (replicate 2048 0) 2048 = Inr (int n, buf') \<and>
    fields_of (take n buf') = Some ((1, proto (batch_header_fields [demo_st_tx] (replicate 65 4))) # (2, hexb (replicate 64 3)) # tx_list_fields 3 [demo_st_tx])"
proof -
  let ?H = "proto (batch_header_fields [demo_st_tx] (replicate 65 4))" and ?sig = "replicate 64 3 @ [1 + 27] :: u8 list"
  have "length (delimited 1 (hexb (replicate 65 4))) \<le> 130 + 4" "length (delimited 2 (hexb (replicate 64 0))) \<le> 128 + 4"
    by (intro delimited_bound; simp)+
  moreover have "batch_header_fields [demo_st_tx] (replicate 65 4) = [(1, hexb (replicate 65 4)), (2, hexb (replicate 64 0))]"
    by (simp add: batch_header_fields_def demo_st_tx_def)
  ultimately have "length ?H \<le> 266" by (simp only: proto_Cons length_append) simp
  then have "length (delimited 1 ?H) \<le> 266 + 4" "length (delimited 2 (hexb (replicate 64 3))) \<le> 128 + 4"
      "length (delimited 3 (proto (st_tx_fields demo_st_tx))) \<le> 600 + 4"
    using demo_length(2) by (intro delimited_bound; simp)+
  moreover have "batch_fields [demo_st_tx] (replicate 65 4) ?sig = [(1, ?H), (2, hexb (replicate 64 3)), (3, proto (st_tx_fields demo_st_tx))]"
    by (simp add: batch_fields_def tx_list_fields_def)
  ultimately have "length (proto (batch_fields [demo_st_tx] (replicate 65 4) ?sig)) \<le> 2048"
    by (simp only: proto_Cons length_append) simp
  then show ?thesis
    using st_encode_batch_signs_other_header [OF demo_documented, of "[demo_st_tx]" "\<lparr>st_k = replicate 65 4\<rparr>" "replicate 65 0"
        "\<lambda>k d. (replicate 64 3, 1)" "replicate 32 1" "\<lambda>d. replicate 32 1" "replicate 64 3" 1 _ 2048 "replicate 2048 0" 32] demo_st_tx_ok(2)
    by fastforce
qed

end
