(* ===== verification/SawtoothError.thy ===== *)
theory SawtoothError
  imports JsonpDecode
begin

text \<open>
  \<open>sawtooth/error_parser.c\<close>: the text of an error reply of a Sawtooth node. The four tokens are an
  uninitialised local array, \<open>t\<close>; the output parameters are a position in the buffer and a length.
\<close>

section \<open>Definitions\<close>

definition st_parse_error_reply ::
    "jsmntok_t list \<Rightarrow> string \<Rightarrow> nat \<Rightarrow> int \<times> int \<Rightarrow> (int \<times> int \<times> int) outcome" where
  "st_parse_error_reply t buf buf_size err =
    bindE (read_at buf 0 buf_size) (\<lambda>js.
    bindE (jsmn_parse jsmn_init js (Some t) 4) (\<lambda>(r, p, tokens).
    let toks = (case tokens of None \<Rightarrow> [] | Some toks \<Rightarrow> toks) in
    if r < 0 then Inr (-1, err)
    else bindE (tok_get toks 0) (\<lambda>t0.
      if r < 1 \<or> tok_type t0 \<noteq> JSMN_OBJECT then Inr (-1, err)
      else bindE (tok_get toks 1) (\<lambda>t1.
        bindE (jsoneq buf t1 ''error'') (\<lambda>eq.
        if eq \<noteq> 0 then Inr (-1, err)
        else bindE (tok_get toks 2) (\<lambda>t2.
          if tok_type t2 \<noteq> JSMN_STRING then Inr (-1, err)
          else Inr (0, tok_start t2, tok_end t2 - tok_start t2)))))))"

section \<open>Replies with one field\<close>

text \<open>An object with one field whose value takes at most two of the four tokens.\<close>

lemma reply_of_one_field:
  assumes "plain k" "json_ok v" "json_size v \<le> 2" "length t = 4" "doc = json_text (JObj (MCons k v MNil))"
  shows "(\<exists>s. k = ''error'' \<and> v = JStr s \<and> st_parse_error_reply t (doc @ tail) (length doc) err = Inr (0, 10, int (length s)) \<and>
      take (length s) (drop 10 (doc @ tail)) = s) \<or>
    (\<not> (k = ''error'' \<and> (\<exists>s. v = JStr s))) \<and> st_parse_error_reply t (doc @ tail) (length doc) err = Inr (-1, err)"
proof -
  let ?v = "JObj (MCons k v MNil)" and ?buf = "doc @ tail"
  define toks where "toks = json_toks ?v 0 @ drop (json_size ?v) t"
  obtain parser' where parse: "jsmn_parse jsmn_init doc (Some t) 4 = Inr (int (json_size ?v), parser', Some toks)"
    using jsmn_parse_text [of ?v 4 t] assms by (auto simp: toks_def)
  have r: "read_at ?buf 0 (length doc) = Inr doc" by (simp add: read_at_def)
  have toks: "tok_get toks 0 = Inr (tok JSMN_OBJECT 0 (length (members_text (MCons k v MNil)) + 2) 1)"
      "tok_get toks 1 = Inr (tok JSMN_STRING (1 + 1) (1 + 1 + length k) 1)"
      "tok_get toks 2 = Inr (hd (json_toks v (length k + 4)))"
    unfolding toks_def by (cases v; simp add: tok_get_def)+
  have "drop 1 ?buf = quoted k @ CHR '':'' # json_text v @ ''}'' @ tail" by (simp add: assms(5))
  from jsoneq_string [OF this, of 1 "''error''"]
  have key: "jsoneq ?buf (tok JSMN_STRING (1 + 1) (1 + 1 + length k) 1) ''error'' = Inr (if k = ''error'' then 0 else -1)" .
  have run: "st_parse_error_reply t ?buf (length doc) err =
      (if k = ''error'' then
         let t2 = hd (json_toks v (length k + 4)) in
         if tok_type t2 \<noteq> JSMN_STRING then Inr (-1, err) else Inr (0, tok_start t2, tok_end t2 - tok_start t2)
       else Inr (-1, err))"
    unfolding st_parse_error_reply_def r parse bindE_Inr using toks key by (simp add: Let_def)
  show ?thesis
  proof (cases "k = ''error'' \<and> (\<exists>s. v = JStr s)")
    case True
    then obtain s where s: "k = ''error''" "v = JStr s" by blast
    have "take (length s) (drop 10 ?buf) = s" by (simp add: assms(5) s quoted_def)
    with run s show ?thesis by simp
  next
    case False
    with run show ?thesis by (cases v) (auto simp: Let_def)
  qed
qed

section \<open>Tokens that were never written\<close>

text \<open>
  The number of tokens found is not checked before the second and the third one are read: for the reply
  \<open>{"error"}\<close>, which the tokeniser accepts, the result is whatever the third, uninitialised token holds.
\<close>

lemma jsmn_parse_key_only:
  assumes "length t = 4"
  shows "\<exists>parser. jsmn_parse jsmn_init (''{'' @ quoted ''error'' @ ''}'') (Some t) 4 =
    Inr (2, parser, Some (tok JSMN_OBJECT 0 9 1 # tok JSMN_STRING 2 7 0 # drop 2 t))"
proof -
  obtain a b c d where t: "t = [a, b, c, d]"
    using assms by (auto simp: numeral_eq_Suc length_Suc_conv)
  let ?js = "''{'' @ quoted ''error'' @ ''}''"
  have "jsmn_loop ?js 4 (parser 0 0 (-1)) (Some t) 0 = jsmn_loop ?js 4 (parser 1 1 0) (Some ([open_tok CHR ''{'' 0 0] @ [b, c, d])) 1"
    using loop_open [of 0 ?js "CHR ''{''" "quoted ''error'' @ ''}''" "[]" 4 t "-1" 0] by (simp add: t bump_def)
  also have "\<dots> = jsmn_loop ?js 4 (parser 8 2 0) (Some ([open_tok CHR ''{'' 0 1, tok JSMN_STRING 2 7 0] @ [c, d])) 2"
    using loop_string [of "''error''" 1 ?js "''}''" "[open_tok CHR ''{'' 0 0]" 4 "[b, c, d]" 0 1]
    by (simp add: bump_def plain_def NUL_def QUOTE_def BACKSLASH_def open_tok_def numeral_eq_Suc)
  also have "\<dots> = jsmn_loop ?js 4 (parser 9 2 (-1)) (Some ([tok JSMN_OBJECT 0 9 1, tok JSMN_STRING 2 7 0] @ [c, d])) 2"
    using loop_close [of 8 ?js "CHR ''}''" "[]" "CHR ''{''" "[]" "-1" "[tok JSMN_STRING 2 7 0]" 4 0 0 1 "[c, d]" 2]
    by (simp add: top_open_def tok_open_def open_tok_def quoted_def numeral_2_eq_2)
  also have "\<dots> = Some (Inr (Inr 2, parser 9 2 (-1), Some [tok JSMN_OBJECT 0 9 1, tok JSMN_STRING 2 7 0, c, d]))"
    by (subst jsmn_loop.simps) (simp add: quoted_def)
  finally show ?thesis
    by (simp add: jsmn_parse_def jsmn_init_def t tok_open_def numeral_2_eq_2 tok_get_def)
qed

lemma st_parse_error_reply_uninitialised:
  assumes "length t = 4"
  shows "st_parse_error_reply t (''{'' @ quoted ''error'' @ ''}'') 9 err =
    (if tok_type (t ! 2) \<noteq> JSMN_STRING then Inr (-1, err) else Inr (0, tok_start (t ! 2), tok_end (t ! 2) - tok_start (t ! 2)))"
proof -
  let ?js = "''{'' @ quoted ''error'' @ ''}''"
  obtain p where p: "jsmn_parse jsmn_init ?js (Some t) 4 = Inr (2, p, Some (tok JSMN_OBJECT 0 9 1 # tok JSMN_STRING 2 7 0 # drop 2 t))"
    using jsmn_parse_key_only [OF assms] by blast
  have "jsoneq ?js (tok JSMN_STRING (1 + 1) (1 + 1 + length ''error'') 0) ''error'' = Inr 0"
    using jsoneq_string [of 1 ?js "''error''" "''}''" 0 "''error''"] by simp
  moreover have "read_at ?js 0 9 = Inr ?js" by (simp add: read_at_def quoted_def)
  moreover have "tok_get (tok JSMN_OBJECT 0 9 1 # tok JSMN_STRING 2 7 0 # drop 2 t) 2 = Inr (t ! 2)" using assms by (simp add: tok_get_def)
  ultimately show ?thesis using p by (simp add: st_parse_error_reply_def tok_get_def)
qed

section \<open>Properties\<close>

text \<open>
  C21: replies that fit into the four tokens with one field. For an object with one field whose value takes at
  most two tokens, the parser succeeds exactly when the field is \<open>error\<close> and its value a string, and then yields
  the position and the length of that string in the buffer; otherwise it returns -1 and leaves its results
  alone. Nothing of the kind holds for an object that has the key and no value: the tokeniser accepts
  \<open>{"error"}\<close>, and the answer is what the third token, never written, happens to hold.
\<close>

theorem st_parse_error_reply_field:
  assumes "plain k" "json_ok v" "json_size v \<le> 2" "length t = 4" "doc = json_text (JObj (MCons k v MNil))"
  shows "(case (k = ''error'', v) of
      (True, JStr s) \<Rightarrow> st_parse_error_reply t (doc @ tail) (length doc) err = Inr (0, 10, int (length s)) \<and>
        take (length s) (drop 10 (doc @ tail)) = s
    | _ \<Rightarrow> st_parse_error_reply t (doc @ tail) (length doc) err = Inr (-1, err)) \<and>
    st_parse_error_reply t (''{'' @ quoted ''error'' @ ''}'') 9 err =
      (if tok_type (t ! 2) \<noteq> JSMN_STRING then Inr (-1, err) else Inr (0, tok_start (t ! 2), tok_end (t ! 2) - tok_start (t ! 2)))"
  using reply_of_one_field [OF assms, of tail err] st_parse_error_reply_uninitialised [OF assms(4), of err]
  by (cases "k = ''error''"; cases v) auto

theorem st_parse_error_reply_field_witness:
  "st_parse_error_reply (replicate 4 (tok JSMN_UNDEFINED 0 0 0)) (json_text (JObj (MCons ''error'' (JStr ''bad'') MNil))) 15 (7, 7) = Inr (0, 10, 3)"
  using st_parse_error_reply_field [of "''error''" "JStr ''bad''" "replicate 4 (tok JSMN_UNDEFINED 0 0 0)" _ "[]" "(7, 7)", OF _ _ _ _ refl]
  by (simp add: plain_def NUL_def QUOTE_def BACKSLASH_def quoted_def numeral_eq_Suc)

end
