(* ===== verification/FishEncoders.thy ===== *)
theory FishEncoders
  imports Sawtooth
begin

text \<open>
  The payloads of the supply chain example: \<open>examples/sawtooth-fish-supply/payload/fish_encoders.c\<close> and the encoding
  functions of \<open>payload.c\<close>. The messages are those of \<open>payload/protos\<close>. nanopb's descriptors (generated, version
  0.3) leave out a static field that is zero, and a submessage all of whose fields are zero.
\<close>

section \<open>Definitions\<close>

text \<open>Static fields: numbers (enumerations and booleans as their number), and submessages.\<close>

definition num_field :: "nanopb \<Rightarrow> nat \<Rightarrow> u64 \<Rightarrow> pb_field_t \<times> pb_encoder option" where
  "num_field pb tag n = (\<lparr>pb_tag = tag, pb_ltype = PB_VARINT\<rparr>,
     if n = 0 then None
     else Some (\<lambda>f s. and_then (pb_encode_tag_for_field pb f s) (\<lambda>s. Inr (pb_encode_varint pb n s))))"

definition sub_field :: "nanopb \<Rightarrow> nat \<Rightarrow> bool \<Rightarrow> pb_message \<Rightarrow> pb_field_t \<times> pb_encoder option" where
  "sub_field pb tag zero m = (\<lparr>pb_tag = tag, pb_ltype = PB_SUBMESSAGE\<rparr>,
     if zero then None else Some (\<lambda>f s. and_then (pb_encode_tag_for_field pb f s) (pb_encode_submessage pb m)))"

definition unset :: "pb_callback_t \<Rightarrow> bool" where
  "unset cb \<longleftrightarrow> Option.is_none (cb_encode cb) \<and> Option.is_none (cb_arg cb)"

text \<open>\<open>property.proto\<close>\<close>

datatype PropertySchema_DataType = TYPE_UNSET | BYTES | BOOLEAN | NUMBER | STRING | ENUM | STRUCT | LOCATION

fun data_type_number :: "PropertySchema_DataType \<Rightarrow> u64" where
  "data_type_number TYPE_UNSET = 0" | "data_type_number BYTES = 1" | "data_type_number BOOLEAN = 2"
| "data_type_number NUMBER = 3" | "data_type_number STRING = 4" | "data_type_number ENUM = 5"
| "data_type_number STRUCT = 6" | "data_type_number LOCATION = 7"

record Location =
  lc_latitude :: u64
  lc_longitude :: u64

record PropertyValue =
  pv_name :: pb_callback_t
  pv_data_type :: PropertySchema_DataType
  pv_bytes_value :: pb_callback_t
  pv_boolean_value :: bool
  pv_number_value :: u64
  pv_string_value :: pb_callback_t
  pv_enum_value :: pb_callback_t
  pv_struct_values :: pb_callback_t
  pv_location_value :: Location

definition PropertyValue_zero :: PropertyValue where
  "PropertyValue_zero = \<lparr>pv_name = callback_zero, pv_data_type = TYPE_UNSET, pv_bytes_value = callback_zero,
     pv_boolean_value = False, pv_number_value = 0, pv_string_value = callback_zero, pv_enum_value = callback_zero,
     pv_struct_values = callback_zero, pv_location_value = \<lparr>lc_latitude = 0, lc_longitude = 0\<rparr>\<rparr>"

definition Location_fields :: "nanopb \<Rightarrow> Location \<Rightarrow> pb_message" where
  "Location_fields pb l = [num_field pb 1 (zigzag (lc_latitude l)), num_field pb 2 (zigzag (lc_longitude l))]"

definition PropertyValue_fields :: "nanopb \<Rightarrow> PropertyValue \<Rightarrow> pb_message" where
  "PropertyValue_fields pb v =
    [fld 1 PB_STRING (pv_name v), num_field pb 2 (data_type_number (pv_data_type v)), fld 11 PB_BYTES (pv_bytes_value v),
     num_field pb 12 (if pv_boolean_value v then 1 else 0), num_field pb 13 (zigzag (pv_number_value v)),
     fld 14 PB_STRING (pv_string_value v), fld 15 PB_STRING (pv_enum_value v), fld 16 PB_SUBMESSAGE (pv_struct_values v),
     sub_field pb 17 (lc_latitude (pv_location_value v) = 0 \<and> lc_longitude (pv_location_value v) = 0)
       (Location_fields pb (pv_location_value v))]"

text \<open>\<open>payload.proto\<close>, \<open>proposal.proto\<close> and \<open>agent.proto\<close>\<close>

datatype SCPayload_Action = CREATE_AGENT | CREATE_RECORD | FINALIZE_RECORD | CREATE_RECORD_TYPE | UPDATE_PROPERTIES |
  CREATE_PROPOSAL | ANSWER_PROPOSAL | REVOKE_REPORTER

fun action_number :: "SCPayload_Action \<Rightarrow> u64" where
  "action_number CREATE_AGENT = 0" | "action_number CREATE_RECORD = 1" | "action_number FINALIZE_RECORD = 2"
| "action_number CREATE_RECORD_TYPE = 3" | "action_number UPDATE_PROPERTIES = 4" | "action_number CREATE_PROPOSAL = 5"
| "action_number ANSWER_PROPOSAL = 6" | "action_number REVOKE_REPORTER = 7"

record Agent =
  ag_public_key :: pb_callback_t
  ag_name :: pb_callback_t
  ag_timestamp :: u64

record CreateAgentAction = ca_name :: pb_callback_t

record CreateRecordAction =
  cr_record_id :: pb_callback_t
  cr_record_type :: pb_callback_t
  cr_properties :: pb_callback_t

record FinalizeRecordAction = fr_record_id :: pb_callback_t

record CreateRecordTypeAction =
  ct_name :: pb_callback_t
  ct_properties :: pb_callback_t

record UpdatePropertiesAction =
  upd_record_id :: pb_callback_t
  upd_properties :: pb_callback_t

record CreateProposalAction =
  cp_record_id :: pb_callback_t
  cp_receiving_agent :: pb_callback_t
  cp_role :: u64
  cp_properties :: pb_callback_t

record AnswerProposalAction =
  ap_record_id :: pb_callback_t
  ap_receiving_agent :: pb_callback_t
  ap_role :: u64
  ap_response :: u64

record RevokeReporterAction =
  rr_record_id :: pb_callback_t
  rr_reporter_id :: pb_callback_t
  rr_properties :: pb_callback_t

record SCPayload =
  sp_action :: SCPayload_Action
  sp_timestamp :: u64
  sp_create_agent :: CreateAgentAction
  sp_create_record :: CreateRecordAction
  sp_finalize_record :: FinalizeRecordAction
  sp_create_record_type :: CreateRecordTypeAction
  sp_update_properties :: UpdatePropertiesAction
  sp_create_proposal :: CreateProposalAction
  sp_answer_proposal :: AnswerProposalAction
  sp_revoke_reporter :: RevokeReporterAction

definition SCPayload_init_default :: SCPayload where
  "SCPayload_init_default = \<lparr>sp_action = CREATE_AGENT, sp_timestamp = 0, sp_create_agent = \<lparr>ca_name = callback_zero\<rparr>,
     sp_create_record = \<lparr>cr_record_id = callback_zero, cr_record_type = callback_zero, cr_properties = callback_zero\<rparr>,
     sp_finalize_record = \<lparr>fr_record_id = callback_zero\<rparr>,
     sp_create_record_type = \<lparr>ct_name = callback_zero, ct_properties = callback_zero\<rparr>,
     sp_update_properties = \<lparr>upd_record_id = callback_zero, upd_properties = callback_zero\<rparr>,
     sp_create_proposal = \<lparr>cp_record_id = callback_zero, cp_receiving_agent = callback_zero, cp_role = 0, cp_properties = callback_zero\<rparr>,
     sp_answer_proposal = \<lparr>ap_record_id = callback_zero, ap_receiving_agent = callback_zero, ap_role = 0, ap_response = 0\<rparr>,
     sp_revoke_reporter = \<lparr>rr_record_id = callback_zero, rr_reporter_id = callback_zero, rr_properties = callback_zero\<rparr>\<rparr>"

definition callbacks_field :: "nanopb \<Rightarrow> nat \<Rightarrow> (nat \<times> pb_ltype \<times> pb_callback_t) list \<Rightarrow> pb_field_t \<times> pb_encoder option" where
  "callbacks_field pb tag cbs = sub_field pb tag (\<forall>(_, _, cb) \<in> set cbs. unset cb) (map (\<lambda>(tag, t, cb). fld tag t cb) cbs)"

definition SCPayload_fields :: "nanopb \<Rightarrow> SCPayload \<Rightarrow> pb_message" where
  "SCPayload_fields pb p =
    [num_field pb 1 (action_number (sp_action p)), num_field pb 2 (sp_timestamp p),
     callbacks_field pb 3 [(1, PB_STRING, ca_name (sp_create_agent p))],
     callbacks_field pb 4 [(1, PB_STRING, cr_record_id (sp_create_record p)), (2, PB_STRING, cr_record_type (sp_create_record p)),
       (3, PB_SUBMESSAGE, cr_properties (sp_create_record p))],
     callbacks_field pb 5 [(1, PB_STRING, fr_record_id (sp_finalize_record p))],
     callbacks_field pb 6 [(1, PB_STRING, ct_name (sp_create_record_type p)), (2, PB_SUBMESSAGE, ct_properties (sp_create_record_type p))],
     callbacks_field pb 7 [(1, PB_STRING, upd_record_id (sp_update_properties p)), (2, PB_SUBMESSAGE, upd_properties (sp_update_properties p))],
     (let a = sp_create_proposal p in sub_field pb 8
        (unset (cp_record_id a) \<and> unset (cp_receiving_agent a) \<and> cp_role a = 0 \<and> unset (cp_properties a))
        [fld 1 PB_STRING (cp_record_id a), fld 2 PB_STRING (cp_receiving_agent a), num_field pb 3 (cp_role a), fld 4 PB_STRING (cp_properties a)]),
     (let a = sp_answer_proposal p in sub_field pb 9
        (unset (ap_record_id a) \<and> unset (ap_receiving_agent a) \<and> ap_role a = 0 \<and> ap_response a = 0)
        [fld 1 PB_STRING (ap_record_id a), fld 2 PB_STRING (ap_receiving_agent a), num_field pb 3 (ap_role a), num_field pb 4 (ap_response a)]),
     callbacks_field pb 10 [(1, PB_STRING, rr_record_id (sp_revoke_reporter p)), (2, PB_STRING, rr_reporter_id (sp_revoke_reporter p)),
       (3, PB_STRING, rr_properties (sp_revoke_reporter p))]]"

text \<open>\<open>fish_encoders.c\<close>\<close>

definition write_properties :: "nanopb \<Rightarrow> encode_fun" where
  "write_properties pb arg field stream =
    bindE (as_messages arg) (\<lambda>(lst, size).
    each (\<lambda>i stream. bindE (elem lst i) (\<lambda>m.
        and_then (pb_encode_tag_for_field pb field stream) (pb_encode_submessage pb m)))
      [0..<size] stream)"

definition write_struct_values :: encode_fun where
  "write_struct_values arg field stream = Inr (True, stream)"

definition PropertyValue_init_encoder :: "nanopb \<Rightarrow> PropertyValue \<Rightarrow> PropertySchema_DataType \<Rightarrow> PropertyValue" where
  "PropertyValue_init_encoder pb v type =
    (let v = v\<lparr>pv_name := set_encode (write_string pb) (pv_name v), pv_data_type := type\<rparr> in
     case type of
       STRING \<Rightarrow> v\<lparr>pv_string_value := set_encode (write_string pb) (pv_string_value v)\<rparr>
     | BYTES \<Rightarrow> v\<lparr>pv_bytes_value := set_encode (write_bytes pb) (pv_bytes_value v)\<rparr>
     | STRUCT \<Rightarrow> v\<lparr>pv_struct_values := set_encode write_struct_values (pv_struct_values v)\<rparr>
     | _ \<Rightarrow> v)"

definition Agent_init_encoder :: "nanopb \<Rightarrow> Agent \<Rightarrow> Agent" where
  "Agent_init_encoder pb agent = agent\<lparr>
     ag_public_key := set_encode (write_pubkey pb) (ag_public_key agent),
     ag_name := set_encode (write_string pb) (ag_name agent)\<rparr>"

definition UpdatePropertiesAction_init_encoder :: "nanopb \<Rightarrow> UpdatePropertiesAction \<Rightarrow> UpdatePropertiesAction" where
  "UpdatePropertiesAction_init_encoder pb a = a\<lparr>
     upd_record_id := set_encode (write_string pb) (upd_record_id a),
     upd_properties := set_encode (write_properties pb) (upd_properties a)\<rparr>"

definition CreateRecordAction_init_encoder :: "nanopb \<Rightarrow> CreateRecordAction \<Rightarrow> CreateRecordAction" where
  "CreateRecordAction_init_encoder pb a = a\<lparr>
     cr_record_id := set_encode (write_string pb) (cr_record_id a),
     cr_record_type := set_encode (write_string pb) (cr_record_type a),
     cr_properties := set_encode (write_properties pb) (cr_properties a)\<rparr>"

definition CreateProposalAction_init_encoder :: "nanopb \<Rightarrow> CreateProposalAction \<Rightarrow> CreateProposalAction" where
  "CreateProposalAction_init_encoder pb a = a\<lparr>
     cp_record_id := set_encode (write_string pb) (cp_record_id a),
     cp_receiving_agent := set_encode (write_string pb) (cp_receiving_agent a)\<rparr>"

definition AnswerProposalAction_init_encoder :: "nanopb \<Rightarrow> AnswerProposalAction \<Rightarrow> AnswerProposalAction" where
  "AnswerProposalAction_init_encoder pb a = a\<lparr>
     ap_record_id := set_encode (write_string pb) (ap_record_id a),
     ap_receiving_agent := set_encode (write_string pb) (ap_receiving_agent a)\<rparr>"

definition RevokeReporterAction_init_encoder :: "nanopb \<Rightarrow> RevokeReporterAction \<Rightarrow> RevokeReporterAction" where
  "RevokeReporterAction_init_encoder pb a = a\<lparr>
     rr_record_id := set_encode (write_string pb) (rr_record_id a),
     rr_reporter_id := set_encode (write_string pb) (rr_reporter_id a)\<rparr>"

definition SCPayload_init_encoder :: "nanopb \<Rightarrow> SCPayload \<Rightarrow> SCPayload" where
  "SCPayload_init_encoder pb p =
    (case sp_action p of
       CREATE_AGENT \<Rightarrow> p\<lparr>sp_create_agent := \<lparr>ca_name = set_encode (write_string pb) (ca_name (sp_create_agent p))\<rparr>\<rparr>
     | CREATE_RECORD \<Rightarrow> p\<lparr>sp_create_record := CreateRecordAction_init_encoder pb (sp_create_record p)\<rparr>
     | UPDATE_PROPERTIES \<Rightarrow> p\<lparr>sp_update_properties := UpdatePropertiesAction_init_encoder pb (sp_update_properties p)\<rparr>
     | FINALIZE_RECORD \<Rightarrow> p\<lparr>sp_finalize_record := \<lparr>fr_record_id = set_encode (write_string pb) (fr_record_id (sp_finalize_record p))\<rparr>\<rparr>
     | _ \<Rightarrow> p)"

text \<open>\<open>payload.c\<close>. The two texts of a record are arrays of 4 and 16 bytes; \<open>now\<close> is the clock, \<open>tv.tv_sec\<close>.\<close>

definition RECORD_SPECIES_LEN :: nat where "RECORD_SPECIES_LEN = 4"
definition RECORD_ID_LEN :: nat where "RECORD_ID_LEN = 16"

record fish_record_t =
  rec_weight :: u64
  rec_length :: u64
  rec_species :: "u8 list"
  rec_id :: "u8 list"
  rec_latitude :: u64
  rec_longitude :: u64

definition c_string :: "string \<Rightarrow> pointee" where
  "c_string s = P_bytes (string_bytes s @ [0])"

definition init_payload :: "nanopb \<Rightarrow> u64 \<Rightarrow> SCPayload_Action \<Rightarrow> SCPayload \<Rightarrow> SCPayload" where
  "init_payload pb now action payload =
    (let payload = SCPayload_init_encoder pb (payload\<lparr>sp_action := action\<rparr>) in payload\<lparr>sp_timestamp := now\<rparr>)"

definition encode_create_agent :: "nanopb \<Rightarrow> u64 \<Rightarrow> string \<Rightarrow> u8 list \<Rightarrow> nat \<Rightarrow> (int \<times> u8 list) outcome" where
  "encode_create_agent pb now agent_name buf buf_size =
    (let payload = init_payload pb now CREATE_AGENT SCPayload_init_default;
         payload = payload\<lparr>sp_create_agent := \<lparr>ca_name = set_arg (c_string agent_name) (ca_name (sp_create_agent payload))\<rparr>\<rparr>
     in encode_into pb (SCPayload_fields pb payload) buf buf_size)"

definition fish_record_set_properties ::
    "nanopb \<Rightarrow> bool \<Rightarrow> fish_record_t \<Rightarrow> PropertyValue list \<Rightarrow> nat \<Rightarrow> PropertyValue list outcome" where
  "fish_record_set_properties pb asserts rec properties properties_len =
    bindE (assertE (asserts \<longrightarrow> properties_len \<ge> 4)) (\<lambda>_.
    bindE (elem properties 0) (\<lambda>p0. bindE (elem properties 1) (\<lambda>p1.
    bindE (elem properties 2) (\<lambda>p2. bindE (elem properties 3) (\<lambda>p3.
    let p0 = PropertyValue_init_encoder pb p0 NUMBER; p1 = PropertyValue_init_encoder pb p1 NUMBER;
        p2 = PropertyValue_init_encoder pb p2 STRING; p3 = PropertyValue_init_encoder pb p3 LOCATION;
        p0 = p0\<lparr>pv_name := set_arg (c_string ''weight'') (pv_name p0), pv_number_value := rec_weight rec\<rparr>;
        p1 = p1\<lparr>pv_name := set_arg (c_string ''length'') (pv_name p1), pv_number_value := rec_length rec\<rparr>;
        p2 = p2\<lparr>pv_name := set_arg (c_string ''species'') (pv_name p2),
          pv_string_value := set_arg (P_bytes (rec_species rec)) (pv_string_value p2)\<rparr>;
        p3 = p3\<lparr>pv_name := set_arg (c_string ''location'') (pv_name p3),
          pv_location_value := \<lparr>lc_latitude = rec_latitude rec, lc_longitude = rec_longitude rec\<rparr>\<rparr>
    in Inr (properties[0 := p0, 1 := p1, 2 := p2, 3 := p3]))))))"

definition encode_createRecord ::
    "nanopb \<Rightarrow> bool \<Rightarrow> u64 \<Rightarrow> fish_record_t \<Rightarrow> u8 list \<Rightarrow> nat \<Rightarrow> (int \<times> u8 list) outcome" where
  "encode_createRecord pb asserts now rec buf buf_size =
    (let payload = init_payload pb now CREATE_RECORD SCPayload_init_default in
     bindE (fish_record_set_properties pb asserts rec (replicate 4 PropertyValue_zero) 4) (\<lambda>properties.
     let property_lst = P_messages (map (PropertyValue_fields pb) properties) 4;
         a = sp_create_record payload;
         payload = payload\<lparr>sp_create_record := a\<lparr>
           cr_properties := set_arg property_lst (cr_properties a),
           cr_record_id := set_arg (P_bytes (rec_id rec)) (cr_record_id a),
           cr_record_type := set_arg (c_string ''fish'') (cr_record_type a)\<rparr>\<rparr>
     in encode_into pb (SCPayload_fields pb payload) buf buf_size))"

definition encode_updateProperties ::
    "nanopb \<Rightarrow> bool \<Rightarrow> u64 \<Rightarrow> fish_record_t \<Rightarrow> u8 list \<Rightarrow> nat \<Rightarrow> (int \<times> u8 list) outcome" where
  "encode_updateProperties pb asserts now rec buf buf_size =
    (let payload = init_payload pb now UPDATE_PROPERTIES SCPayload_init_default in
     bindE (fish_record_set_properties pb asserts rec (replicate 4 PropertyValue_zero) 4) (\<lambda>properties.
     let property_lst = P_messages (map (PropertyValue_fields pb) properties) 4;
         a = sp_update_properties payload;
         payload = payload\<lparr>sp_update_properties := a\<lparr>
           upd_properties := set_arg property_lst (upd_properties a),
           upd_record_id := set_arg (P_bytes (rec_id rec)) (upd_record_id a)\<rparr>\<rparr>
     in encode_into pb (SCPayload_fields pb payload) buf buf_size))"

section \<open>What the payloads read back as\<close>

text \<open>
  A reader of the messages, as the other side has it: a number or a text that is not there is 0 or empty. The
  properties of a record are found by their names.
\<close>

definition number_at :: "nat \<Rightarrow> (nat \<times> wire_value) list \<Rightarrow> nat" where
  "number_at tag fs = (case map_of fs tag of Some (Number n) \<Rightarrow> n | _ \<Rightarrow> 0)"

definition bytes_at :: "nat \<Rightarrow> (nat \<times> wire_value) list \<Rightarrow> u8 list" where
  "bytes_at tag fs = (case map_of fs tag of Some (Bytes bs) \<Rightarrow> bs | _ \<Rightarrow> [])"

definition message_at :: "nat \<Rightarrow> (nat \<times> wire_value) list \<Rightarrow> (nat \<times> wire_value) list" where
  "message_at tag fs = (case read_wire (bytes_at tag fs) of Some m \<Rightarrow> m | None \<Rightarrow> [])"

fun property_at :: "nat \<Rightarrow> u8 list \<Rightarrow> (nat \<times> wire_value) list \<Rightarrow> (nat \<times> wire_value) list" where
  "property_at tag name [] = []"
| "property_at tag name ((t, Bytes bs) # fs) =
    (case read_wire bs of
       Some m \<Rightarrow> if t = tag \<and> bytes_at 1 m = name then m else property_at tag name fs
     | None \<Rightarrow> property_at tag name fs)"
| "property_at tag name (f # fs) = property_at tag name fs"

text \<open>What a record says, whatever message carries it.\<close>

record fish_data =
  fish_weight :: int
  fish_length :: int
  fish_species :: "u8 list"
  fish_id :: "u8 list"
  fish_latitude :: int
  fish_longitude :: int

definition read_fish :: "nat \<Rightarrow> nat \<Rightarrow> (nat \<times> wire_value) list \<Rightarrow> fish_data" where
  "read_fish act props fs =
    (let a = message_at act fs; p = (\<lambda>name. property_at props (string_bytes name) a); l = message_at 17 (p ''location'') in
     \<lparr>fish_weight = unzigzag (number_at 13 (p ''weight'')), fish_length = unzigzag (number_at 13 (p ''length'')),
      fish_species = bytes_at 14 (p ''species''), fish_id = bytes_at 1 a,
      fish_latitude = unzigzag (number_at 1 l), fish_longitude = unzigzag (number_at 2 l)\<rparr>)"

definition fish_of :: "fish_record_t \<Rightarrow> fish_data" where
  "fish_of rec = \<lparr>fish_weight = sint (rec_weight rec), fish_length = sint (rec_length rec), fish_species = text_of (rec_species rec),
     fish_id = text_of (rec_id rec), fish_latitude = sint (rec_latitude rec), fish_longitude = sint (rec_longitude rec)\<rparr>"

text \<open>The fields the code writes.\<close>

definition opt_number :: "nat \<Rightarrow> u64 \<Rightarrow> (nat \<times> wire_value) list" where
  "opt_number tag n = (if n = 0 then [] else [(tag, Number (unat n))])"

definition location_wire :: "u64 \<Rightarrow> u64 \<Rightarrow> (nat \<times> wire_value) list" where
  "location_wire lat long = opt_number 1 (zigzag lat) @ opt_number 2 (zigzag long)"

definition property_wires :: "fish_record_t \<Rightarrow> (nat \<times> wire_value) list list" where
  "property_wires rec =
    [(1, Bytes (string_bytes ''weight'')) # opt_number 2 3 @ opt_number 13 (zigzag (rec_weight rec)),
     (1, Bytes (string_bytes ''length'')) # opt_number 2 3 @ opt_number 13 (zigzag (rec_length rec)),
     [(1, Bytes (string_bytes ''species'')), (2, Number 4), (14, Bytes (text_of (rec_species rec)))],
     [(1, Bytes (string_bytes ''location'')), (2, Number 7)] @
       (if rec_latitude rec = 0 \<and> rec_longitude rec = 0 then []
        else [(17, Bytes (wire (location_wire (rec_latitude rec) (rec_longitude rec))))])]"

definition create_wire :: "fish_record_t \<Rightarrow> (nat \<times> wire_value) list" where
  "create_wire rec = [(1, Bytes (text_of (rec_id rec))), (2, Bytes (string_bytes ''fish''))] @
     map (\<lambda>m. (3, Bytes (wire m))) (property_wires rec)"

definition update_wire :: "fish_record_t \<Rightarrow> (nat \<times> wire_value) list" where
  "update_wire rec = (1, Bytes (text_of (rec_id rec))) # map (\<lambda>m. (2, Bytes (wire m))) (property_wires rec)"

definition payload_wire :: "u64 \<Rightarrow> u64 \<Rightarrow> nat \<Rightarrow> (nat \<times> wire_value) list \<Rightarrow> (nat \<times> wire_value) list" where
  "payload_wire action now tag m = opt_number 1 action @ opt_number 2 now @ [(tag, Bytes (wire m))]"

section \<open>What the encoders write\<close>

definition writes :: "pb_field_t \<times> pb_encoder option \<Rightarrow> u8 list \<Rightarrow> bool" where
  "writes fe bs \<longleftrightarrow> (case fe of (f, e) \<Rightarrow> case e of None \<Rightarrow> bs = [] | Some cb \<Rightarrow> emits (cb f) bs)"

lemma emits_fields:
  assumes "pb_documented pb" "list_all2 writes m bss" "concat bss = bs"
  shows "emits (pb_encode pb m) bs"
proof -
  have "writes = (\<lambda>(f, e) bs. case e of None \<Rightarrow> bs = [] | Some cb \<Rightarrow> emits (cb f) bs)"
    by (intro ext) (simp add: writes_def split: prod.split)
  with emits_message [OF assms(1)] assms(2,3) show ?thesis by metis
qed

lemma writes_num: "pb_documented pb \<Longrightarrow> writes (num_field pb tag n) (wire (opt_number tag n))"
  using emits_and_then [OF pb_simps(3) pb_simps(2), of pb pb "\<lparr>pb_tag = tag, pb_ltype = PB_VARINT\<rparr>" n]
  by (simp add: writes_def num_field_def opt_number_def wire_Cons wire_type_def)

lemma writes_unset: "cb_encode cb = None \<Longrightarrow> writes (fld tag t cb) []"
  by (simp add: writes_def fld_def)

lemma writes_callback:
  "cb_encode cb = Some e \<Longrightarrow> emits (e (cb_arg cb) \<lparr>pb_tag = tag, pb_ltype = t\<rparr>) bs \<Longrightarrow> writes (fld tag t cb) bs"
  by (simp add: writes_def fld_def)

lemma writes_string:
  assumes "pb_documented pb" "cb = \<lparr>cb_encode = Some (write_string pb), cb_arg = Some (P_bytes a)\<rparr>" "0 \<in> set a"
  shows "writes (fld tag PB_STRING cb) (wire [(tag, Bytes (text_of a))])"
  by (rule writes_callback [of _ "write_string pb"])
    (use emits_string [OF assms(1) _ assms(3), of "\<lparr>pb_tag = tag, pb_ltype = PB_STRING\<rparr>"] assms(2) in \<open>simp_all add: wire_Cons\<close>)

lemma text_of_c_string:
  assumes "CHR 0x00 \<notin> set s"
  shows "text_of (string_bytes s @ [0]) = string_bytes s"
proof -
  have z: "(of_char (CHR 0x00) :: u8) = 0" by simp
  have "(of_char c :: u8) \<noteq> 0" if "c \<in> set s" for c
    using of_char_u8 [of c "CHR 0x00"] that assms unfolding z by metis
  then have "takeWhile (\<lambda>b. b \<noteq> 0) (string_bytes s @ [0]) = string_bytes s @ takeWhile (\<lambda>b. b \<noteq> 0) [0 :: u8]"
    by (intro takeWhile_append2) (auto simp only: string_bytes_def set_map image_iff)
  then show ?thesis by (simp add: text_of_def)
qed

lemma writes_c_string:
  assumes "pb_documented pb" "cb = \<lparr>cb_encode = Some (write_string pb), cb_arg = Some (c_string s)\<rparr>" "CHR 0x00 \<notin> set s"
  shows "writes (fld tag PB_STRING cb) (wire [(tag, Bytes (string_bytes s))])"
  using writes_string [OF assms(1), of cb "string_bytes s @ [0]" tag] assms(2,3) by (simp add: c_string_def text_of_c_string)

lemma writes_sub:
  assumes "pb_documented pb" "\<not> zero \<Longrightarrow> emits (pb_encode pb m) bs" "length bs < 2 ^ 31"
  shows "writes (sub_field pb tag zero m) (wire (if zero then [] else [(tag, Bytes bs)]))"
  using emits_submessage_field [OF assms(1) _ assms(2,3), of "\<lparr>pb_tag = tag, pb_ltype = PB_SUBMESSAGE\<rparr>"]
  by (simp add: writes_def sub_field_def wire_Cons)

lemma callbacks_field_eq:
  "callbacks_field pb tag cbs = sub_field pb tag (\<forall>(_, _, cb) \<in> set cbs. unset cb) (map (\<lambda>(tag, t, cb). fld tag t cb) cbs)"
  by (simp add: callbacks_field_def)

lemma length_varint: "n < 2 ^ (7 * Suc k) \<Longrightarrow> length (varint n) \<le> Suc k"
proof (induction k arbitrary: n)
  case 0
  then show ?case by (subst varint.simps) simp
next
  case (Suc k)
  then have "n div 128 < 2 ^ (7 * Suc k)" by (simp add: less_mult_imp_div_less power_add)
  with Suc.IH show ?case by (subst varint.simps) simp
qed

lemma length_opt_number: "tag < 16 \<Longrightarrow> length (wire (opt_number tag n)) \<le> 11"
proof -
  assume "tag < 16"
  then have "length (varint (tag * 8)) \<le> 1" using length_varint [of "tag * 8" 0] by simp
  moreover have "length (varint (unat n)) \<le> 10" using length_varint [of "unat n" 9] u64_bound [of n] by simp
  ultimately show ?thesis by (simp add: opt_number_def wire_Cons)
qed

lemma emits_location:
  assumes "pb_documented pb"
  shows "emits (pb_encode pb (Location_fields pb \<lparr>lc_latitude = lat, lc_longitude = long\<rparr>)) (wire (location_wire lat long))"
  by (rule emits_fields [OF assms, where bss = "[wire (opt_number 1 (zigzag lat)), wire (opt_number 2 (zigzag long))]"])
    (simp_all add: Location_fields_def location_wire_def wire_append writes_num [OF assms])

text \<open>Records whose texts are C strings in their arrays.\<close>

definition rec_ok :: "fish_record_t \<Rightarrow> bool" where
  "rec_ok rec \<longleftrightarrow> length (rec_species rec) = RECORD_SPECIES_LEN \<and> length (rec_id rec) = RECORD_ID_LEN \<and>
     0 \<in> set (rec_species rec) \<and> 0 \<in> set (rec_id rec)"

definition with_name :: "nanopb \<Rightarrow> string \<Rightarrow> PropertySchema_DataType \<Rightarrow> PropertyValue" where
  "with_name pb name t = PropertyValue_zero\<lparr>pv_name := \<lparr>cb_encode = Some (write_string pb), cb_arg = Some (c_string name)\<rparr>, pv_data_type := t\<rparr>"

lemma set_properties:
  "fish_record_set_properties pb asserts rec (replicate 4 PropertyValue_zero) 4 = Inr
    [(with_name pb ''weight'' NUMBER)\<lparr>pv_number_value := rec_weight rec\<rparr>,
     (with_name pb ''length'' NUMBER)\<lparr>pv_number_value := rec_length rec\<rparr>,
     (with_name pb ''species'' STRING)\<lparr>pv_string_value := \<lparr>cb_encode = Some (write_string pb), cb_arg = Some (P_bytes (rec_species rec))\<rparr>\<rparr>,
     (with_name pb ''location'' LOCATION)\<lparr>pv_location_value := \<lparr>lc_latitude = rec_latitude rec, lc_longitude = rec_longitude rec\<rparr>\<rparr>]"
proof -
  have r: "replicate 4 PropertyValue_zero = [PropertyValue_zero, PropertyValue_zero, PropertyValue_zero, PropertyValue_zero]"
    by (simp add: numeral_eq_Suc)
  show ?thesis unfolding r
    by (simp add: fish_record_set_properties_def elem_def PropertyValue_init_encoder_def with_name_def PropertyValue_zero_def message_defs)
qed

lemmas property_defs = PropertyValue_fields_def with_name_def PropertyValue_zero_def callback_zero_def

lemma zigzag_0 [simp]: "zigzag 0 = 0"
  by (simp add: zigzag_def)

lemma opt_number_0 [simp]: "opt_number tag 0 = []"
  by (simp add: opt_number_def)

lemma writes_zero: "pb_documented pb \<Longrightarrow> writes (num_field pb tag 0) []"
  using writes_num [of pb tag 0] by simp

lemma writes_no_sub: "writes (sub_field pb tag True m) []"
  by (simp add: writes_def sub_field_def)

lemma emits_property:
  assumes pb: "pb_documented pb" and "writes (fld 1 PB_STRING (pv_name v)) b1" "writes (fld 14 PB_STRING (pv_string_value v)) b14"
    and "writes (sub_field pb 17 (lc_latitude (pv_location_value v) = 0 \<and> lc_longitude (pv_location_value v) = 0)
       (Location_fields pb (pv_location_value v))) b17"
    and "cb_encode (pv_bytes_value v) = None" "cb_encode (pv_enum_value v) = None" "cb_encode (pv_struct_values v) = None"
      "\<not> pv_boolean_value v"
  shows "emits (pb_encode pb (PropertyValue_fields pb v))
    (b1 @ wire (opt_number 2 (data_type_number (pv_data_type v))) @ wire (opt_number 13 (zigzag (pv_number_value v))) @ b14 @ b17)"
  by (rule emits_fields [OF pb, where bss = "[b1, wire (opt_number 2 (data_type_number (pv_data_type v))), [], [],
      wire (opt_number 13 (zigzag (pv_number_value v))), b14, [], [], b17]"])
    (use assms in \<open>simp_all add: PropertyValue_fields_def writes_num [OF pb] writes_zero [OF pb] writes_unset\<close>)

lemma named:
  assumes "pb_documented pb" "CHR 0x00 \<notin> set name"
  shows "writes (fld 1 PB_STRING (pv_name (with_name pb name t))) (wire [(1, Bytes (string_bytes name))])"
  using writes_c_string [OF assms(1) HOL.refl assms(2)] by (simp add: with_name_def)

lemma with_name_simps [simp]:
  "pv_string_value (with_name pb name t) = callback_zero" "pv_data_type (with_name pb name t) = t"
  "pv_bytes_value (with_name pb name t) = callback_zero" "pv_enum_value (with_name pb name t) = callback_zero"
  "pv_struct_values (with_name pb name t) = callback_zero" "\<not> pv_boolean_value (with_name pb name t)"
  "pv_number_value (with_name pb name t) = 0"
  "pv_location_value (with_name pb name t) = \<lparr>lc_latitude = 0, lc_longitude = 0\<rparr>"
  by (simp_all add: with_name_def PropertyValue_zero_def)

lemma callback_zero_unset [simp]: "cb_encode callback_zero = None" "unset callback_zero"
  by (simp_all add: callback_zero_def unset_def)

lemma emits_number_property:
  assumes pb: "pb_documented pb" and "CHR 0x00 \<notin> set name"
  shows "emits (pb_encode pb (PropertyValue_fields pb ((with_name pb name NUMBER)\<lparr>pv_number_value := v\<rparr>)))
    (wire ((1, Bytes (string_bytes name)) # opt_number 2 3 @ opt_number 13 (zigzag v)))"
  using emits_property [OF pb, of "(with_name pb name NUMBER)\<lparr>pv_number_value := v\<rparr>" "wire [(1, Bytes (string_bytes name))]" "[]" "[]"]
    named [OF assms] by (simp add: writes_unset writes_no_sub wire_append wire_Cons)

lemma emits_species:
  assumes pb: "pb_documented pb" and "0 \<in> set a"
  shows "emits (pb_encode pb (PropertyValue_fields pb ((with_name pb ''species'' STRING)\<lparr>pv_string_value :=
      \<lparr>cb_encode = Some (write_string pb), cb_arg = Some (P_bytes a)\<rparr>\<rparr>)))
    (wire [(1, Bytes (string_bytes ''species'')), (2, Number 4), (14, Bytes (text_of a))])"
  using emits_property [OF pb, of "(with_name pb ''species'' STRING)\<lparr>pv_string_value := \<lparr>cb_encode = Some (write_string pb), cb_arg = Some (P_bytes a)\<rparr>\<rparr>"
      "wire [(1, Bytes (string_bytes ''species''))]" "wire [(14, Bytes (text_of a))]" "[]"]
    named [OF pb, of "''species''"] writes_string [OF pb HOL.refl assms(2), of 14]
  by (simp add: writes_no_sub opt_number_def wire_Cons)

lemma length_location: "length (wire (location_wire lat long)) \<le> 22"
  using length_opt_number [of 1 "zigzag lat"] length_opt_number [of 2 "zigzag long"] by (simp add: location_wire_def wire_append)

lemma emits_place:
  assumes pb: "pb_documented pb"
  shows "emits (pb_encode pb (PropertyValue_fields pb ((with_name pb ''location'' LOCATION)\<lparr>pv_location_value :=
      \<lparr>lc_latitude = lat, lc_longitude = long\<rparr>\<rparr>)))
    (wire ([(1, Bytes (string_bytes ''location'')), (2, Number 7)] @
      (if lat = 0 \<and> long = 0 then [] else [(17, Bytes (wire (location_wire lat long)))])))"
proof -
  have "length (wire (location_wire lat long)) < 2 ^ 31" by (rule order_le_less_trans [OF length_location]) simp
  note s = writes_sub [OF pb emits_location [OF pb] this, of 17 "lat = 0 \<and> long = 0"]
  show ?thesis
    using emits_property [OF pb, of "(with_name pb ''location'' LOCATION)\<lparr>pv_location_value := \<lparr>lc_latitude = lat, lc_longitude = long\<rparr>\<rparr>"
        "wire [(1, Bytes (string_bytes ''location''))]" "[]"
        "wire (if lat = 0 \<and> long = 0 then [] else [(17, Bytes (wire (location_wire lat long)))])"] named [OF pb, of "''location''"] s
    by (simp add: writes_unset opt_number_def wire_Cons wire_append)
qed

lemma emits_messages:
  assumes pb: "pb_documented pb" and ms: "list_all2 (\<lambda>m bs. emits (pb_encode pb m) bs \<and> length bs < 2 ^ 31) ms bss"
    and "pb_ltype f \<noteq> PB_VARINT"
  shows "emits (write_properties pb (Some (P_messages ms (length ms))) f) (wire (map (\<lambda>bs. (pb_tag f, Bytes bs)) bss))"
proof -
  let ?g = "\<lambda>i stream. bindE (elem ms i) (\<lambda>m. and_then (pb_encode_tag_for_field pb f stream) (pb_encode_submessage pb m))"
  have len: "length bss = length ms" using list_all2_lengthD [OF ms] by simp
  have "emits (?g i) (delimited (pb_tag f) (bss ! i))" if "i \<in> set [0..<length ms]" for i
  proof -
    from that have i: "i < length ms" by simp
    then have "?g i = (\<lambda>s. and_then (pb_encode_tag_for_field pb f s) (pb_encode_submessage pb (ms ! i)))"
      by (intro ext) (simp add: elem_def)
    with emits_submessage_field [OF pb assms(3)] list_all2_nthD [OF ms i] show ?thesis by simp
  qed
  then have "emits (each ?g [0..<length ms]) (concat (map (\<lambda>i. delimited (pb_tag f) (bss ! i)) [0..<length ms]))" by (rule emits_each)
  moreover have "map (\<lambda>i. delimited (pb_tag f) (bss ! i)) [0..<length ms] = map (delimited (pb_tag f)) bss"
    using len by (intro nth_equalityI) simp_all
  moreover have "wire (map (\<lambda>bs. (pb_tag f, Bytes bs)) bss) = concat (map (delimited (pb_tag f)) bss)"
    by (induction bss) (simp_all add: wire_Cons)
  moreover have "write_properties pb (Some (P_messages ms (length ms))) f = each ?g [0..<length ms]"
    by (rule ext) (simp add: write_properties_def)
  ultimately show ?thesis by metis
qed

lemma length_bytes_field: "tag < 16 \<Longrightarrow> length bs \<le> n \<Longrightarrow> n < 16000 \<Longrightarrow> length (wire_field (tag, Bytes bs)) \<le> n + 4"
  using delimited_bound [of tag bs n] by simp

lemma length_string_bytes [simp]: "length (string_bytes s) = length s"
  by (simp add: string_bytes_def)

lemma length_text_of: "0 \<in> set bs \<Longrightarrow> length (text_of bs) < length bs"
  unfolding text_of_def by (induction bs) auto

lemma length_property_wires:
  assumes "rec_ok rec" "m \<in> set (property_wires rec)"
  shows "length (wire m) \<le> 60"
proof -
  have sp: "length (text_of (rec_species rec)) \<le> 4"
    using assms(1) length_text_of [of "rec_species rec"] by (simp add: rec_ok_def RECORD_SPECIES_LEN_def)
  have n: "length (wire (opt_number 2 n)) \<le> 11" "length (wire (opt_number 13 n)) \<le> 11" for n
    using length_opt_number by simp_all
  have num: "wire ((1, Bytes (string_bytes name)) # opt_number 2 3 @ opt_number 13 v) =
      wire_field (1, Bytes (string_bytes name)) @ wire (opt_number 2 3) @ wire (opt_number 13 v)" for name v
    by (simp add: wire_Cons wire_append)
  have k: "wire [(2, Number 4)] = wire (opt_number 2 4)" "wire [(2, Number 7)] = wire (opt_number 2 7)" by (simp_all add: opt_number_def)
  have name: "length (wire_field (1, Bytes (string_bytes name))) \<le> 12" if "length name \<le> 8" for name
    using length_bytes_field [of 1 "string_bytes name" 8] that by simp
  have "length (wire_field (14, Bytes (text_of (rec_species rec)))) \<le> 8"
    using length_bytes_field [of 14 "text_of (rec_species rec)" 4] sp by simp
  then have s: "length (wire [(1, Bytes (string_bytes ''species'')), (2, Number 4), (14, Bytes (text_of (rec_species rec)))]) \<le> 60"
    using name [of "''species''"] n(1) [of 4] unfolding k(1) [symmetric] by (simp add: wire_Cons del: wire_field.simps)
  have "length (wire_field (17, Bytes (wire (location_wire (rec_latitude rec) (rec_longitude rec))))) \<le> 26"
    using delimited_bound [OF _ length_location, of 17] by simp
  then have l: "length (wire ([(1, Bytes (string_bytes ''location'')), (2, Number 7)] @ (if rec_latitude rec = 0 \<and> rec_longitude rec = 0 then []
        else [(17, Bytes (wire (location_wire (rec_latitude rec) (rec_longitude rec))))]))) \<le> 60"
    using name [of "''location''"] n(1) [of 7] unfolding k(2) [symmetric] by (simp add: wire_Cons del: wire_field.simps)
  have "length (wire ((1, Bytes (string_bytes name)) # opt_number 2 3 @ opt_number 13 v)) \<le> 60" if "length name \<le> 8" for name v
    unfolding num length_append using name [OF that] n(1) [of 3] n(2) [of v] by linarith
  from this [of "''weight''"] this [of "''length''"] s l assms(2) show ?thesis
    unfolding property_wires_def by auto
qed

lemma emits_properties:
  assumes pb: "pb_documented pb" and ok: "rec_ok rec" and "pb_ltype f \<noteq> PB_VARINT"
    and ps: "fish_record_set_properties pb asserts rec (replicate 4 PropertyValue_zero) 4 = Inr ps"
  shows "emits (write_properties pb (Some (P_messages (map (PropertyValue_fields pb) ps) 4)) f)
    (wire (map (\<lambda>m. (pb_tag f, Bytes (wire m))) (property_wires rec)))"
proof -
  have "0 \<in> set (rec_species rec)" using ok by (simp add: rec_ok_def)
  then have "list_all2 (\<lambda>p m. emits (pb_encode pb (PropertyValue_fields pb p)) (wire m)) ps (property_wires rec)"
    unfolding property_wires_def ps [unfolded set_properties sum.inject, symmetric] list.rel_inject
    by (intro conjI emits_number_property emits_species emits_place pb) simp_all
  then have "list_all2 (\<lambda>p m. emits (pb_encode pb (PropertyValue_fields pb p)) (wire m) \<and> length (wire m) < 2 ^ 31) ps (property_wires rec)"
    using length_property_wires [OF ok] by (fastforce simp: list_all2_conv_all_nth dest: nth_mem)
  then have l: "list_all2 (\<lambda>m bs. emits (pb_encode pb m) bs \<and> length bs < 2 ^ 31) (map (PropertyValue_fields pb) ps) (map wire (property_wires rec))"
    by (simp add: list.rel_map)
  have "length (map (PropertyValue_fields pb) ps) = 4" using ps unfolding set_properties by auto
  with emits_messages [OF pb l assms(3)] show ?thesis by (simp add: comp_def)
qed

lemma writes_callbacks:
  assumes "pb_documented pb" "emits (pb_encode pb (map (\<lambda>(tag, t, cb). fld tag t cb) cbs)) bs" "length bs < 2 ^ 31"
    and "\<exists>x \<in> set cbs. \<not> unset (snd (snd x))"
  shows "writes (callbacks_field pb tag cbs) (wire [(tag, Bytes bs)])"
proof -
  have "\<not> (\<forall>(_, _, cb) \<in> set cbs. unset cb)" using assms(4) by (auto simp: case_prod_beta)
  then have "callbacks_field pb tag cbs = sub_field pb tag False (map (\<lambda>(tag, t, cb). fld tag t cb) cbs)"
    unfolding callbacks_field_def by (simp only:)
  with writes_sub [where zero = False, OF assms(1,2,3)] show ?thesis by simp
qed

lemma writes_no_callbacks: "\<forall>(_, _, cb) \<in> set cbs. unset cb \<Longrightarrow> writes (callbacks_field pb tag cbs) []"
  by (simp add: callbacks_field_def writes_no_sub)

lemma length_wires:
  assumes "rec_ok rec"
  shows "length (wire (create_wire rec)) \<le> 300" "length (wire (update_wire rec)) \<le> 300"
proof -
  have i: "length (wire_field (1, Bytes (text_of (rec_id rec)))) \<le> 20"
    using length_bytes_field [of 1 "text_of (rec_id rec)" 16] length_text_of [of "rec_id rec"] assms by (simp add: rec_ok_def RECORD_ID_LEN_def)
  have t: "length (wire_field (2, Bytes (string_bytes ''fish''))) \<le> 8"
    using length_bytes_field [of 2 "string_bytes ''fish''" 4] by simp
  have p: "length (wire (map (\<lambda>m. (tag, Bytes (wire m))) ms)) \<le> length ms * 64"
    if "tag < 16" "\<forall>m \<in> set ms. length (wire m) \<le> 60" for tag ms
    using that(2)
  proof (induction ms)
    case (Cons m ms)
    then have "length (wire_field (tag, Bytes (wire m))) \<le> 64" using length_bytes_field [OF that(1), of "wire m" 60] by simp
    with Cons show ?case by (simp add: wire_Cons del: wire_field.simps)
  qed simp
  have "length (wire (map (\<lambda>m. (tag, Bytes (wire m))) (property_wires rec))) \<le> 256" if "tag < 16" for tag
    using p [OF that, of "property_wires rec"] length_property_wires [OF assms] by (simp add: property_wires_def)
  from this [of 2] this [of 3] i t show "length (wire (create_wire rec)) \<le> 300" "length (wire (update_wire rec)) \<le> 300"
    by (simp_all add: create_wire_def update_wire_def wire_Cons wire_append del: wire_field.simps)
qed

text \<open>The payloads: the action's message at its field, everything else left out.\<close>

lemma emits_payload_message:
  assumes "pb_documented pb"
    and "SCPayload_fields pb p = num_field pb 1 a # num_field pb 2 now # ms @ f # ms'"
    and "writes f (wire [(tag, Bytes (wire m))])" "\<forall>g \<in> set (ms @ ms'). writes g []"
  shows "emits (pb_encode pb (SCPayload_fields pb p)) (wire (payload_wire a now tag m))"
proof -
  have z: "list_all2 writes ms (replicate (length ms) [])" "list_all2 writes ms' (replicate (length ms') [])"
    using assms(4) by (auto simp: list_all2_conv_all_nth)
  then have "list_all2 writes (ms @ f # ms') (replicate (length ms) [] @ wire [(tag, Bytes (wire m))] # replicate (length ms') [])"
    by (intro list_all2_appendI list.rel_intros(2) assms(3))
  then show ?thesis
    by (intro emits_fields [OF assms(1), where bss = "wire (opt_number 1 a) # wire (opt_number 2 now) # replicate (length ms) [] @
        wire [(tag, Bytes (wire m))] # replicate (length ms') []"])
      (simp_all add: assms(2) writes_num [OF assms(1)] payload_wire_def wire_append)
qed

text \<open>The three encoders write one of these messages.\<close>

lemmas payload_defs = init_payload_def SCPayload_init_encoder_def SCPayload_init_default_def CreateRecordAction_init_encoder_def
  UpdatePropertiesAction_init_encoder_def set_encode_def set_arg_def Let_def

lemma callback_zero_set [simp]:
  "callback_zero\<lparr>cb_encode := Some f, cb_arg := Some a\<rparr> = \<lparr>cb_encode = Some f, cb_arg = Some a\<rparr>"
  by (simp add: callback_zero_def)

lemma encode_createRecord_message:
  assumes pb: "pb_documented pb" and ok: "rec_ok rec"
  shows "\<exists>m. (\<forall>buf n. encode_createRecord pb asserts now rec buf n = encode_into pb m buf n) \<and>
    emits (pb_encode pb m) (wire (payload_wire 1 now 4 (create_wire rec)))"
proof -
  obtain ps where ps: "fish_record_set_properties pb asserts rec (replicate 4 PropertyValue_zero) 4 = Inr ps"
    by (simp add: set_properties)
  let ?str = "\<lambda>a. \<lparr>cb_encode = Some (write_string pb), cb_arg = Some a\<rparr>"
  let ?lst = "\<lparr>cb_encode = Some (write_properties pb), cb_arg = Some (P_messages (map (PropertyValue_fields pb) ps) 4)\<rparr>"
  let ?p = "(init_payload pb now CREATE_RECORD SCPayload_init_default)\<lparr>sp_create_record :=
      \<lparr>cr_record_id = ?str (P_bytes (rec_id rec)), cr_record_type = ?str (c_string ''fish''), cr_properties = ?lst\<rparr>\<rparr>"
  let ?cbs = "[(1, PB_STRING, ?str (P_bytes (rec_id rec))), (2, PB_STRING, ?str (c_string ''fish'')), (3, PB_SUBMESSAGE, ?lst)]"
  have e: "encode_createRecord pb asserts now rec buf n = encode_into pb (SCPayload_fields pb ?p) buf n" for buf n
    unfolding encode_createRecord_def ps by (simp add: payload_defs)
  have "0 \<in> set (rec_id rec)" using ok by (simp add: rec_ok_def)
  moreover have "writes (fld 3 PB_SUBMESSAGE ?lst) (wire (map (\<lambda>m. (3, Bytes (wire m))) (property_wires rec)))"
    by (rule writes_callback [of _ "write_properties pb"])
      (use emits_properties [OF pb ok _ ps, of "\<lparr>pb_tag = 3, pb_ltype = PB_SUBMESSAGE\<rparr>"] in simp_all)
  ultimately have "emits (pb_encode pb (map (\<lambda>(tag, t, cb). fld tag t cb) ?cbs)) (wire (create_wire rec))"
    using writes_string [OF pb HOL.refl, of "rec_id rec" 1] writes_c_string [OF pb HOL.refl, of "''fish''" 2]
    by (intro emits_fields [OF pb, where bss = "[wire [(1, Bytes (text_of (rec_id rec)))], wire [(2, Bytes (string_bytes ''fish''))],
        wire (map (\<lambda>m. (3, Bytes (wire m))) (property_wires rec))]"]) (simp_all add: create_wire_def wire_Cons)
  then have f: "writes (callbacks_field pb 4 ?cbs) (wire [(4, Bytes (wire (create_wire rec)))])"
    using length_wires(1) [OF ok] by (intro writes_callbacks [OF pb]) (auto simp: unset_def)
  have "emits (pb_encode pb (SCPayload_fields pb ?p)) (wire (payload_wire 1 now 4 (create_wire rec)))"
    by (rule emits_payload_message [where ms = "[callbacks_field pb 3 [(1, PB_STRING, callback_zero)]]", OF pb _ f],
        simp add: SCPayload_fields_def payload_defs) (simp add: writes_no_callbacks writes_no_sub)
  with e show ?thesis by blast
qed

lemma encode_updateProperties_message:
  assumes pb: "pb_documented pb" and ok: "rec_ok rec"
  shows "\<exists>m. (\<forall>buf n. encode_updateProperties pb asserts now rec buf n = encode_into pb m buf n) \<and>
    emits (pb_encode pb m) (wire (payload_wire 4 now 7 (update_wire rec)))"
proof -
  obtain ps where ps: "fish_record_set_properties pb asserts rec (replicate 4 PropertyValue_zero) 4 = Inr ps"
    by (simp add: set_properties)
  let ?id = "\<lparr>cb_encode = Some (write_string pb), cb_arg = Some (P_bytes (rec_id rec))\<rparr>"
  let ?lst = "\<lparr>cb_encode = Some (write_properties pb), cb_arg = Some (P_messages (map (PropertyValue_fields pb) ps) 4)\<rparr>"
  let ?p = "(init_payload pb now UPDATE_PROPERTIES SCPayload_init_default)\<lparr>sp_update_properties :=
      \<lparr>upd_record_id = ?id, upd_properties = ?lst\<rparr>\<rparr>"
  let ?cbs = "[(1, PB_STRING, ?id), (2, PB_SUBMESSAGE, ?lst)]"
  have e: "encode_updateProperties pb asserts now rec buf n = encode_into pb (SCPayload_fields pb ?p) buf n" for buf n
    unfolding encode_updateProperties_def ps by (simp add: payload_defs)
  have "0 \<in> set (rec_id rec)" using ok by (simp add: rec_ok_def)
  moreover have "writes (fld 2 PB_SUBMESSAGE ?lst) (wire (map (\<lambda>m. (2, Bytes (wire m))) (property_wires rec)))"
    by (rule writes_callback [of _ "write_properties pb"])
      (use emits_properties [OF pb ok _ ps, of "\<lparr>pb_tag = 2, pb_ltype = PB_SUBMESSAGE\<rparr>"] in simp_all)
  ultimately have "emits (pb_encode pb (map (\<lambda>(tag, t, cb). fld tag t cb) ?cbs)) (wire (update_wire rec))"
    using writes_string [OF pb HOL.refl, of "rec_id rec" 1]
    by (intro emits_fields [OF pb, where bss = "[wire [(1, Bytes (text_of (rec_id rec)))],
        wire (map (\<lambda>m. (2, Bytes (wire m))) (property_wires rec))]"]) (simp_all add: update_wire_def wire_Cons)
  then have f: "writes (callbacks_field pb 7 ?cbs) (wire [(7, Bytes (wire (update_wire rec)))])"
    using length_wires(2) [OF ok] by (intro writes_callbacks [OF pb]) (auto simp: unset_def)
  let ?un = "\<lambda>tag t. (tag, t, callback_zero)"
  have "emits (pb_encode pb (SCPayload_fields pb ?p)) (wire (payload_wire 4 now 7 (update_wire rec)))"
    by (rule emits_payload_message [where ms = "[callbacks_field pb 3 [?un 1 PB_STRING], callbacks_field pb 4 [?un 1 PB_STRING, ?un 2 PB_STRING,
        ?un 3 PB_SUBMESSAGE], callbacks_field pb 5 [?un 1 PB_STRING], callbacks_field pb 6 [?un 1 PB_STRING, ?un 2 PB_SUBMESSAGE]]", OF pb _ f],
        simp add: SCPayload_fields_def payload_defs) (simp add: writes_no_callbacks writes_no_sub)
  with e show ?thesis by blast
qed

lemma encode_create_agent_message:
  assumes pb: "pb_documented pb" and name: "CHR 0x00 \<notin> set name" "length name < 2 ^ 30"
  shows "\<exists>m. (\<forall>buf n. encode_create_agent pb now name buf n = encode_into pb m buf n) \<and>
    emits (pb_encode pb m) (wire (payload_wire 0 now 3 [(1, Bytes (string_bytes name))]))"
proof -
  let ?cb = "\<lparr>cb_encode = Some (write_string pb), cb_arg = Some (c_string name)\<rparr>"
  let ?p = "(init_payload pb now CREATE_AGENT SCPayload_init_default)\<lparr>sp_create_agent := \<lparr>ca_name = ?cb\<rparr>\<rparr>"
  have e: "encode_create_agent pb now name buf n = encode_into pb (SCPayload_fields pb ?p) buf n" for buf n
    unfolding encode_create_agent_def by (simp add: payload_defs)
  have a: "emits (pb_encode pb (map (\<lambda>(tag, t, cb). fld tag t cb) [(1, PB_STRING, ?cb)])) (wire [(1, Bytes (string_bytes name))])"
    using writes_c_string [OF pb HOL.refl name(1), of 1]
    by (intro emits_fields [OF pb, where bss = "[wire [(1, Bytes (string_bytes name))]]"]) simp_all
  have "length (varint (length name)) \<le> 5" using length_varint [of "length name" 4] name(2) by simp
  moreover have "length (varint 10) \<le> 1" using length_varint [of 10 0] by simp
  ultimately have "length (wire [(1, Bytes (string_bytes name))]) < 2 ^ 31" using name(2) by (simp add: wire_Cons delimited_def)
  from writes_callbacks [OF pb a this] have f: "writes (callbacks_field pb 3 [(1, PB_STRING, ?cb)]) (wire [(3, Bytes (wire [(1, Bytes (string_bytes name))]))])"
    by (simp add: unset_def)
  have "emits (pb_encode pb (SCPayload_fields pb ?p)) (wire (payload_wire 0 now 3 [(1, Bytes (string_bytes name))]))"
    by (rule emits_payload_message [where ms = "[]", OF pb _ f], simp add: SCPayload_fields_def payload_defs)
      (simp add: writes_no_callbacks writes_no_sub)
  with e show ?thesis by blast
qed

lemma length_payload_wire: "length (wire m) \<le> 300 \<Longrightarrow> tag < 16 \<Longrightarrow> length (wire (payload_wire a now tag m)) \<le> 326"
  using length_opt_number [of 1 a] length_opt_number [of 2 now] length_bytes_field [of tag "wire m" 300]
  by (simp add: payload_wire_def wire_append wire_Cons del: wire_field.simps)

section \<open>Reading back\<close>

lemma map_of_opt_number: "map_of (opt_number tag n @ fs) t = (if t = tag \<and> n \<noteq> 0 then Some (Number (unat n)) else map_of fs t)"
  by (simp add: opt_number_def)

lemma number_at_opt: "number_at tag (opt_number tag n) = unat n" "tag \<noteq> t \<Longrightarrow> number_at tag (opt_number t n @ fs) = number_at tag fs"
    "number_at tag (opt_number tag n @ fs) = (if n = 0 then number_at tag fs else unat n)"
  by (simp_all add: number_at_def opt_number_def)

lemma string_bytes_inj: "string_bytes s = string_bytes t \<longleftrightarrow> s = t"
  by (metis (mono_tags) hexb_def inj_map_eq_map inj_def of_char_u8 string_bytes_def)

lemma read_wire_Nil: "read_wire [] = Some []"
  using read_wire_wire [of "[]"] by simp

lemma property_at_skip: "t \<noteq> tag \<Longrightarrow> property_at tag name ((t, Bytes bs) # fs) = property_at tag name fs"
  by (simp split: option.split)

lemma property_at_wire:
  "property_at tag name ((tag, Bytes (wire m)) # fs) = (if bytes_at 1 m = name then m else property_at tag name fs)"
  by simp

lemma bytes_at_1: "bytes_at 1 ((1, Bytes bs) # fs) = bs"
  by (simp add: bytes_at_def)

lemma properties_at:
  defines "ps \<equiv> \<lambda>tag rec. map (\<lambda>m. (tag, Bytes (wire m))) (property_wires rec)"
  shows "property_at tag (string_bytes ''weight'') (ps tag rec) = property_wires rec ! 0"
    "property_at tag (string_bytes ''length'') (ps tag rec) = property_wires rec ! 1"
    "property_at tag (string_bytes ''species'') (ps tag rec) = property_wires rec ! 2"
    "property_at tag (string_bytes ''location'') (ps tag rec) = property_wires rec ! 3"
  unfolding ps_def property_wires_def list.map append_Cons property_at_wire bytes_at_1 string_bytes_inj by simp_all

lemma number_13: "number_at 13 ((1, Bytes bs) # opt_number 2 3 @ opt_number 13 v) = unat v"
proof -
  have "number_at 13 ((1, Bytes bs) # fs) = number_at 13 fs" for fs by (simp add: number_at_def)
  then show ?thesis by (simp add: number_at_opt)
qed

lemma location_read:
  "unzigzag (number_at 1 (message_at 17 (property_wires rec ! 3))) = sint (rec_latitude rec)"
  "unzigzag (number_at 2 (message_at 17 (property_wires rec ! 3))) = sint (rec_longitude rec)"
proof -
  let ?a = "rec_latitude rec" and ?o = "rec_longitude rec"
  have m: "message_at 17 (property_wires rec ! 3) = (if ?a = 0 \<and> ?o = 0 then [] else location_wire ?a ?o)"
    by (simp add: property_wires_def message_at_def bytes_at_def read_wire_Nil)
  have n: "number_at 1 (location_wire ?a ?o) = unat (zigzag ?a)" "number_at 2 (location_wire ?a ?o) = unat (zigzag ?o)"
    unfolding location_wire_def by (simp_all add: number_at_opt) (simp add: number_at_def opt_number_def)
  have "number_at t [] = 0" for t by (simp add: number_at_def)
  moreover have "unzigzag 0 = 0" by (simp add: unzigzag_def)
  ultimately have z: "unzigzag (number_at t []) = 0" for t by simp
  have "unzigzag (number_at 1 (message_at 17 (property_wires rec ! 3))) = sint ?a \<and>
      unzigzag (number_at 2 (message_at 17 (property_wires rec ! 3))) = sint ?o"
  proof (cases "?a = 0 \<and> ?o = 0")
    case True
    then show ?thesis unfolding m if_P [OF True] z by simp
  next
    case False
    show ?thesis unfolding m if_not_P [OF False] n unzigzag_zigzag by blast
  qed
  then show "unzigzag (number_at 1 (message_at 17 (property_wires rec ! 3))) = sint ?a"
    "unzigzag (number_at 2 (message_at 17 (property_wires rec ! 3))) = sint ?o" by blast+
qed

lemma message_at_payload: "3 \<le> tag \<Longrightarrow> message_at tag (payload_wire a now tag m) = m"
  by (simp add: message_at_def bytes_at_def payload_wire_def map_of_opt_number) (simp add: opt_number_def)

lemma number_at_payload: "3 \<le> tag \<Longrightarrow> number_at 1 (payload_wire a now tag m) = unat a \<and> number_at 2 (payload_wire a now tag m) = unat now"
  by (simp add: number_at_def payload_wire_def opt_number_def)

lemma read_fish_create: "read_fish 4 3 (payload_wire 1 now 4 (create_wire rec)) = fish_of rec"
proof -
  have p: "property_at 3 name (create_wire rec) = property_at 3 name (map (\<lambda>m. (3, Bytes (wire m))) (property_wires rec))" for name
    unfolding create_wire_def append_Cons append_Nil by (simp only: property_at_skip)
  have w: "property_wires rec ! 0 = (1, Bytes (string_bytes ''weight'')) # opt_number 2 3 @ opt_number 13 (zigzag (rec_weight rec))"
      "property_wires rec ! 1 = (1, Bytes (string_bytes ''length'')) # opt_number 2 3 @ opt_number 13 (zigzag (rec_length rec))"
      "bytes_at 14 (property_wires rec ! 2) = text_of (rec_species rec)" "bytes_at 1 (create_wire rec) = text_of (rec_id rec)"
    by (simp_all add: property_wires_def bytes_at_def create_wire_def)
  have m: "message_at 4 (payload_wire 1 now 4 (create_wire rec)) = create_wire rec" by (rule message_at_payload) simp
  show ?thesis unfolding read_fish_def fish_of_def Let_def m p properties_at w number_13 unzigzag_zigzag location_read ..
qed

lemma read_fish_update: "read_fish 7 2 (payload_wire 4 now 7 (update_wire rec)) = fish_of rec"
proof -
  have p: "property_at 2 name (update_wire rec) = property_at 2 name (map (\<lambda>m. (2, Bytes (wire m))) (property_wires rec))" for name
    unfolding update_wire_def by (simp only: property_at_skip)
  have w: "property_wires rec ! 0 = (1, Bytes (string_bytes ''weight'')) # opt_number 2 3 @ opt_number 13 (zigzag (rec_weight rec))"
      "property_wires rec ! 1 = (1, Bytes (string_bytes ''length'')) # opt_number 2 3 @ opt_number 13 (zigzag (rec_length rec))"
      "bytes_at 14 (property_wires rec ! 2) = text_of (rec_species rec)" "bytes_at 1 (update_wire rec) = text_of (rec_id rec)"
    by (simp_all add: property_wires_def bytes_at_def update_wire_def)
  have m: "message_at 7 (payload_wire 4 now 7 (update_wire rec)) = update_wire rec" by (rule message_at_payload) simp
  show ?thesis unfolding read_fish_def fish_of_def Let_def m p properties_at w number_13 unzigzag_zigzag location_read ..
qed

text \<open>The bytes the encoders leave in the buffer.\<close>

lemma encoded_payload:
  assumes "\<exists>m. (\<forall>buf n. f buf n = encode_into pb m buf n) \<and> emits (pb_encode pb m) (wire fs)"
    and "length (wire fs) < 2 ^ 31" "buf_size \<le> length buf"
  shows "length (wire fs) \<le> buf_size \<Longrightarrow> f buf buf_size = Inr (int (length (wire fs)), wire fs @ drop (length (wire fs)) buf)"
    and "buf_size < length (wire fs) \<Longrightarrow> \<exists>buf'. f buf buf_size = Inr (-1, buf') \<and> length buf' = length buf"
  using assms(1) encode_into_emits [OF _ assms(2,3)] by auto

lemma record_encoded:
  assumes pb: "pb_documented pb" and ok: "rec_ok rec" and size: "326 \<le> buf_size" "buf_size \<le> length buf"
  shows "encode_createRecord pb asserts now rec buf buf_size = (let bs = wire (payload_wire 1 now 4 (create_wire rec)) in
      Inr (int (length bs), bs @ drop (length bs) buf))"
    and "encode_updateProperties pb asserts now rec buf buf_size = (let bs = wire (payload_wire 4 now 7 (update_wire rec)) in
      Inr (int (length bs), bs @ drop (length bs) buf))"
proof -
  have "length (wire (payload_wire 1 now 4 (create_wire rec))) \<le> 326" "length (wire (payload_wire 4 now 7 (update_wire rec))) \<le> 326"
    using length_wires [OF ok] by (intro length_payload_wire; simp)+
  then show "encode_createRecord pb asserts now rec buf buf_size = (let bs = wire (payload_wire 1 now 4 (create_wire rec)) in
      Inr (int (length bs), bs @ drop (length bs) buf))"
    "encode_updateProperties pb asserts now rec buf buf_size = (let bs = wire (payload_wire 4 now 7 (update_wire rec)) in
      Inr (int (length bs), bs @ drop (length bs) buf))"
    using encoded_payload(1) [OF encode_createRecord_message [OF pb ok] _ size(2)]
      encoded_payload(1) [OF encode_updateProperties_message [OF pb ok] _ size(2)] size(1)
    unfolding Let_def by simp_all
qed

section \<open>Properties\<close>

text \<open>
  C8: the payloads of the supply chain. For every record, 326 bytes are enough, and the payload that
  creates or updates it reads back, field by field and property by property, as the action, the time, and the
  record's texts and numbers; the numbers are read as signed.
\<close>

theorem fish_payload_reads_back:
  assumes "pb_documented pb" "rec_ok rec" "326 \<le> buf_size" "buf_size \<le> length buf"
  shows "(\<exists>n buf' fs. encode_createRecord pb asserts now rec buf buf_size = Inr (int n, buf') \<and> length buf' = length buf \<and>
      read_wire (take n buf') = Some fs \<and> number_at 1 fs = 1 \<and> number_at 2 fs = unat now \<and>
      bytes_at 2 (message_at 4 fs) = string_bytes ''fish'' \<and> read_fish 4 3 fs = fish_of rec) \<and>
    (\<exists>n buf' fs. encode_updateProperties pb asserts now rec buf buf_size = Inr (int n, buf') \<and> length buf' = length buf \<and>
      read_wire (take n buf') = Some fs \<and> number_at 1 fs = 4 \<and> number_at 2 fs = unat now \<and> read_fish 7 2 fs = fish_of rec)"
    (is "?c \<and> ?u")
proof
  let ?fs = "payload_wire 1 now 4 (create_wire rec)" and ?gs = "payload_wire 4 now 7 (update_wire rec)"
  have len: "length (wire ?fs) \<le> length buf" "length (wire ?gs) \<le> length buf"
    using length_payload_wire [OF length_wires(1) [OF assms(2)], of 4 1 now] length_payload_wire [OF length_wires(2) [OF assms(2)], of 7 4 now] assms(3,4)
    by linarith+
  have "bytes_at 2 (message_at 4 ?fs) = string_bytes ''fish''"
    using message_at_payload [of 4 1 now "create_wire rec"] by (simp add: create_wire_def bytes_at_def)
  with number_at_payload [of 4 1 now "create_wire rec"] read_fish_create [of now rec] len
  show ?c unfolding record_encoded(1) [OF assms] Let_def
    by (intro exI [of _ "length (wire ?fs)"] exI [of _ "wire ?fs @ drop (length (wire ?fs)) buf"] exI [of _ ?fs]) simp
  from number_at_payload [of 7 4 now "update_wire rec"] read_fish_update [of now rec] len
  show ?u unfolding record_encoded(2) [OF assms] Let_def
    by (intro exI [of _ "length (wire ?gs)"] exI [of _ "wire ?gs @ drop (length (wire ?gs)) buf"] exI [of _ ?gs]) simp
qed

definition demo_record :: fish_record_t where
  "demo_record = \<lparr>rec_weight = 5, rec_length = 30, rec_species = [0x46, 0x41, 0x4f, 0], rec_id = 0x52 # replicate 15 0,
     rec_latitude = 1000000, rec_longitude = - 2000000\<rparr>"

lemma demo_record_ok: "rec_ok demo_record"
  by (simp add: rec_ok_def demo_record_def RECORD_SPECIES_LEN_def RECORD_ID_LEN_def)

theorem fish_payload_reads_back_witness:
  "\<exists>n buf' fs. encode_createRecord demo_pb True 99 demo_record (replicate 2048 0) 2048 = Inr (int n, buf') \<and>
    read_wire (take n buf') = Some fs \<and> fish_longitude (read_fish 4 3 fs) = - 2000000"
proof -
  have "fish_longitude (fish_of demo_record) = - 2000000" by (simp add: fish_of_def demo_record_def)
  with fish_payload_reads_back [OF demo_documented demo_record_ok, of 2048 "replicate 2048 0" True 99] show ?thesis by auto
qed

end
