(* ===== verification/SupplyChain.thy ===== *)
theory SupplyChain
  imports FishEncoders Wallet
begin

text \<open>
  The supply chain example on the wallet: \<open>sign_and_encode\<close> of \<open>examples/sawtooth-fish-supply/payload/payload.c\<close> and the
  commands of \<open>app/sawtooth_shell.c\<close>. A payload is encoded into a static buffer, the signed transaction that
  carries it is encoded behind it, and sent with the HTTP client all threads share.
\<close>

section \<open>Definitions\<close>

text \<open>\<open>strncpy\<close> into an array: at most \<open>n\<close> characters, padded with NULs.\<close>

definition strncpy_to :: "u8 list \<Rightarrow> string \<Rightarrow> nat \<Rightarrow> u8 list outcome" where
  "strncpy_to dst src n = write_at dst 0 (string_bytes (take n src) @ replicate (n - length src) 0)"

text \<open>The transaction after \<open>memset\<close>.\<close>

definition st_tx_zero :: st_tx_t where
  "st_tx_zero = \<lparr>st_header = \<lparr>hdr_batcher_pubkey = \<lparr>st_k = replicate ST_PUBKEY_SIZE 0\<rparr>, hdr_dependencies = \<lparr>al_lst = [], al_size = 0\<rparr>,
       hdr_family_name = replicate (FAMILY_NAME_MAX + 1) 0, hdr_family_version = replicate (FAMILY_VERSION_MAX + 1) 0,
       hdr_inputs = \<lparr>al_lst = [], al_size = 0\<rparr>, hdr_nonce = replicate (NONCE_MAX + 1) 0, hdr_outputs = \<lparr>al_lst = [], al_size = 0\<rparr>,
       hdr_payload_sha512 = replicate SHA_512_SIZE 0, hdr_signer_pubkey = \<lparr>st_k = replicate ST_PUBKEY_SIZE 0\<rparr>\<rparr>,
     st_header_signature = \<lparr>st_s = replicate ST_SIGNATURE_SIZE 0\<rparr>, st_payload = \<lparr>pl_buf = [], pl_size = 0\<rparr>\<rparr>"

definition batcher_key_text :: string where
  "batcher_key_text = ''034f355bdcb7cc0af728ef3cceb9615d90684bb5b2ca5f859ab0f0b704075871aa''"

definition namespace_text :: string where
  "namespace_text = ''3400de''"

text \<open>\<open>input\<close> and \<open>output\<close> are uninitialised local arrays; the return value of \<open>st_sign_tx\<close> is ignored.\<close>

definition sign_and_encode ::
    "nanopb \<Rightarrow> (u8 list \<Rightarrow> u8 list) \<Rightarrow> (u8 list \<Rightarrow> u8 list) \<Rightarrow> ecdsa_sign \<Rightarrow> (u8 list \<Rightarrow> u8 list) \<Rightarrow> u8 list \<Rightarrow> u8 list \<Rightarrow>
     u8 list \<Rightarrow> u8 list \<Rightarrow> nat \<Rightarrow> u8 list \<Rightarrow> nat \<Rightarrow> (int \<times> u8 list) outcome" where
  "sign_and_encode pb sha512 sha256 ecdsa_sign pubkey65 input output privkey payload payload_size buf buf_size =
    (let (_, pubkey) = privkey_to_pubkey pubkey65 privkey;
         tx = st_tx_zero; h = st_header tx; family_name = ''supply_chain'' in
     bindE (strncpy_to (hdr_family_name h) family_name (length family_name)) (\<lambda>name.
     bindE (strncpy_to (hdr_family_version h) ''1.1'' (FAMILY_VERSION_MAX + 1)) (\<lambda>version.
     bindE (strncpy_to (hdr_nonce h) ''42'' (NONCE_MAX + 1)) (\<lambda>nonce.
     bindE (hextobin batcher_key_text (st_k (hdr_batcher_pubkey h)) ST_PUBKEY_SIZE) (\<lambda>(_, batcher).
     bindE (hextobin namespace_text input ST_ADDRESS_SIZE) (\<lambda>(_, input).
     bindE (hextobin namespace_text output ST_ADDRESS_SIZE) (\<lambda>(_, output).
     let h = h\<lparr>hdr_family_name := name, hdr_family_version := version, hdr_nonce := nonce,
               hdr_signer_pubkey := \<lparr>st_k = pubkey\<rparr>, hdr_batcher_pubkey := \<lparr>st_k = batcher\<rparr>,
               hdr_inputs := \<lparr>al_lst = [\<lparr>st_a = input\<rparr>], al_size = 1\<rparr>,
               hdr_outputs := \<lparr>al_lst = [\<lparr>st_a = output\<rparr>], al_size = 1\<rparr>\<rparr>;
         tx = tx\<lparr>st_header := h, st_payload := \<lparr>pl_buf = payload, pl_size = payload_size\<rparr>\<rparr> in
     bindE (st_sign_tx pb sha512 sha256 ecdsa_sign tx privkey buf buf_size) (\<lambda>(_, tx, buf).
     st_encode_tx_list pb [tx] 1 buf buf_size))))))))"

text \<open>What the application runs on beside the wallet's machine, and the local objects of a command.\<close>

record ('m, 'n) sc_machine = "('m, 'n) machine" +
  on_nanopb :: nanopb
  on_sha512 :: "u8 list \<Rightarrow> u8 list"
  on_sha256 :: "u8 list \<Rightarrow> u8 list"

record sc_locals =
  loc_thread :: thread
  loc_now :: u64
  loc_input :: "u8 list"
  loc_output :: "u8 list"

text \<open>The statics \<open>_buf\<close>, \<open>http_client_nfo\<close> and \<open>_rec\<close>, with the shell. \<open>server_addr\<close> is the configured address.\<close>

definition PAYLOAD_BUF_SIZE :: nat where "PAYLOAD_BUF_SIZE = 2048"

record ('m, 'n) sc_state =
  sc_shell :: "('m, 'n) shell"
  sc_nfo :: http_nfo_t
  sc_rec :: fish_record_t
  sc_buf :: "u8 list"

definition supply_init :: "string \<Rightarrow> ('m, 'n) shell \<Rightarrow> ('m, 'n) sc_state" where
  "supply_init server_addr sh = \<lparr>sc_shell = sh,
     sc_nfo = \<lparr>nfo_host = Some server_addr, nfo_port = 8020, nfo_url = Some ''/transactions?wait'',
       nfo_content_type = Some ''application/octet-stream'', nfo_headers = None,
       nfo_payload = Some (replicate PAYLOAD_BUF_SIZE NUL), nfo_payload_size = PAYLOAD_BUF_SIZE,
       nfo_content = None, nfo_content_size = 0, nfo_priv = False\<rparr>,
     sc_rec = \<lparr>rec_weight = 0, rec_length = 0, rec_species = [0x3f, 0x3f, 0x3f, 0], rec_id = replicate RECORD_ID_LEN 0,
       rec_latitude = 0, rec_longitude = 0\<rparr>,
     sc_buf = replicate PAYLOAD_BUF_SIZE 0\<rparr>"

definition sc_say :: "string \<Rightarrow> ('m, 'n) sc_state \<Rightarrow> ('m, 'n) sc_state" where
  "sc_say s w = w\<lparr>sc_shell := say_line s (sc_shell w)\<rparr>"

type_synonym ('m, 'n) sc_result = "(int \<times> ('m, 'n) sc_state) outcome"

text \<open>The commands that edit the record.\<close>

definition sub_record_species :: "string list \<Rightarrow> ('m, 'n) sc_state \<Rightarrow> ('m, 'n) sc_result" where
  "sub_record_species argv w =
    (if length argv < 2 then Inr (-1, sc_say ''missing argument: 3-char species type'' w)
     else bindE (arg argv 1) (\<lambda>str.
       bindE (strncpy_to (rec_species (sc_rec w)) str (RECORD_SPECIES_LEN - 1)) (\<lambda>species.
       Inr (0, w\<lparr>sc_rec := (sc_rec w)\<lparr>rec_species := species\<rparr>\<rparr>))))"

definition sub_record_id :: "string list \<Rightarrow> ('m, 'n) sc_state \<Rightarrow> ('m, 'n) sc_result" where
  "sub_record_id argv w =
    (if length argv < 2 then Inr (-1, sc_say ''missing argument: id'' w)
     else bindE (arg argv 1) (\<lambda>str.
       bindE (strncpy_to (rec_id (sc_rec w)) str (RECORD_ID_LEN - 1)) (\<lambda>i.
       Inr (0, w\<lparr>sc_rec := (sc_rec w)\<lparr>rec_id := i\<rparr>\<rparr>))))"

text \<open>The macro \<open>CREATE_SUB_RECORD_INT\<close>: the item is set before the number is checked.\<close>

definition sub_record_int ::
    "string \<Rightarrow> (u64 \<Rightarrow> fish_record_t \<Rightarrow> fish_record_t) \<Rightarrow> ('m, 'n, 'z) machine_scheme \<Rightarrow> string list \<Rightarrow> ('m, 'n) sc_state \<Rightarrow> ('m, 'n) sc_result" where
  "sub_record_int item put ma argv w =
    (if length argv < 2 then Inr (-1, sc_say (''missing argument:'' @ item) w)
     else bindE (arg argv 1) (\<lambda>str.
       bindE (strtoul10 (on_lbits ma) False str) (\<lambda>(val, errno, at_end).
       let w = w\<lparr>sc_rec := put (of_nat val) (sc_rec w), sc_shell := (sc_shell w)\<lparr>sh_errno := errno\<rparr>\<rparr> in
       if errno \<or> \<not> at_end then Inr (-1, sc_say ''invalid length'' w) else Inr (0, w))))"

text \<open>The first two lines need the texts to end; the third prints a 64-bit number with \<open>%x\<close>, which C leaves undefined.\<close>

definition sub_record_print :: "string list \<Rightarrow> ('m, 'n) sc_state \<Rightarrow> ('m, 'n) sc_result" where
  "sub_record_print argv w =
    bindE (strlen_in (rec_id (sc_rec w))) (\<lambda>_. bindE (strlen_in (rec_species (sc_rec w))) (\<lambda>_. Inl Undefined))"

text \<open>Bytes as the characters the HTTP library sends.\<close>

definition bytes_text :: "u8 list \<Rightarrow> string" where
  "bytes_text bs = map (\<lambda>b. char_of (unat b)) bs"

text \<open>
  \<open>__sign_and_send\<close>. \<open>body\<close> stays NULL in the code, so of the two messages only the second is ever printed.
\<close>

definition sc_sign_and_send ::
    "('m, 'n) sc_machine \<Rightarrow> sc_locals \<Rightarrow> u8 list \<Rightarrow> nat \<Rightarrow> u8 list \<Rightarrow> nat \<Rightarrow> ('m, 'n) sc_state \<Rightarrow>
     (int \<times> u8 list \<times> ('m, 'n) sc_state) outcome" where
  "sc_sign_and_send ma loc payload payload_size buf buf_size w =
    bindE (sign_and_encode (on_nanopb ma) (on_sha512 ma) (on_sha256 ma) (on_sign ma) (on_pubkey ma) (loc_input loc) (loc_output loc)
      (acc_privkey (sh_account (sc_shell w))) payload payload_size buf buf_size) (\<lambda>(tx_written, buf).
    if tx_written \<le> 0 then Inr (-1, buf, w)
    else
      let nfo = (sc_nfo w)\<lparr>nfo_payload := Some (bytes_text buf), nfo_payload_size := nat tx_written\<rparr>;
          rpc = sh_rpc (sc_shell w) in
      bindE (http_send_data (on_platform ma) (on_asserts ma) (loc_thread loc) nfo (rpc_http rpc)) (\<lambda>(ret, nfo, http).
      let (nfo, http) = http_nfo_free (on_platform ma) (loc_thread loc) nfo http;
          w = w\<lparr>sc_nfo := nfo, sc_shell := (sc_shell w)\<lparr>sh_rpc := rpc\<lparr>rpc_http := http\<rparr>\<rparr>\<rparr>;
          w = (if ret < 0 \<or> ret \<noteq> 200 then sc_say ''error: HTTP send'' w else w)
      in Inr (ret, buf, w)))"

text \<open>
  The end of the sending commands. \<open>payload_written\<close> is a \<open>size_t\<close>, so a failed encoding, -1, is the largest
  number; \<open>_buf\<close> is the payload and, behind it, the transaction.
\<close>

definition sc_send :: "('m, 'n) sc_machine \<Rightarrow> sc_locals \<Rightarrow> int \<Rightarrow> ('m, 'n) sc_state \<Rightarrow> ('m, 'n) sc_result" where
  "sc_send ma loc ret w =
    (let payload_written = nat (ret mod 2 ^ on_lbits ma) in
     if payload_written \<le> 0 then Inr (-1, w)
     else
       let buf = sc_buf w; room = nat ((int PAYLOAD_BUF_SIZE - int payload_written) mod 2 ^ on_lbits ma) in
       bindE (sc_sign_and_send ma loc (take payload_written buf) payload_written (drop payload_written buf) room w) (\<lambda>(ret, rest, w).
       Inr (ret, w\<lparr>sc_buf := take payload_written buf @ rest\<rparr>)))"

definition sub_create_agent :: "('m, 'n) sc_machine \<Rightarrow> sc_locals \<Rightarrow> string list \<Rightarrow> ('m, 'n) sc_state \<Rightarrow> ('m, 'n) sc_result" where
  "sub_create_agent ma loc argv w =
    (if length argv < 2 then Inr (-1, sc_say ''missing argument: agent name'' w)
     else bindE (arg argv 1) (\<lambda>str.
       bindE (encode_create_agent (on_nanopb ma) (loc_now loc) str (sc_buf w) PAYLOAD_BUF_SIZE) (\<lambda>(ret, buf).
       sc_send ma loc ret (w\<lparr>sc_buf := buf\<rparr>))))"

definition sub_create_record :: "('m, 'n) sc_machine \<Rightarrow> sc_locals \<Rightarrow> string list \<Rightarrow> ('m, 'n) sc_state \<Rightarrow> ('m, 'n) sc_result" where
  "sub_create_record ma loc argv w =
    bindE (encode_createRecord (on_nanopb ma) (on_asserts ma) (loc_now loc) (sc_rec w) (sc_buf w) PAYLOAD_BUF_SIZE) (\<lambda>(ret, buf).
    sc_send ma loc ret (w\<lparr>sc_buf := buf\<rparr>))"

definition sub_update_record :: "('m, 'n) sc_machine \<Rightarrow> sc_locals \<Rightarrow> string list \<Rightarrow> ('m, 'n) sc_state \<Rightarrow> ('m, 'n) sc_result" where
  "sub_update_record ma loc argv w =
    bindE (encode_updateProperties (on_nanopb ma) (on_asserts ma) (loc_now loc) (sc_rec w) (sc_buf w) PAYLOAD_BUF_SIZE) (\<lambda>(ret, buf).
    sc_send ma loc ret (w\<lparr>sc_buf := buf\<rparr>))"

datatype sc_command = R_id | R_latitude | R_length | R_longitude | R_species | R_weight | R_print | S_create_agent | S_create_record | S_update_record

fun sc_run :: "('m, 'n) sc_machine \<Rightarrow> sc_locals \<Rightarrow> sc_command \<Rightarrow> string list \<Rightarrow> ('m, 'n) sc_state \<Rightarrow> ('m, 'n) sc_result" where
  "sc_run ma loc R_id = sub_record_id"
| "sc_run ma loc R_latitude = sub_record_int ''latitude'' (\<lambda>v r. r\<lparr>rec_latitude := v\<rparr>) ma"
| "sc_run ma loc R_length = sub_record_int ''length'' (\<lambda>v r. r\<lparr>rec_length := v\<rparr>) ma"
| "sc_run ma loc R_longitude = sub_record_int ''longitude'' (\<lambda>v r. r\<lparr>rec_longitude := v\<rparr>) ma"
| "sc_run ma loc R_species = sub_record_species"
| "sc_run ma loc R_weight = sub_record_int ''weight'' (\<lambda>v r. r\<lparr>rec_weight := v\<rparr>) ma"
| "sc_run ma loc R_print = sub_record_print"
| "sc_run ma loc S_create_agent = sub_create_agent ma loc"
| "sc_run ma loc S_create_record = sub_create_record ma loc"
| "sc_run ma loc S_update_record = sub_update_record ma loc"

section \<open>The transaction\<close>

text \<open>The fields of its header, for a public key and the hash of the payload.\<close>

definition sc_header_fields :: "u8 list \<Rightarrow> u8 list \<Rightarrow> (nat \<times> u8 list) list" where
  "sc_header_fields key hash =
    [(1, string_bytes batcher_key_text), (3, string_bytes ''supply_chain''), (4, string_bytes ''1.1''),
     (5, string_bytes namespace_text), (6, string_bytes ''42''), (7, string_bytes namespace_text),
     (9, hexb hash), (10, hexb key)]"

lemma namespace_read:
  assumes "length mem = 35"
  shows "hextobin namespace_text mem ST_ADDRESS_SIZE = Inr (3, [0x34, 0x00, 0xde] @ replicate 32 0)"
proof -
  have "hex_bytes (skip_0x namespace_text) = Some [0x34, 0x00, 0xde]"
    by (simp add: namespace_text_def skip_0x_def has_0x_def map_hex_def)
  moreover have "length (skip_0x namespace_text) = 6" by (simp add: namespace_text_def skip_0x_def has_0x_def)
  ultimately show ?thesis
    using hextobin_correct [of namespace_text 35 mem] assms by (simp add: namespace_text_def ST_ADDRESS_SIZE_def)
qed

definition batcher_key :: "u8 list" where
  "batcher_key = [0x03, 0x4f, 0x35, 0x5b, 0xdc, 0xb7, 0xcc, 0x0a, 0xf7, 0x28, 0xef, 0x3c, 0xce, 0xb9, 0x61, 0x5d, 0x90,
     0x68, 0x4b, 0xb5, 0xb2, 0xca, 0x5f, 0x85, 0x9a, 0xb0, 0xf0, 0xb7, 0x04, 0x07, 0x58, 0x71, 0xaa]"

lemma batcher_bytes: "hex_bytes batcher_key_text = Some batcher_key"
  by (simp add: batcher_key_text_def batcher_key_def map_hex_def)

lemma batcher_skip: "skip_0x batcher_key_text = batcher_key_text"
  by (simp add: batcher_key_text_def skip_0x_def has_0x_def)

lemma batcher_read: "hextobin batcher_key_text (replicate 65 0) ST_PUBKEY_SIZE = Inr (33, batcher_key @ replicate 32 0)"
proof -
  have "length batcher_key_text = 66" by (simp add: batcher_key_text_def)
  moreover have "length batcher_key = 33" by (simp add: batcher_key_def)
  moreover have "batcher_key_text \<noteq> []" by (simp add: batcher_key_text_def)
  ultimately show ?thesis
    using hextobin_correct [of batcher_key_text 65 "replicate 65 0"] by (simp add: batcher_skip batcher_bytes ST_PUBKEY_SIZE_def)
qed

lemma batcher_text: "hexb batcher_key = string_bytes batcher_key_text"
  by (simp add: hexb_def batcher_key_def batcher_key_text_def hex_text_def HEX_def)

lemma namespace_text_bytes: "hexb [0x34, 0x00, 0xde] = string_bytes namespace_text"
  by (simp add: hexb_def namespace_text_def hex_text_def HEX_def)

text \<open>The transaction \<open>sign_and_encode\<close> builds.\<close>

definition sc_tx :: "u8 list \<Rightarrow> u8 list \<Rightarrow> nat \<Rightarrow> st_tx_t" where
  "sc_tx key payload n =
    (let a = \<lparr>al_lst = [\<lparr>st_a = [0x34, 0x00, 0xde] @ replicate 32 0\<rparr>], al_size = 1\<rparr> in
     st_tx_zero\<lparr>st_header := (st_header st_tx_zero)\<lparr>
         hdr_family_name := string_bytes ''supply_chain'' @ replicate 5 0, hdr_family_version := string_bytes ''1.1'' @ replicate 2 0,
         hdr_nonce := string_bytes ''42'' @ replicate 3 0, hdr_signer_pubkey := \<lparr>st_k = key\<rparr>,
         hdr_batcher_pubkey := \<lparr>st_k = batcher_key @ replicate 32 0\<rparr>, hdr_inputs := a, hdr_outputs := a\<rparr>,
       st_payload := \<lparr>pl_buf = payload, pl_size = n\<rparr>\<rparr>)"

lemmas st_sizes = ST_PUBKEY_SIZE_def FAMILY_NAME_MAX_def FAMILY_VERSION_MAX_def NONCE_MAX_def SHA_512_SIZE_def ST_SIGNATURE_SIZE_def ST_ADDRESS_SIZE_def

lemma sign_and_encode_tx:
  assumes "length input = 35" "length output = 35"
  shows "sign_and_encode pb sha512 sha256 ecdsa_sign pubkey65 input output privkey payload n buf buf_size =
    bindE (st_sign_tx pb sha512 sha256 ecdsa_sign (sc_tx (pubkey65 privkey) payload n) privkey buf buf_size) (\<lambda>(_, tx, buf).
      st_encode_tx_list pb [tx] 1 buf buf_size)"
proof -
  have "strncpy_to (replicate 17 0) ''supply_chain'' 12 = Inr (string_bytes ''supply_chain'' @ replicate 5 0)"
      "strncpy_to (replicate 5 0) ''1.1'' 5 = Inr (string_bytes ''1.1'' @ replicate 2 0)"
      "strncpy_to (replicate 5 0) ''42'' 5 = Inr (string_bytes ''42'' @ replicate 3 0)"
    by (simp_all add: strncpy_to_def write_at_def numeral_eq_Suc string_bytes_def)
  note c = this
  have z: "st_k (hdr_batcher_pubkey (st_header st_tx_zero)) = replicate 65 0" "hdr_family_name (st_header st_tx_zero) = replicate 17 0"
      "hdr_family_version (st_header st_tx_zero) = replicate 5 0" "hdr_nonce (st_header st_tx_zero) = replicate 5 0"
    by (simp_all add: st_tx_zero_def st_sizes)
  have l: "length ''supply_chain'' = 12" "FAMILY_VERSION_MAX + 1 = 5" "NONCE_MAX + 1 = 5" by (simp_all add: st_sizes)
  show ?thesis
    unfolding sign_and_encode_def Let_def z l c bindE_Inr batcher_read namespace_read [OF assms(1)] namespace_read [OF assms(2)]
    by (simp add: privkey_to_pubkey_def sc_tx_def Let_def)
qed

lemma sc_tx_ok: "length key = 65 \<Longrightarrow> n \<le> length payload \<Longrightarrow> st_tx_ok (sc_tx key payload n)"
  by (simp add: st_tx_ok_def sc_tx_def Let_def header_ok_def addresses_ok_def size_defs st_tx_zero_def st_sizes batcher_key_def)

lemma text_padded: "CHR 0x00 \<notin> set s \<Longrightarrow> 0 < k \<Longrightarrow> text_of (string_bytes s @ replicate k 0) = string_bytes s"
  using text_of_c_string [of s] by (cases k) (auto simp: text_of_def takeWhile_append split: if_splits)

lemma sc_tx_header:
  "header_fields (signed_header sha512 (sc_tx key payload n)) = sc_header_fields key (sha512 (take n payload))"
proof -
  have "take 33 (batcher_key @ replicate 32 0) = batcher_key" by (simp add: batcher_key_def)
  moreover have "text_of (string_bytes ''supply_chain'' @ replicate 5 0) = string_bytes ''supply_chain''"
      "text_of (string_bytes ''1.1'' @ replicate 2 0) = string_bytes ''1.1''"
      "text_of (string_bytes ''42'' @ replicate 3 0) = string_bytes ''42''"
    by (rule text_padded; simp)+
  moreover have "hexb (take 3 ([0x34, 0x00, 0xde] @ replicate 32 0)) = string_bytes namespace_text"
    using namespace_text_bytes by simp
  ultimately show ?thesis
    unfolding header_fields_def signed_header_def sc_tx_def sc_header_fields_def Let_def
    by (simp add: st_tx_zero_def addresses_def batcher_text)
qed

text \<open>The fields of the transaction around a payload, and its size.\<close>

definition sc_transaction :: "('m, 'n) sc_machine \<Rightarrow> u8 list \<Rightarrow> u8 list \<Rightarrow> (nat \<times> u8 list) list" where
  "sc_transaction ma privkey payload =
    (let H = proto (sc_header_fields (on_pubkey ma privkey) (on_sha512 ma payload)) in
     [(1, H), (2, hexb (fst (on_sign ma privkey (on_sha256 ma H)))), (3, payload)])"

text \<open>The cryptographic library as documented, for the account's key: the sizes of keys, hashes and signatures.\<close>

definition sc_crypto :: "('m, 'n) sc_machine \<Rightarrow> u8 list \<Rightarrow> bool" where
  "sc_crypto ma privkey \<longleftrightarrow> pb_documented (on_nanopb ma) \<and> length (on_pubkey ma privkey) = 65 \<and>
     (\<forall>d. length (on_sha512 ma d) = 64) \<and> (\<forall>d. length (fst (on_sign ma privkey d)) = 64)"

lemma length_sc_header:
  assumes "length key = 65" "length hash = 64"
  shows "length (proto (sc_header_fields key hash)) \<le> 390"
proof -
  have s: "length namespace_text = 6" "length batcher_key_text = 66" by (simp_all add: namespace_text_def batcher_key_text_def)
  have "length (delimited 1 (string_bytes batcher_key_text)) \<le> 66 + 4" "length (delimited 3 (string_bytes ''supply_chain'')) \<le> 12 + 4"
      "length (delimited 4 (string_bytes ''1.1'')) \<le> 3 + 4" "length (delimited 5 (string_bytes namespace_text)) \<le> 6 + 4"
      "length (delimited 6 (string_bytes ''42'')) \<le> 2 + 4" "length (delimited 7 (string_bytes namespace_text)) \<le> 6 + 4"
      "length (delimited 9 (hexb hash)) \<le> 128 + 4" "length (delimited 10 (hexb key)) \<le> 130 + 4"
    using assms s by (intro delimited_bound; simp)+
  then show ?thesis unfolding sc_header_fields_def proto_Cons length_append by simp
qed

lemma length_sc_transaction:
  assumes "sc_crypto ma privkey" "length payload \<le> n" "n < 10000"
  shows "length (proto [(1, proto (sc_transaction ma privkey payload))]) \<le> n + 534"
proof -
  let ?H = "proto (sc_header_fields (on_pubkey ma privkey) (on_sha512 ma payload))"
  have h: "length ?H \<le> 390" using assms(1) by (intro length_sc_header) (simp_all add: sc_crypto_def)
  have "length (delimited 1 ?H) \<le> 390 + 4" "length (delimited 2 (hexb (fst (on_sign ma privkey (on_sha256 ma ?H))))) \<le> 128 + 4"
      "length (delimited 3 payload) \<le> n + 4"
    using h assms by (intro delimited_bound; simp add: sc_crypto_def)+
  then have t: "length (proto (sc_transaction ma privkey payload)) \<le> n + 530"
    unfolding sc_transaction_def Let_def proto_Cons length_append by simp
  have "length (delimited 1 (proto (sc_transaction ma privkey payload))) \<le> (n + 530) + 4"
    using t assms(3) by (intro delimited_bound) simp_all
  then show ?thesis unfolding proto_Cons by simp
qed

lemma sign_and_encode_writes:
  assumes c: "sc_crypto ma privkey" and in_out: "length input = 35" "length output = 35"
    and n: "n \<le> length payload" "take n payload = P" and msg: "msg = proto [(1, proto (sc_transaction ma privkey P))]"
    and buf: "length msg \<le> buf_size" "buf_size \<le> length buf" "length buf < 2 ^ 31"
  shows "\<exists>buf'. sign_and_encode (on_nanopb ma) (on_sha512 ma) (on_sha256 ma) (on_sign ma) (on_pubkey ma) input output privkey payload n buf buf_size =
      Inr (int (length msg), buf') \<and> length buf' = length buf \<and> take (length msg) buf' = msg"
proof -
  let ?tx = "sc_tx (on_pubkey ma privkey) payload n"
  have pb: "pb_documented (on_nanopb ma)" and key: "length (on_pubkey ma privkey) = 65" and sha: "\<And>d. length (on_sha512 ma d) = 64"
    using c by (auto simp: sc_crypto_def)
  have ok: "st_tx_ok ?tx" using key n(1) by (rule sc_tx_ok)
  let ?h = "signed_header (on_sha512 ma) ?tx"
  have H: "header_fields ?h = sc_header_fields (on_pubkey ma privkey) (on_sha512 ma P)" unfolding sc_tx_header n(2) ..
  let ?H = "proto (header_fields ?h)"
  obtain rs pby where s: "on_sign ma privkey (on_sha256 ma ?H) = (rs, pby)" by fastforce
  with c have rs: "length rs = 64" unfolding sc_crypto_def by (metis fst_conv)
  let ?t = "?tx\<lparr>st_header := ?h, st_header_signature := \<lparr>st_s = rs @ [pby + 27]\<rparr>\<rparr>"
  have pl: "st_payload ?tx = \<lparr>pl_buf = payload, pl_size = n\<rparr>" by (simp add: sc_tx_def Let_def)
  have fields: "st_tx_fields ?t = sc_transaction ma privkey P"
    using rs s n(2) by (simp add: st_tx_fields_def sc_transaction_def Let_def H pl)
  have list: "tx_list_fields 1 [?t] = [(1, proto (sc_transaction ma privkey P))]" by (simp add: tx_list_fields_def fields)
  have "length ?H \<le> length msg" unfolding msg H by (simp add: sc_transaction_def Let_def proto_Cons delimited_def)
  with buf(1) have "length ?H \<le> buf_size" by linarith
  from st_sign_tx_signs [where ?sha512.0 = "on_sha512 ma" and ?sha256.0 = "on_sha256 ma" and ecdsa_sign = "on_sign ma" and privkey = privkey,
      OF pb ok sha s rs this buf(2,3)]
  obtain buf1 where b: "st_sign_tx (on_nanopb ma) (on_sha512 ma) (on_sha256 ma) (on_sign ma) ?tx privkey buf buf_size = Inr (0, ?t, buf1)"
      "length buf1 = length buf" by blast
  have ok': "\<forall>t \<in> set [?t]. st_tx_ok t"
    using ok sha rs by (simp add: st_tx_ok_def signed_header_def header_ok_def size_defs)
  have "length (proto (tx_list_fields 1 [?t])) < 2 ^ 31" "buf_size \<le> length buf1" "length (proto (tx_list_fields 1 [?t])) \<le> buf_size"
    using buf b(2) unfolding list msg by linarith+
  from st_tx_list_bytes(1) [OF pb ok' this]
  have "st_encode_tx_list (on_nanopb ma) [?t] 1 buf1 buf_size = Inr (int (length msg), msg @ drop (length msg) buf1)"
    unfolding list msg by simp
  moreover have "length (msg @ drop (length msg) buf1) = length buf" using buf b(2) by simp
  ultimately show ?thesis unfolding sign_and_encode_tx [OF in_out] b(1) by simp
qed

section \<open>Sending\<close>

text \<open>
  A network that answers a POST request whose payload is \<open>msg\<close>, of exactly that size, with a status; a thread
  that may use the client; and a state in which the commands can send.
\<close>

definition accepts :: "('m, 'n) platform \<Rightarrow> string \<Rightarrow> int \<Rightarrow> bool" where
  "accepts pf msg status \<longleftrightarrow> (\<forall>host port net. 0 \<le> fst (http_client_init pf host port net)) \<and>
     (\<forall>req payload result net. req_method req = HTTP_POST \<longrightarrow> req_payload req = Some payload \<longrightarrow>
        req_payload_size req = length msg \<longrightarrow> take (length msg) payload = msg \<longrightarrow>
        (\<exists>ret rsp result' net'. http_client_send_req pf req RESULT_BUF_SIZE result net = (ret, rsp, result', net') \<and> 0 \<le> ret \<and>
           rsp_data_len rsp \<le> RESULT_BUF_SIZE \<and> rsp_http_errno rsp = 0 \<and> rsp_status_code rsp = status))"

definition sc_ready :: "('m, 'n) sc_machine \<Rightarrow> sc_locals \<Rightarrow> ('m, 'n) sc_state \<Rightarrow> bool" where
  "sc_ready ma loc w \<longleftrightarrow> k_mutex_lock (on_platform ma) (loc_thread loc) (w_mutex (rpc_http (sh_rpc (sc_shell w)))) \<noteq> None \<and>
     nfo_ready (sc_nfo w) \<and> (on_asserts ma \<longrightarrow> \<not> nfo_priv (sc_nfo w)) \<and>
     length (loc_input loc) = 35 \<and> length (loc_output loc) = 35 \<and> 16 \<le> on_lbits ma"

lemma send_accepted:
  assumes acc: "accepts pf msg status" "0 < status" and lock: "k_mutex_lock pf t (w_mutex w) = Some m"
    and nfo: "nfo_ready nfo" "asserts \<longrightarrow> \<not> nfo_priv nfo" "nfo_payload nfo = Some p" "nfo_payload_size nfo = length msg" "take (length msg) p = msg"
  shows "\<exists>nfo' w'. http_send_data pf asserts t nfo w = Inr (status, nfo', w') \<and> nfo_priv nfo'"
proof -
  let ?nfo = "nfo\<lparr>nfo_priv := False\<rparr>"
  obtain r0 net where i: "http_client_init pf (nfo_host nfo) (nfo_port nfo) (w_net w) = (r0, net)" "0 \<le> r0"
    using acc(1) unfolding accepts_def by (metis fst_conv surj_pair)
  let ?req = "\<lparr>req_method = HTTP_POST, req_url = nfo_url nfo, req_header_fields = nfo_headers nfo,
      req_content_type = nfo_content_type nfo, req_payload = Some p, req_payload_size = length msg\<rparr>"
  obtain ret rsp result net' where r: "http_client_send_req pf ?req RESULT_BUF_SIZE (w_result w) net = (ret, rsp, result, net')" "0 \<le> ret"
      "rsp_data_len rsp \<le> RESULT_BUF_SIZE" "rsp_http_errno rsp = 0" "rsp_status_code rsp = status"
    using acc(1) nfo(5) unfolding accepts_def by (metis http_request.select_convs(1,5,6))
  have "assert_nfo asserts nfo = Inr ()" using nfo(1,2) by (simp add: assert_nfo_def nfo_ready_def)
  with i r nfo(3,4) lock acc(2) show ?thesis
    by (simp add: http_send_data_def do_sync_http_req_def http_send_out_def)
qed

lemma length_bytes_text [simp]: "length (bytes_text bs) = length bs"
  by (simp add: bytes_text_def)

lemma bytes_text_take: "take n (bytes_text bs) = bytes_text (take n bs)"
  by (simp add: bytes_text_def take_map)

text \<open>What a command has sent when it is done.\<close>

definition sc_sent :: "('m, 'n) sc_machine \<Rightarrow> ('m, 'n) sc_state \<Rightarrow> u8 list \<Rightarrow> ('m, 'n) sc_result \<Rightarrow> bool" where
  "sc_sent ma w P result \<longleftrightarrow> (\<forall>status > 0.
     accepts (on_platform ma) (bytes_text (proto [(1, proto (sc_transaction ma (acc_privkey (sh_account (sc_shell w))) P))])) status \<longrightarrow>
     (\<exists>w'. result = Inr (status, w') \<and> sc_rec w' = sc_rec w \<and> sh_account (sc_shell w') = sh_account (sc_shell w) \<and>
        sh_out (sc_shell w') = sh_out (sc_shell w) @ (if status = 200 then [] else ''error: HTTP send'' @ [LF])))"

text \<open>A payload at the front of the buffer: the signed transaction is encoded behind it, and the request is made.\<close>

lemma sc_send_http:
  assumes c: "sc_crypto ma (acc_privkey (sh_account (sc_shell w)))" and lbits: "16 \<le> on_lbits ma"
    and io: "length (loc_input loc) = 35" "length (loc_output loc) = 35"
    and P: "take (length P) (sc_buf w) = P" "0 < length P" "length P \<le> 700" and buf: "length (sc_buf w) = PAYLOAD_BUF_SIZE"
    and msg: "msg = proto [(1, proto (sc_transaction ma (acc_privkey (sh_account (sc_shell w))) P))]"
  shows "\<exists>buf'. take (length msg) buf' = msg \<and> sc_send ma loc (int (length P)) w =
    bindE (http_send_data (on_platform ma) (on_asserts ma) (loc_thread loc)
        ((sc_nfo w)\<lparr>nfo_payload := Some (bytes_text buf'), nfo_payload_size := length msg\<rparr>) (rpc_http (sh_rpc (sc_shell w)))) (\<lambda>(ret, nfo, http).
      let (nfo, http) = http_nfo_free (on_platform ma) (loc_thread loc) nfo http;
          w' = w\<lparr>sc_nfo := nfo, sc_shell := (sc_shell w)\<lparr>sh_rpc := (sh_rpc (sc_shell w))\<lparr>rpc_http := http\<rparr>\<rparr>\<rparr>;
          w' = (if ret < 0 \<or> ret \<noteq> 200 then sc_say ''error: HTTP send'' w' else w')
      in Inr (ret, w'\<lparr>sc_buf := take (length P) (sc_buf w) @ buf'\<rparr>))"
proof -
  let ?key = "acc_privkey (sh_account (sc_shell w))" and ?n = "length P"
  have len: "length msg \<le> 1234" using length_sc_transaction [OF c P(3)] msg by simp
  have "(2::int) ^ 16 \<le> 2 ^ on_lbits ma" using lbits by (intro power_increasing) simp_all
  then have lb: "65536 \<le> (2::int) ^ on_lbits ma" by simp
  have "int ?n < 2 ^ on_lbits ma" using P(3) lb by linarith
  then have "int ?n mod 2 ^ on_lbits ma = int ?n" by (intro mod_pos_pos_trivial) simp_all
  then have m: "int ?n mod 2 ^ on_lbits ma = int ?n" "(int PAYLOAD_BUF_SIZE - int ?n) mod 2 ^ on_lbits ma = int (2048 - ?n)"
    using P(3) lb by (simp, simp add: PAYLOAD_BUF_SIZE_def)
  have d: "length (drop ?n (sc_buf w)) = 2048 - ?n" "length (take ?n (sc_buf w)) = ?n"
    using buf P(3) by (simp_all add: PAYLOAD_BUF_SIZE_def)
  have q: "?n \<le> length (take ?n (sc_buf w))" "take ?n (take ?n (sc_buf w)) = P" using d(2) P(1) by simp_all
  have "length msg \<le> 2048 - ?n" "2048 - ?n \<le> length (drop ?n (sc_buf w))" "length (drop ?n (sc_buf w)) < 2 ^ 31"
    using len P(3) d(1) by (linarith, linarith, simp)
  from sign_and_encode_writes [OF c io q msg this]
  obtain buf' where e: "sign_and_encode (on_nanopb ma) (on_sha512 ma) (on_sha256 ma) (on_sign ma) (on_pubkey ma) (loc_input loc) (loc_output loc)
      ?key (take ?n (sc_buf w)) ?n (drop ?n (sc_buf w)) (2048 - ?n) = Inr (int (length msg), buf')" "take (length msg) buf' = msg"
    by blast
  have pos: "\<not> int (length msg) \<le> 0"
    using length_proto_single [of "proto (sc_transaction ma ?key P)" 1] unfolding msg [symmetric] by linarith
  have n: "\<not> ?n \<le> 0" using P(2) by simp
  show ?thesis
    unfolding sc_send_def Let_def m(1) nat_int m(2) sc_sign_and_send_def e(1) bindE_Inr prod.case if_not_P [OF pos] if_not_P [OF n]
    by (intro exI [of _ buf'] conjI e(2)) (simp add: bindE_assoc case_prod_beta')
qed

lemma sc_send_sends:
  assumes c: "sc_crypto ma (acc_privkey (sh_account (sc_shell w)))" and ready: "sc_ready ma loc w"
    and P: "take (length P) (sc_buf w) = P" "0 < length P" "length P \<le> 700" and buf: "length (sc_buf w) = PAYLOAD_BUF_SIZE"
  shows "sc_sent ma w P (sc_send ma loc (int (length P)) w)"
  unfolding sc_sent_def
proof (intro allI impI)
  fix status :: int
  let ?key = "acc_privkey (sh_account (sc_shell w))" and ?n = "length P"
  let ?msg = "proto [(1, proto (sc_transaction ma ?key P))]"
  assume status: "0 < status" "accepts (on_platform ma) (bytes_text ?msg) status"
  have "16 \<le> on_lbits ma" "length (loc_input loc) = 35" "length (loc_output loc) = 35" using ready by (simp_all add: sc_ready_def)
  note s = sc_send_http [OF c this P buf HOL.refl]
  let ?nfo = "\<lambda>buf'. (sc_nfo w)\<lparr>nfo_payload := Some (bytes_text buf'), nfo_payload_size := length ?msg\<rparr>"
  let ?http = "rpc_http (sh_rpc (sc_shell w))"
  from s obtain buf' where e: "take (length ?msg) buf' = ?msg" and snd: "sc_send ma loc (int ?n) w =
    bindE (http_send_data (on_platform ma) (on_asserts ma) (loc_thread loc) (?nfo buf') ?http) (\<lambda>(ret, nfo, http).
      let (nfo, http) = http_nfo_free (on_platform ma) (loc_thread loc) nfo http;
          w' = w\<lparr>sc_nfo := nfo, sc_shell := (sc_shell w)\<lparr>sh_rpc := (sh_rpc (sc_shell w))\<lparr>rpc_http := http\<rparr>\<rparr>\<rparr>;
          w' = (if ret < 0 \<or> ret \<noteq> 200 then sc_say ''error: HTTP send'' w' else w')
      in Inr (ret, w'\<lparr>sc_buf := take (length P) (sc_buf w) @ buf'\<rparr>))" by blast
  obtain lock where "k_mutex_lock (on_platform ma) (loc_thread loc) (w_mutex ?http) = Some lock" using ready by (auto simp: sc_ready_def)
  moreover have "nfo_ready (?nfo buf')" "on_asserts ma \<longrightarrow> \<not> nfo_priv (?nfo buf')" "nfo_payload (?nfo buf') = Some (bytes_text buf')"
      "nfo_payload_size (?nfo buf') = length (bytes_text ?msg)" "take (length (bytes_text ?msg)) (bytes_text buf') = bytes_text ?msg"
    using ready e by (auto simp: sc_ready_def nfo_ready_def bytes_text_take)
  ultimately obtain nfo' http' where
    h: "http_send_data (on_platform ma) (on_asserts ma) (loc_thread loc) (?nfo buf') ?http = Inr (status, nfo', http')"
    using send_accepted [OF status(2,1)] by blast
  obtain nfo'' http'' where f: "http_nfo_free (on_platform ma) (loc_thread loc) nfo' http' = (nfo'', http'')" by fastforce
  show "\<exists>w'. sc_send ma loc (int ?n) w = Inr (status, w') \<and> sc_rec w' = sc_rec w \<and> sh_account (sc_shell w') = sh_account (sc_shell w) \<and>
        sh_out (sc_shell w') = sh_out (sc_shell w) @ (if status = 200 then [] else ''error: HTTP send'' @ [LF])"
    unfolding snd h bindE_Inr prod.case f Let_def using status(1) by (simp add: sc_say_def)
qed

lemma sc_sent_buf: "sc_sent ma (w\<lparr>sc_buf := buf\<rparr>) P r = sc_sent ma w P r"
  by (simp add: sc_sent_def)

lemma encoded_and_sent:
  assumes c: "sc_crypto ma (acc_privkey (sh_account (sc_shell w)))" and ready: "sc_ready ma loc w"
    and buf: "length (sc_buf w) = PAYLOAD_BUF_SIZE" and P: "0 < length P" "length P \<le> 700"
  shows "sc_sent ma w P (sc_send ma loc (int (length P)) (w\<lparr>sc_buf := P @ drop (length P) (sc_buf w)\<rparr>))"
  using sc_send_sends [of ma "w\<lparr>sc_buf := P @ drop (length P) (sc_buf w)\<rparr>" loc P] assms
  by (simp add: sc_sent_buf sc_ready_def PAYLOAD_BUF_SIZE_def)

lemma payload_not_empty: "0 < length (wire (payload_wire a now tag m))"
  by (simp add: payload_wire_def wire_append wire_Cons delimited_def)

lemma record_sent:
  assumes c: "sc_crypto ma (acc_privkey (sh_account (sc_shell w)))" and ready: "sc_ready ma loc w"
    and buf: "length (sc_buf w) = PAYLOAD_BUF_SIZE" and ok: "rec_ok (sc_rec w)"
  shows "sc_sent ma w (wire (payload_wire 1 (loc_now loc) 4 (create_wire (sc_rec w)))) (sub_create_record ma loc argv w)"
    and "sc_sent ma w (wire (payload_wire 4 (loc_now loc) 7 (update_wire (sc_rec w)))) (sub_update_record ma loc argv w)"
proof -
  have pb: "pb_documented (on_nanopb ma)" using c by (simp add: sc_crypto_def)
  have b: "326 \<le> PAYLOAD_BUF_SIZE" "PAYLOAD_BUF_SIZE \<le> length (sc_buf w)" using buf by (simp_all add: PAYLOAD_BUF_SIZE_def)
  note e = record_encoded [OF pb ok b, unfolded Let_def]
  have "length (wire (payload_wire 1 (loc_now loc) 4 (create_wire (sc_rec w)))) \<le> 700"
      "length (wire (payload_wire 4 (loc_now loc) 7 (update_wire (sc_rec w)))) \<le> 700"
    using length_payload_wire [OF length_wires(1) [OF ok], of 4 1 "loc_now loc"] length_payload_wire [OF length_wires(2) [OF ok], of 7 4 "loc_now loc"]
    by linarith+
  note s = encoded_and_sent [OF c ready buf payload_not_empty this(1)] encoded_and_sent [OF c ready buf payload_not_empty this(2)]
  from s show "sc_sent ma w (wire (payload_wire 1 (loc_now loc) 4 (create_wire (sc_rec w)))) (sub_create_record ma loc argv w)"
    "sc_sent ma w (wire (payload_wire 4 (loc_now loc) 7 (update_wire (sc_rec w)))) (sub_update_record ma loc argv w)"
    unfolding sub_create_record_def sub_update_record_def e by simp_all
qed

lemma length_bytes_field_big: "tag < 16 \<Longrightarrow> length bs < 2 ^ 31 \<Longrightarrow> length (wire_field (tag, Bytes bs)) \<le> length bs + 6"
  using length_varint [of "tag * 8 + 2" 0] length_varint [of "length bs" 4] by (simp add: delimited_def)

lemma agent_sent:
  assumes c: "sc_crypto ma (acc_privkey (sh_account (sc_shell w)))" and ready: "sc_ready ma loc w"
    and buf: "length (sc_buf w) = PAYLOAD_BUF_SIZE" and name: "CHR 0x00 \<notin> set name"
  shows "length name \<le> 600 \<Longrightarrow> sc_sent ma w (wire (payload_wire 0 (loc_now loc) 3 [(1, Bytes (string_bytes name))]))
      (sub_create_agent ma loc [cmd, name] w)"
    and "PAYLOAD_BUF_SIZE < length name \<Longrightarrow> length name < 2 ^ 30 \<Longrightarrow> sub_create_agent ma loc [cmd, name] w = Inl Out_of_bounds"
proof -
  let ?m = "[(1, Bytes (string_bytes name))]"
  let ?P = "wire (payload_wire 0 (loc_now loc) 3 ?m)"
  have pb: "pb_documented (on_nanopb ma)" using c by (simp add: sc_crypto_def)
  have b: "PAYLOAD_BUF_SIZE \<le> length (sc_buf w)" using buf by simp
  { assume n: "length name \<le> 600"
    then have "length (wire ?m) \<le> 604" using length_bytes_field [of 1 "string_bytes name" 600] by (simp add: wire_Cons)
    then have "length (wire_field (3, Bytes (wire ?m))) \<le> 608" using length_bytes_field [of 3 "wire ?m" 604] by simp
    then have P: "length ?P \<le> 700" using length_opt_number [of 2 "loc_now loc"]
      by (simp add: payload_wire_def wire_append wire_Cons del: wire_field.simps)
    then have "length ?P \<le> PAYLOAD_BUF_SIZE" "length ?P < 2 ^ 31" by (simp_all add: PAYLOAD_BUF_SIZE_def)
    with encoded_payload(1) [OF encode_create_agent_message [OF pb name] _ b] n
    have "encode_create_agent (on_nanopb ma) (loc_now loc) name (sc_buf w) PAYLOAD_BUF_SIZE = Inr (int (length ?P), ?P @ drop (length ?P) (sc_buf w))"
      by simp
    with encoded_and_sent [OF c ready buf payload_not_empty P]
    show "sc_sent ma w ?P (sub_create_agent ma loc [cmd, name] w)" by (simp add: sub_create_agent_def arg_def) }
  { assume n: "PAYLOAD_BUF_SIZE < length name" "length name < 2 ^ 30"
    have "length name \<le> length ?P" by (simp add: payload_wire_def wire_append wire_Cons delimited_def)
    moreover have "length (wire_field (1, Bytes (string_bytes name))) \<le> length name + 6"
      using length_bytes_field_big [of 1 "string_bytes name"] n(2) by simp
    then have m: "length (wire ?m) \<le> length name + 6" by (simp add: wire_Cons)
    then have "length (wire_field (3, Bytes (wire ?m))) \<le> length name + 12"
      using length_bytes_field_big [of 3 "wire ?m"] n(2) by simp
    then have "length ?P \<le> length name + 23"
      using length_opt_number [of 2 "loc_now loc"] by (simp add: payload_wire_def wire_append wire_Cons del: wire_field.simps)
    with n(2) have "length ?P < 2 ^ 31" by simp
    ultimately obtain buf' where e: "encode_create_agent (on_nanopb ma) (loc_now loc) name (sc_buf w) PAYLOAD_BUF_SIZE = Inr (-1, buf')"
        "length buf' = length (sc_buf w)"
      using encoded_payload(2) [OF encode_create_agent_message [OF pb name n(2)] _ b] n(1) by fastforce
    have "(2::int) ^ 16 \<le> 2 ^ on_lbits ma" using ready by (intro power_increasing) (simp_all add: sc_ready_def)
    then have lb: "65536 \<le> (2::int) ^ on_lbits ma" by simp
    then have "(-1::int) mod 2 ^ on_lbits ma = 2 ^ on_lbits ma - 1" by (intro zmod_minus1) simp
    with lb have w: "PAYLOAD_BUF_SIZE < nat ((-1::int) mod 2 ^ on_lbits ma)" by (simp add: PAYLOAD_BUF_SIZE_def)
    let ?n = "nat ((-1::int) mod 2 ^ on_lbits ma)"
    have io: "length (loc_input loc) = 35" "length (loc_output loc) = 35" using ready by (simp_all add: sc_ready_def)
    have "st_sign_tx (on_nanopb ma) (on_sha512 ma) (on_sha256 ma) (on_sign ma) (sc_tx key (take ?n buf') ?n) pk buf0 k = Inl Out_of_bounds" for key pk buf0 k
      using w e(2) buf by (simp add: st_sign_tx_def sc_tx_def Let_def read_at_def)
    then have "sc_send ma loc (-1) (w\<lparr>sc_buf := buf'\<rparr>) = Inl Out_of_bounds"
      using w unfolding sc_send_def Let_def sc_sign_and_send_def sign_and_encode_tx [OF io] by simp
    with e(1) show "sub_create_agent ma loc [cmd, name] w = Inl Out_of_bounds" by (simp add: sub_create_agent_def arg_def) }
qed

section \<open>Sessions\<close>

fun sc_session :: "('m, 'n) sc_machine \<Rightarrow> (sc_locals \<times> sc_command \<times> string list) list \<Rightarrow> ('m, 'n) sc_state \<Rightarrow> ('m, 'n) sc_state outcome" where
  "sc_session ma [] w = Inr w"
| "sc_session ma ((loc, c, argv) # cs) w = bindE (sc_run ma loc c argv w) (\<lambda>(ret, w). sc_session ma cs w)"

text \<open>The arrays keep their sizes, and the texts their last NUL.\<close>

definition sc_inv :: "('m, 'n) sc_state \<Rightarrow> bool" where
  "sc_inv w \<longleftrightarrow> length (rec_species (sc_rec w)) = RECORD_SPECIES_LEN \<and> length (rec_id (sc_rec w)) = RECORD_ID_LEN \<and>
     last (rec_species (sc_rec w)) = 0 \<and> last (rec_id (sc_rec w)) = 0 \<and> length (sc_buf w) = PAYLOAD_BUF_SIZE"

lemma sc_inv_rec_ok: "sc_inv w \<Longrightarrow> rec_ok (sc_rec w)"
  unfolding sc_inv_def rec_ok_def RECORD_SPECIES_LEN_def RECORD_ID_LEN_def
  by (metis last_in_set length_0_conv zero_neq_numeral)

lemma sc_inv_say: "sc_inv (sc_say s w) = sc_inv w"
  by (simp add: sc_inv_def sc_say_def)

lemma strncpy_to_last:
  "strncpy_to dst s n = Inr dst' \<Longrightarrow> length dst = Suc n \<Longrightarrow> length dst' = Suc n \<and> last dst' = last dst"
  by (auto simp: strncpy_to_def write_at_def last_append split: if_splits)

lemma encode_into_length: "encode_into pb m buf n = Inr (r, buf') \<Longrightarrow> length buf' = length buf"
  by (auto simp: encode_into_def bindE_eq_Inr split: if_splits dest: write_at_length)

lemma sign_and_encode_length:
  "sign_and_encode pb sha512 sha256 ecdsa_sign pubkey65 input output privkey payload n buf buf_size = Inr (r, buf') \<Longrightarrow> length buf' = length buf"
  by (auto simp: sign_and_encode_def Let_def bindE_eq_Inr st_sign_tx_def st_encode_header_def st_encode_tx_list_def
      split: if_splits prod.splits dest!: encode_into_length)

lemma sc_sign_and_send_keeps:
  "ensures (\<lambda>(r, buf', w'). sc_rec w' = sc_rec w \<and> length buf' = length buf) (sc_sign_and_send ma loc payload n buf buf_size w)"
  unfolding sc_sign_and_send_def Let_def
  by (intro ensures_rules; (simp add: sc_say_def)?) (auto dest: sign_and_encode_length)

lemma sc_send_keeps:
  assumes "sc_send ma loc ret w = Inr (r, w')" "length (sc_buf w) = PAYLOAD_BUF_SIZE"
  shows "sc_rec w' = sc_rec w \<and> length (sc_buf w') = PAYLOAD_BUF_SIZE"
proof -
  let ?n = "nat (ret mod 2 ^ on_lbits ma)"
  have "ensures (\<lambda>(r, w'). sc_rec w' = sc_rec w \<and> length (sc_buf w') = length (sc_buf w)) (sc_send ma loc ret w)"
    unfolding sc_send_def Let_def
    by (intro ensures_rules) (auto dest!: ensuresD [OF sc_sign_and_send_keeps])
  from ensuresD [OF this assms(1)] assms(2) show ?thesis by simp
qed

lemma sc_run_inv:
  assumes "sc_run ma loc c argv w = Inr (ret, w')" "sc_inv w"
  shows "sc_inv w'"
proof -
  have l: "length (rec_species (sc_rec w)) = Suc (RECORD_SPECIES_LEN - 1)" "length (rec_id (sc_rec w)) = Suc (RECORD_ID_LEN - 1)"
    using assms(2) by (simp_all add: sc_inv_def RECORD_SPECIES_LEN_def RECORD_ID_LEN_def)
  have z: "Suc (RECORD_SPECIES_LEN - 1) = RECORD_SPECIES_LEN" "Suc (RECORD_ID_LEN - 1) = RECORD_ID_LEN"
    by (simp_all add: RECORD_SPECIES_LEN_def RECORD_ID_LEN_def)
  note d = strncpy_to_last [OF _ l(1), unfolded z, unfolded One_nat_def] strncpy_to_last [OF _ l(2), unfolded z, unfolded One_nat_def]
  have s: "sc_inv v'" if "encode_into pb m (sc_buf w) n = Inr (r, buf)" "sc_send ma loc r (w\<lparr>sc_buf := buf\<rparr>) = Inr (r', v')" for pb m n r buf r' v'
    using sc_send_keeps [OF that(2)] encode_into_length [OF that(1)] assms(2) by (simp add: sc_inv_def)
  show ?thesis
  proof (cases c)
    case R_id
    with assms show ?thesis by (auto simp: sub_record_id_def bindE_eq_Inr sc_inv_def sc_say_def z split: if_splits dest!: d(2))
  next
    case R_species
    with assms show ?thesis by (auto simp: sub_record_species_def bindE_eq_Inr sc_inv_def sc_say_def z split: if_splits dest!: d(1))
  next
    case S_create_agent
    with assms show ?thesis
      by (auto simp: sub_create_agent_def encode_create_agent_def Let_def bindE_eq_Inr sc_inv_say split: if_splits intro: s)
  next
    case S_create_record
    with assms s show ?thesis by (auto simp: sub_create_record_def encode_createRecord_def Let_def bindE_eq_Inr)
  next
    case S_update_record
    with assms s show ?thesis by (auto simp: sub_update_record_def encode_updateProperties_def Let_def bindE_eq_Inr)
  qed (use assms in \<open>auto simp: sub_record_int_def sub_record_print_def Let_def bindE_eq_Inr sc_inv_def sc_say_def split: if_splits\<close>)
qed

lemma sc_session_inv: "sc_session ma cs w = Inr w' \<Longrightarrow> sc_inv w \<Longrightarrow> sc_inv w'"
  by (induction ma cs w rule: sc_session.induct) (simp, clarsimp simp: bindE_eq_Inr, metis sc_run_inv)

lemma supply_init_inv: "sc_inv (supply_init server_addr sh)"
  by (simp add: sc_inv_def supply_init_def RECORD_SPECIES_LEN_def RECORD_ID_LEN_def)

text \<open>With assertions, the structure of a request can be used once only.\<close>

lemma send_then_free:
  assumes laws: "mutex_laws pf level" and free: "\<forall>u. level u (w_mutex w) = 0"
    and s: "http_send_data pf asserts t nfo w = Inr (ret, nfo1, w1)" and f: "http_nfo_free pf t nfo1 w1 = (nfo2, w2)" and "0 \<le> ret"
  shows "nfo_priv nfo2 \<and> (\<forall>u. level u (w_mutex w2) = 0)"
proof -
  note l = send_data_levels [OF laws s]
  with assms(5) free have l1: "nfo_priv nfo1" "level t (w_mutex w1) = 1" by simp_all
  with nfo_free_levels [OF laws f] l show ?thesis by (metis diff_self_eq_0 zero_less_one)
qed

definition sc_used :: "(thread \<Rightarrow> 'm \<Rightarrow> nat) \<Rightarrow> ('m, 'n) sc_state \<Rightarrow> bool" where
  "sc_used level w \<longleftrightarrow> nfo_priv (sc_nfo w) \<and> (\<forall>u. level u (w_mutex (rpc_http (sh_rpc (sc_shell w)))) = 0)"

lemma sc_sign_and_send_used:
  assumes laws: "mutex_laws (on_platform ma) level" and free: "\<forall>u. level u (w_mutex (rpc_http (sh_rpc (sc_shell w)))) = 0"
  shows "ensures (\<lambda>(r, buf', w'). 0 \<le> r \<longrightarrow> sc_used level w') (sc_sign_and_send ma loc payload n buf buf_size w)"
  unfolding sc_sign_and_send_def Let_def
proof ((rule ensures_bind ensures_split ensures_if)+, goal_cases)
  case (1 _ tx_written buf')
  show ?case by (rule ensures_Inr) simp
next
  case (2 _ tx_written buf')
  show ?case
  proof (rule ensures_bind, clarify, rule ensures_split, rule ensures_Inr)
    fix ret nfo http nfo' http'
    assume "http_send_data (on_platform ma) (on_asserts ma) (loc_thread loc)
        ((sc_nfo w)\<lparr>nfo_payload := Some (bytes_text buf'), nfo_payload_size := nat tx_written\<rparr>) (rpc_http (sh_rpc (sc_shell w))) = Inr (ret, nfo, http)"
      "http_nfo_free (on_platform ma) (loc_thread loc) nfo http = (nfo', http')"
    from send_then_free [OF laws free this] show "case (ret, buf', if ret < 0 \<or> ret \<noteq> 200
          then sc_say ''error: HTTP send'' (w\<lparr>sc_nfo := nfo', sc_shell := (sc_shell w)\<lparr>sh_rpc := (sh_rpc (sc_shell w))\<lparr>rpc_http := http'\<rparr>\<rparr>\<rparr>)
          else w\<lparr>sc_nfo := nfo', sc_shell := (sc_shell w)\<lparr>sh_rpc := (sh_rpc (sc_shell w))\<lparr>rpc_http := http'\<rparr>\<rparr>\<rparr>) of
        (r, buf', w') \<Rightarrow> 0 \<le> r \<longrightarrow> sc_used level w'"
      by (simp add: sc_used_def sc_say_def)
  qed
qed

lemma sc_send_used:
  assumes "mutex_laws (on_platform ma) level" "\<forall>u. level u (w_mutex (rpc_http (sh_rpc (sc_shell w)))) = 0"
    and "sc_send ma loc ret w = Inr (r, w')" "0 \<le> r"
  shows "sc_used level w'"
proof -
  have "ensures (\<lambda>(r, w'). 0 \<le> r \<longrightarrow> sc_used level w') (sc_send ma loc ret w)"
    unfolding sc_send_def Let_def
    by (intro ensures_rules) (auto simp: sc_used_def dest!: ensuresD [OF sc_sign_and_send_used [OF assms(1,2)]])
  from ensuresD [OF this assms(3)] assms(4) show ?thesis by simp
qed

lemma used_send_asserts:
  assumes laws: "mutex_laws (on_platform ma) level" and used: "sc_used level w" and as: "on_asserts ma"
    and c: "sc_crypto ma (acc_privkey (sh_account (sc_shell w)))" and l: "16 \<le> on_lbits ma" "length (loc_input loc) = 35" "length (loc_output loc) = 35"
    and P: "0 < length P" "length P \<le> 700" and buf: "length (sc_buf w) = PAYLOAD_BUF_SIZE"
  shows "sc_send ma loc (int (length P)) (w\<lparr>sc_buf := P @ drop (length P) (sc_buf w)\<rparr>) = Inl Assertion_failed"
proof -
  let ?w = "w\<lparr>sc_buf := P @ drop (length P) (sc_buf w)\<rparr>"
  from laws used obtain m where m: "k_mutex_lock (on_platform ma) (loc_thread loc) (w_mutex (rpc_http (sh_rpc (sc_shell w)))) = Some m"
    unfolding mutex_laws_def sc_used_def by blast
  then have "http_send_data (on_platform ma) (on_asserts ma) (loc_thread loc)
        ((sc_nfo w)\<lparr>nfo_payload := p, nfo_payload_size := n\<rparr>) (rpc_http (sh_rpc (sc_shell w))) = Inl Assertion_failed" for p n
    using as used by (simp add: http_send_data_def assert_nfo_def sc_used_def)
  moreover have b: "take (length P) (sc_buf ?w) = P" "length (sc_buf ?w) = PAYLOAD_BUF_SIZE"
      "sc_crypto ma (acc_privkey (sh_account (sc_shell ?w)))" using P buf c by (simp_all add: PAYLOAD_BUF_SIZE_def)
  ultimately show ?thesis using sc_send_http [OF b(3) l b(1) P b(2) HOL.refl] by auto
qed

section \<open>Properties\<close>

lemma sc_sent_accepted:
  assumes "sc_sent ma w P r" "\<And>msg. accepts (on_platform ma) msg 200"
  shows "\<exists>w'. r = Inr (200, w') \<and> sc_rec w' = sc_rec w"
  using assms(1) [unfolded sc_sent_def, rule_format, OF _ assms(2)] by auto

definition demo_sc :: "(thread \<times> nat, unit) sc_machine" where
  "demo_sc = machine.extend demo_machine \<lparr>on_nanopb = demo_pb, on_sha512 = (\<lambda>d. replicate 64 7), on_sha256 = (\<lambda>d. replicate 32 2)\<rparr>"

definition demo_loc :: sc_locals where
  "demo_loc = \<lparr>loc_thread = 5, loc_now = 99, loc_input = replicate 35 0xaa, loc_output = replicate 35 0xbb\<rparr>"

definition demo_sc_state :: "(thread \<times> nat, unit) sc_state" where
  "demo_sc_state = supply_init ''10.0.0.1'' demo_shell"

lemma demo_sc_fields [simp]:
  "on_platform demo_sc = demo_platform (document demo_reply)" "on_asserts demo_sc" "on_lbits demo_sc = 32"
  by (simp_all add: demo_sc_def machine.extend_def demo_machine_def)

lemma demo_sc_crypto: "sc_crypto demo_sc key"
  using demo_documented by (simp add: sc_crypto_def demo_sc_def machine.extend_def demo_machine_def)

lemma demo_sc_ready: "sc_ready demo_sc demo_loc demo_sc_state"
  using demo_ready by (simp add: sc_ready_def demo_loc_def demo_sc_state_def supply_init_def demo_shell_def rpc_ready_def nfo_ready_def rpc_init_def
      demo_world_def demo_platform_def)

lemma demo_accepts: "accepts (on_platform demo_sc) msg 200"
  using demo_good(2) by (simp add: accepts_def demo_platform_def)

text \<open>
  C7: the supply chain, end to end. After any session of its commands, when the thread may use the HTTP
  client: \<open>create_record\<close> and \<open>update_record\<close> send one transaction list, whose one transaction carries the
  header of the family, the account's signature over exactly that header, and a payload that reads back as the
  record as it was edited; the command returns the status of the reply, reports any other than 200, and keeps
  the record and the account.
\<close>

theorem supply_record_sent:
  assumes "sc_session ma cs (supply_init server_addr sh) = Inr w"
    and "sc_crypto ma (acc_privkey (sh_account (sc_shell w)))" "sc_ready ma loc w"
  defines "P \<equiv> wire (payload_wire 1 (loc_now loc) 4 (create_wire (sc_rec w)))"
    and "Q \<equiv> wire (payload_wire 4 (loc_now loc) 7 (update_wire (sc_rec w)))"
  shows "sc_sent ma w P (sub_create_record ma loc argv w) \<and> sc_sent ma w Q (sub_update_record ma loc argv w) \<and>
    (\<exists>fs. read_wire P = Some fs \<and> number_at 1 fs = 1 \<and> read_fish 4 3 fs = fish_of (sc_rec w)) \<and>
    (\<exists>fs. read_wire Q = Some fs \<and> number_at 1 fs = 4 \<and> read_fish 7 2 fs = fish_of (sc_rec w))"
proof -
  have i: "sc_inv w" using sc_session_inv [OF assms(1) supply_init_inv] .
  then have "length (sc_buf w) = PAYLOAD_BUF_SIZE" by (simp add: sc_inv_def)
  from record_sent [OF assms(2,3) this sc_inv_rec_ok [OF i]] show ?thesis
    unfolding P_def Q_def using number_at_payload [of 4 1 "loc_now loc"] number_at_payload [of 7 4 "loc_now loc"]
    by (simp add: read_fish_create read_fish_update)
qed

theorem supply_record_sent_witness:
  "\<exists>w w'. sc_session demo_sc [(demo_loc, R_species, [''species'', ''FAO''])] demo_sc_state = Inr w \<and>
    sub_create_record demo_sc demo_loc [''create_record''] w = Inr (200, w') \<and> fish_species (fish_of (sc_rec w')) = string_bytes ''FAO''"
proof -
  let ?w = "demo_sc_state\<lparr>sc_rec := (sc_rec demo_sc_state)\<lparr>rec_species := string_bytes ''FAO'' @ [0]\<rparr>\<rparr>"
  have "strncpy_to [0x3f, 0x3f, 0x3f, 0] ''FAO'' 3 = Inr (string_bytes ''FAO'' @ [0])" by (simp add: strncpy_to_def write_at_def string_bytes_def)
  then have s: "sc_session demo_sc [(demo_loc, R_species, [''species'', ''FAO''])] demo_sc_state = Inr ?w"
    by (simp add: sub_record_species_def arg_def demo_sc_state_def supply_init_def RECORD_SPECIES_LEN_def)
  have r: "sc_ready demo_sc demo_loc ?w" using demo_sc_ready by (simp add: sc_ready_def)
  let ?run = "sub_create_record demo_sc demo_loc [''create_record''] ?w"
  have "sc_sent demo_sc ?w (wire (payload_wire 1 (loc_now demo_loc) 4 (create_wire (sc_rec ?w)))) ?run"
    using supply_record_sent [OF s [unfolded demo_sc_state_def] demo_sc_crypto r [unfolded demo_sc_state_def], of "[''create_record'']"]
    unfolding demo_sc_state_def by (rule conjunct1)
  then obtain w' where "?run = Inr (200, w')" "sc_rec w' = sc_rec ?w"
    using sc_sent_accepted [OF _ demo_accepts] by blast
  with s text_of_c_string [of "''FAO''"] show ?thesis by (auto simp: fish_of_def)
qed

text \<open>
  C38: the texts stay texts. In every session of the commands, successful or not, the species and the
  identifier stay arrays of 4 and 16 bytes that end with a NUL, and the buffer keeps its size: however long the
  arguments are, nothing is written outside, and the encoders find the ends of the texts.
\<close>

theorem supply_record_texts:
  assumes "sc_session ma cs (supply_init server_addr sh) = Inr w"
  shows "length (rec_species (sc_rec w)) = RECORD_SPECIES_LEN \<and> last (rec_species (sc_rec w)) = 0 \<and>
    length (rec_id (sc_rec w)) = RECORD_ID_LEN \<and> last (rec_id (sc_rec w)) = 0 \<and> length (sc_buf w) = PAYLOAD_BUF_SIZE"
  using sc_session_inv [OF assms supply_init_inv] by (simp add: sc_inv_def)

theorem supply_record_texts_witness:
  "\<exists>w. sc_session demo_sc [(demo_loc, R_species, [''species'', ''halibut''])] demo_sc_state = Inr w \<and> length (rec_species (sc_rec w)) = 4"
proof -
  obtain w where w: "sc_session demo_sc [(demo_loc, R_species, [''species'', ''halibut''])] demo_sc_state = Inr w"
    by (simp add: sub_record_species_def arg_def demo_sc_state_def supply_init_def RECORD_SPECIES_LEN_def strncpy_to_def write_at_def)
  with supply_record_texts [OF w [unfolded demo_sc_state_def]] show ?thesis by (simp add: RECORD_SPECIES_LEN_def)
qed

text \<open>
  C37: registering an agent. A name of up to 600 characters is sent in a signed transaction; a name that is
  longer than the buffer makes the encoding fail, and the failure, -1 in a \<open>size_t\<close>, passes the test for it: the
  command then hashes a payload of that size and reads far outside the buffer.
\<close>

theorem supply_agent_name:
  assumes "sc_crypto ma (acc_privkey (sh_account (sc_shell w)))" "sc_ready ma loc w"
    and "length (sc_buf w) = PAYLOAD_BUF_SIZE" "CHR 0x00 \<notin> set name"
  shows "(length name \<le> 600 \<longrightarrow> sc_sent ma w (wire (payload_wire 0 (loc_now loc) 3 [(1, Bytes (string_bytes name))])) (sub_create_agent ma loc [cmd, name] w)) \<and>
    (PAYLOAD_BUF_SIZE < length name \<and> length name < 2 ^ 30 \<longrightarrow> sub_create_agent ma loc [cmd, name] w = Inl Out_of_bounds)"
  using agent_sent [OF assms] by blast

theorem supply_agent_name_witness:
  "(\<exists>w'. sub_create_agent demo_sc demo_loc [''create_agent'', ''POKUS''] demo_sc_state = Inr (200, w')) \<and>
    sub_create_agent demo_sc demo_loc [''create_agent'', replicate 2049 CHR ''A''] demo_sc_state = Inl Out_of_bounds"
proof -
  have b: "length (sc_buf demo_sc_state) = PAYLOAD_BUF_SIZE" by (simp add: demo_sc_state_def supply_init_def)
  note t = supply_agent_name [OF demo_sc_crypto demo_sc_ready b]
  have "sc_sent demo_sc demo_sc_state (wire (payload_wire 0 (loc_now demo_loc) 3 [(1, Bytes (string_bytes ''POKUS''))]))
      (sub_create_agent demo_sc demo_loc [''create_agent'', ''POKUS''] demo_sc_state)"
    using t [of "''POKUS''" "''create_agent''"] by simp
  from sc_sent_accepted [OF this demo_accepts] show ?thesis
    using t [of "replicate 2049 CHR ''A''" "''create_agent''"] by (auto simp: PAYLOAD_BUF_SIZE_def)
qed

text \<open>
  C29: one request per run. With assertions, once a sending command has come back from the network, the next
  one stops the program: \<open>http_nfo_free\<close> releases the client but leaves \<open>_priv\<close> set, and \<open>http_send_data\<close>
  asserts that it is NULL.
\<close>

theorem supply_second_request_asserts:
  assumes "mutex_laws (on_platform ma) level" "on_asserts ma" "\<forall>u. level u (w_mutex (rpc_http (sh_rpc (sc_shell w)))) = 0"
    and "\<And>key. sc_crypto ma key" "sc_ready ma loc w" "sc_inv w"
    and "sub_create_record ma loc argv w = Inr (status, w')" "0 \<le> status"
  shows "sub_update_record ma loc argv' w' = Inl Assertion_failed"
proof -
  from assms(7) obtain pb m ret buf where e: "encode_createRecord (on_nanopb ma) (on_asserts ma) (loc_now loc) (sc_rec w) (sc_buf w) PAYLOAD_BUF_SIZE = Inr (ret, buf)"
      "sc_send ma loc ret (w\<lparr>sc_buf := buf\<rparr>) = Inr (status, w')"
    by (auto simp: sub_create_record_def bindE_eq_Inr)
  have used: "sc_used level w'" using sc_send_used [OF assms(1) _ e(2) assms(8)] assms(3) by simp
  have "sc_run ma loc S_create_record argv w = Inr (status, w')" using assms(7) by simp
  from sc_run_inv [OF this assms(6)] have inv: "sc_inv w'" .
  then have buf: "length (sc_buf w') = PAYLOAD_BUF_SIZE" by (simp add: sc_inv_def)
  have l: "16 \<le> on_lbits ma" "length (loc_input loc) = 35" "length (loc_output loc) = 35" using assms(5) by (simp_all add: sc_ready_def)
  have pb: "pb_documented (on_nanopb ma)" using assms(4) by (simp add: sc_crypto_def)
  have b: "326 \<le> PAYLOAD_BUF_SIZE" "PAYLOAD_BUF_SIZE \<le> length (sc_buf w')" using buf by (simp_all add: PAYLOAD_BUF_SIZE_def)
  have "length (wire (payload_wire 4 (loc_now loc) 7 (update_wire (sc_rec w')))) \<le> 700"
    using length_payload_wire [OF length_wires(2) [OF sc_inv_rec_ok [OF inv]], of 7 4 "loc_now loc"] by linarith
  from used_send_asserts [OF assms(1) used assms(2,4) l payload_not_empty this buf]
  show ?thesis unfolding sub_update_record_def record_encoded(2) [OF pb sc_inv_rec_ok [OF inv] b] Let_def by simp
qed

theorem supply_second_request_asserts_witness:
  "\<exists>w'. sub_create_record demo_sc demo_loc [''create_record''] demo_sc_state = Inr (200, w') \<and>
    sub_update_record demo_sc demo_loc [''update_record''] w' = Inl Assertion_failed"
proof -
  have i: "sc_inv demo_sc_state" unfolding demo_sc_state_def by (rule supply_init_inv)
  then have "length (sc_buf demo_sc_state) = PAYLOAD_BUF_SIZE" by (simp add: sc_inv_def)
  from record_sent(1) [OF demo_sc_crypto demo_sc_ready this sc_inv_rec_ok [OF i], of "[''create_record'']"]
  obtain w' where w: "sub_create_record demo_sc demo_loc [''create_record''] demo_sc_state = Inr (200, w')"
    using sc_sent_accepted [OF _ demo_accepts] by blast
  have "mutex_laws (on_platform demo_sc) demo_level" using demo_laws by simp
  moreover have "\<forall>u. demo_level u (w_mutex (rpc_http (sh_rpc (sc_shell demo_sc_state)))) = 0"
    by (simp add: demo_level_def demo_sc_state_def supply_init_def demo_shell_def rpc_init_def demo_world_def)
  ultimately have "sub_update_record demo_sc demo_loc [''update_record''] w' = Inl Assertion_failed"
    using supply_second_request_asserts [OF _ _ _ demo_sc_crypto demo_sc_ready i w] by simp
  with w show ?thesis by blast
qed

end
