(* ===== verification/Upload.thy ===== *)
theory Upload
  imports Wallet
begin

text \<open>
  \<open>zephyr-wallet/upload.c\<close> and \<open>sensor_service.c\<close>: a thread that sends sensor readings as Ethereum
  transactions, started and stopped by shell commands through two semaphores. The two threads are
  interleaved: a step of the machine is one step of the shell thread or of the upload thread, from one use of
  a semaphore to the next. The semaphores are the kernel's, a parameter.
\<close>

section \<open>Definitions\<close>

text \<open>\<open>sensor_service.c\<close>: the static values and the polling thread. \<open>val1\<close> is the integral part of a reading.\<close>

type_synonym s32 = "32 word"

record sensor_value =
  val1 :: s32
  val2 :: s32

record sensor_state =
  sn_temp :: sensor_value
  sn_humidity :: sensor_value
  sn_last_err :: int

definition sensor_init :: sensor_state where
  "sensor_init = \<lparr>sn_temp = \<lparr>val1 = 0, val2 = 0\<rparr>, sn_humidity = \<lparr>val1 = 0, val2 = 0\<rparr>, sn_last_err = 0\<rparr>"

definition get_sensor_data :: "sensor_state \<Rightarrow> int \<times> s32 \<times> s32" where
  "get_sensor_data sn = (sn_last_err sn, val1 (sn_temp sn), val1 (sn_humidity sn))"

text \<open>
  One turn of \<open>temperature_main\<close>: with \<open>CONFIG_SENSOR\<close>, given the return value of \<open>sensor_sample_fetch\<close> and what
  the two channels hold; without it, given two results of \<open>rand\<close>.
\<close>

definition temperature_turn :: "int \<Rightarrow> sensor_value \<Rightarrow> sensor_value \<Rightarrow> sensor_state \<Rightarrow> sensor_state" where
  "temperature_turn err temp humidity sn =
    (let sn = sn\<lparr>sn_last_err := err\<rparr> in
     if err = 0 then sn\<lparr>sn_temp := temp, sn_humidity := humidity\<rparr> else sn)"

definition temperature_turn_rand :: "nat \<Rightarrow> nat \<Rightarrow> sensor_state \<Rightarrow> sensor_state" where
  "temperature_turn_rand r1 r2 sn = sn\<lparr>sn_last_err := 0, sn_temp := (sn_temp sn)\<lparr>val1 := of_nat (20 + r1 mod 2)\<rparr>,
     sn_humidity := (sn_humidity sn)\<lparr>val1 := of_nat (40 + r2 mod 3)\<rparr>\<rparr>"

definition sensor_get :: "sensor_state \<Rightarrow> ('m, 'n) shell \<Rightarrow> int \<times> ('m, 'n) shell" where
  "sensor_get sn w =
    (if sn_last_err sn < 0 then (0, say (''error getting data from the sensor ('' @ signed_digits (sn_last_err sn) @ '')'') w)
     else (0, say_line (signed_digits (sint (val1 (sn_temp sn))) @ '' C '' @ signed_digits (sint (val1 (sn_humidity sn))) @ ''%'') w))"

text \<open>
  \<open>upload.c\<close>. \<open>ptr\<close> in \<open>tx.data\<close> is the address of the local array \<open>tx_data\<close>, \<open>{temperature, humidity}\<close> cut to bytes.
\<close>

definition DEFAULT_UPLOAD_INTERVAL :: u16 where "DEFAULT_UPLOAD_INTERVAL = 30"

definition send_data_eth ::
    "('m, 'n) machine \<Rightarrow> stack \<Rightarrow> u64 \<Rightarrow> address_t \<Rightarrow> s32 \<Rightarrow> s32 \<Rightarrow> ('m, 'n) shell \<Rightarrow> ('m, 'n) command_result" where
  "send_data_eth ma st ptr addr temperature humidity w =
    (let account = sh_account w;
         tx_data = [ucast temperature, ucast humidity] :: u8 list;
         tx = (stk_tx st)\<lparr>tx_nonce := acc_nonce account, tx_gas_price := 1 * 100000000, tx_to := addr\<rparr>;
         tx = (tx_set_value_u64 tx 0)\<lparr>tx_data := Some (ptr, tx_data), tx_data_len := length tx_data,
           tx_gas_limit := 21000 + 68 * of_nat (length tx_data)\<rparr> in
     bindE (sign_and_send ma st tx w) (\<lambda>(ret, tx_hash, w).
     if ret < 0 then Inr (-1, say_line ''Error: eth_sendRawTransaction()'' w)
     else Inr (0, w\<lparr>sh_account := (sh_account w)\<lparr>acc_nonce := acc_nonce (sh_account w) + 1\<rparr>\<rparr>)))"

text \<open>The kernel's semaphores; \<open>k_sem_take\<close> is \<open>None\<close> when the semaphore is not available.\<close>

record 's ksem =
  k_sem_count_get :: "'s \<Rightarrow> nat"
  k_sem_take :: "'s \<Rightarrow> 's option"
  k_sem_give :: "'s \<Rightarrow> 's"

text \<open>
  Where the upload thread is: not there, created and about to take its semaphore, about to copy the
  address, at the condition of the loop, in its body, asleep, about to give its semaphore.
\<close>

datatype upload_pc = T_none | T_created | T_copy | T_check address_t | T_body address_t | T_sleep address_t | T_exit

text \<open>Where the shell is: between commands, or in \<open>upload_start\<close> or \<open>upload_stop\<close> about to use a semaphore.\<close>

datatype shell_pc = S_idle | S_start | S_create | S_stop | S_not_running | S_signal | S_wait | S_reset | S_reset_exit

record ('m, 'n, 's) upload =
  up_shell :: "('m, 'n) shell"
  up_sensor :: sensor_state
  up_addr :: address_t
  up_interval :: u16
  up_sem :: 's
  up_exit_sem :: 's
  up_thread :: upload_pc
  up_pc :: shell_pc

text \<open>The statics as they are initialised; \<open>free\<close> and \<open>taken\<close> are semaphores with limit 1 and the counts 1 and 0.\<close>

definition upload_init :: "'s \<Rightarrow> 's \<Rightarrow> ('m, 'n) shell \<Rightarrow> ('m, 'n, 's) upload" where
  "upload_init free taken sh = \<lparr>up_shell = sh, up_sensor = sensor_init, up_addr = \<lparr>addr_a = replicate 20 0\<rparr>,
     up_interval = DEFAULT_UPLOAD_INTERVAL, up_sem = free, up_exit_sem = taken, up_thread = T_none, up_pc = S_idle\<rparr>"

text \<open>
  A step of \<open>upload_main\<close>. \<open>expired\<close> says that the timeout of a \<open>k_sem_take\<close> has run out. \<open>None\<close>: the thread
  does not move.
\<close>

fun upload_thread_step ::
    "('m, 'n) machine \<Rightarrow> 's ksem \<Rightarrow> stack \<Rightarrow> u64 \<Rightarrow> bool \<Rightarrow> ('m, 'n, 's) upload \<Rightarrow> ('m, 'n, 's) upload option outcome" where
  "upload_thread_step ma K st ptr expired w =
    (case up_thread w of
       T_none \<Rightarrow> Inr None
     | T_created \<Rightarrow>
         (case k_sem_take K (up_sem w) of
            Some s \<Rightarrow> Inr (Some (w\<lparr>up_sem := s, up_thread := T_copy\<rparr>))
          | None \<Rightarrow>
              if expired then bindE (assertE (\<not> on_asserts ma)) (\<lambda>_. Inr (Some (w\<lparr>up_thread := T_copy\<rparr>)))
              else Inr None)
     | T_copy \<Rightarrow> Inr (Some (w\<lparr>up_thread := T_check (up_addr w)\<rparr>))
     | T_check upload_addr \<Rightarrow>
         Inr (Some (w\<lparr>up_thread := (if k_sem_count_get K (up_exit_sem w) = 0 then T_body upload_addr else T_exit)\<rparr>))
     | T_body upload_addr \<Rightarrow>
         (let (ret, temp, humidity) = get_sensor_data (up_sensor w) in
          if ret = 0 then bindE (send_data_eth ma st ptr upload_addr temp humidity (up_shell w)) (\<lambda>(_, sh).
            Inr (Some (w\<lparr>up_shell := sh, up_thread := T_sleep upload_addr\<rparr>)))
          else Inr (Some (w\<lparr>up_thread := T_sleep upload_addr\<rparr>)))
     | T_sleep upload_addr \<Rightarrow> Inr (Some (w\<lparr>up_thread := T_check upload_addr\<rparr>))
     | T_exit \<Rightarrow> Inr (Some (w\<lparr>up_sem := k_sem_give K (up_sem w), up_thread := T_none\<rparr>)))"

declare upload_thread_step.simps [simp del]

text \<open>
  \<open>upload_start\<close> up to its first semaphore. A failing \<open>hextobin\<close> may have written to \<open>_upload_addr\<close>, and
  \<open>errno\<close> is not cleared before \<open>strtoul\<close>, whose result is cut to 16 bits.
\<close>

definition upload_start_args ::
    "('m, 'n) machine \<Rightarrow> string list \<Rightarrow> ('m, 'n, 's) upload \<Rightarrow> ('m, 'n, 's) upload outcome" where
  "upload_start_args ma argv w =
    (if length argv < 2 then Inr (w\<lparr>up_shell := say_line ''missing argument: address'' (up_shell w)\<rparr>)
     else bindE (arg argv 1) (\<lambda>str.
       bindE (hextobin str (addr_a (up_addr w)) 20) (\<lambda>(ret, bytes).
       let w = w\<lparr>up_addr := \<lparr>addr_a = bytes\<rparr>\<rparr> in
       if ret < 0 then Inr (w\<lparr>up_shell := say_line ''invalid argument: address'' (up_shell w)\<rparr>)
       else if length argv = 3 then
         bindE (arg argv 2) (\<lambda>str.
         bindE (strtoul10 (on_lbits ma) (sh_errno (up_shell w)) str) (\<lambda>(val, errno, _).
         let w = w\<lparr>up_interval := of_nat val, up_shell := (up_shell w)\<lparr>sh_errno := errno\<rparr>\<rparr> in
         if errno then Inr (w\<lparr>up_shell := say_line ''invalid upload interval'' (up_shell w)\<rparr>)
         else Inr (w\<lparr>up_pc := S_start\<rparr>)))
       else Inr (w\<lparr>up_interval := DEFAULT_UPLOAD_INTERVAL, up_pc := S_start\<rparr>))))"

datatype upload_command = Start "string list" | Stop

text \<open>A step of the shell: the command typed when it is idle, or the next step of the one that runs.\<close>

fun upload_shell_step ::
    "('m, 'n) machine \<Rightarrow> 's ksem \<Rightarrow> upload_command \<Rightarrow> bool \<Rightarrow> ('m, 'n, 's) upload \<Rightarrow> ('m, 'n, 's) upload option outcome" where
  "upload_shell_step ma K c expired w =
    (case up_pc w of
       S_idle \<Rightarrow> (case c of
           Start argv \<Rightarrow> bindE (upload_start_args ma argv w) (\<lambda>w. Inr (Some w))
         | Stop \<Rightarrow> Inr (Some (w\<lparr>up_pc := S_stop\<rparr>)))
     | S_start \<Rightarrow>
         (case k_sem_take K (up_sem w) of
            Some s \<Rightarrow> Inr (Some (w\<lparr>up_sem := s, up_pc := S_create\<rparr>))
          | None \<Rightarrow> Inr (if expired then Some (w\<lparr>up_shell := say_line ''thread already started'' (up_shell w), up_pc := S_idle\<rparr>) else None))
     | S_create \<Rightarrow> Inr (Some (w\<lparr>up_thread := T_created, up_pc := S_idle\<rparr>))
     | S_stop \<Rightarrow>
         (case k_sem_take K (up_sem w) of
            Some s \<Rightarrow> Inr (Some (w\<lparr>up_sem := s, up_shell := say_line ''thread not running'' (up_shell w), up_pc := S_not_running\<rparr>))
          | None \<Rightarrow> Inr (if expired then Some (w\<lparr>up_pc := S_signal\<rparr>) else None))
     | S_not_running \<Rightarrow> Inr (Some (w\<lparr>up_sem := k_sem_give K (up_sem w), up_pc := S_idle\<rparr>))
     | S_signal \<Rightarrow> Inr (Some (w\<lparr>up_exit_sem := k_sem_give K (up_exit_sem w), up_pc := S_wait\<rparr>))
     | S_wait \<Rightarrow> Inr (map_option (\<lambda>s. w\<lparr>up_sem := s, up_pc := S_reset\<rparr>) (k_sem_take K (up_sem w)))
     | S_reset \<Rightarrow> Inr (Some (w\<lparr>up_sem := k_sem_give K (up_sem w), up_pc := S_reset_exit\<rparr>))
     | S_reset_exit \<Rightarrow> Inr (map_option (\<lambda>s. w\<lparr>up_exit_sem := s, up_pc := S_idle\<rparr>) (k_sem_take K (up_exit_sem w))))"

declare upload_shell_step.simps [simp del]

text \<open>The machine: steps of the two threads and of the sensor, in any order.\<close>

inductive upload_step :: "('m, 'n) machine \<Rightarrow> 's ksem \<Rightarrow> ('m, 'n, 's) upload \<Rightarrow> ('m, 'n, 's) upload \<Rightarrow> bool"
  for ma :: "('m, 'n) machine" and K :: "'s ksem"
where
  shell: "upload_shell_step ma K c expired w = Inr (Some w') \<Longrightarrow> upload_step ma K w w'"
| thread: "upload_thread_step ma K st ptr expired w = Inr (Some w') \<Longrightarrow> upload_step ma K w w'"
| sensor: "upload_step ma K w (w\<lparr>up_sensor := temperature_turn err temp humidity (up_sensor w)\<rparr>)"
| sensor_rand: "upload_step ma K w (w\<lparr>up_sensor := temperature_turn_rand r1 r2 (up_sensor w)\<rparr>)"

inductive upload_reach :: "('m, 'n) machine \<Rightarrow> 's ksem \<Rightarrow> ('m, 'n, 's) upload \<Rightarrow> ('m, 'n, 's) upload \<Rightarrow> bool"
  for ma :: "('m, 'n) machine" and K :: "'s ksem" and w0 :: "('m, 'n, 's) upload"
where
  start: "upload_reach ma K w0 w0"
| step: "upload_reach ma K w0 w \<Longrightarrow> upload_step ma K w w' \<Longrightarrow> upload_reach ma K w0 w'"

inductive_cases upload_stepE: "upload_step ma K w w'"

text \<open>What the kernel documents about semaphores with limit 1.\<close>

definition sem_documented :: "'s ksem \<Rightarrow> bool" where
  "sem_documented K \<longleftrightarrow> (\<forall>s.
     (k_sem_count_get K s = 0 \<longrightarrow> k_sem_take K s = None) \<and>
     (0 < k_sem_count_get K s \<longrightarrow> (\<exists>s'. k_sem_take K s = Some s' \<and> k_sem_count_get K s' = k_sem_count_get K s - 1)) \<and>
     k_sem_count_get K (k_sem_give K s) = 1)"

section \<open>The transaction of a reading\<close>

definition reading_tx :: "stack \<Rightarrow> u64 \<Rightarrow> account_t \<Rightarrow> address_t \<Rightarrow> s32 \<Rightarrow> s32 \<Rightarrow> transaction_t" where
  "reading_tx st ptr a addr temp humidity = (stk_tx st)\<lparr>tx_nonce := acc_nonce a, tx_gas_price := 100000000,
     tx_gas_limit := 21136, tx_to := addr, tx_value := set256_uint64 0, tx_data := Some (ptr, [ucast temp, ucast humidity]), tx_data_len := 2\<rparr>"

lemma reading_fields:
  "tx_fields (reading_tx st ptr a addr temp humidity) None =
    [min_bytes (unat (acc_nonce a)), min_bytes 100000000, min_bytes 21136, addr_a addr, [], [ucast temp, ucast humidity]]"
  using set64_content [of 0] by (simp add: tx_fields_def reading_tx_def data_content_def strip_zero_def)

lemma reading_payload:
  assumes "length (addr_a addr) = 20"
  shows "Transaction.tx_ok (reading_tx st ptr a addr temp humidity)" "length (tx_payload (reading_tx st ptr a addr temp humidity) None) \<le> 50"
proof -
  have m: "length (min_bytes (unat (acc_nonce a))) \<le> 4" "length (min_bytes 100000000) \<le> 4" "length (min_bytes 21136) \<le> 2"
    using u32_bound [of "acc_nonce a"] by (simp_all add: length_min_bytes_le)
  then have "length (rlp_string (min_bytes (unat (acc_nonce a)))) \<le> 5" "length (rlp_string (min_bytes 100000000)) \<le> 5"
      "length (rlp_string (min_bytes 21136)) \<le> 3" "length (rlp_string (addr_a addr)) \<le> 21" "length (rlp_string []) \<le> 1"
      "length (rlp_string [ucast temp, ucast humidity]) \<le> 3"
    using assms by (auto intro!: order_trans [OF length_rlp_short])
  then show "length (tx_payload (reading_tx st ptr a addr temp humidity) None) \<le> 50"
    by (simp add: tx_payload_def reading_fields)
  have "val256 (set256_uint64 0) = 0" using set64_content [of 0] by simp
  then show "Transaction.tx_ok (reading_tx st ptr a addr temp humidity)"
    using assms by (simp add: Transaction.tx_ok_def reading_tx_def uint256_ok_def)
qed

lemma send_data_eth_tx:
  "send_data_eth ma st ptr addr temp humidity w =
    bindE (sign_and_send ma st (reading_tx st ptr (sh_account w) addr temp humidity) w) (\<lambda>(ret, tx_hash, w).
     if ret < 0 then Inr (-1, say_line ''Error: eth_sendRawTransaction()'' w)
     else Inr (0, w\<lparr>sh_account := (sh_account w)\<lparr>acc_nonce := acc_nonce (sh_account w) + 1\<rparr>\<rparr>))"
proof -
  have "(tx_set_value_u64 ((stk_tx st)\<lparr>tx_nonce := acc_nonce (sh_account w), tx_gas_price := 1 * 100000000, tx_to := addr\<rparr>) 0)
      \<lparr>tx_data := Some (ptr, [ucast temp, ucast humidity]), tx_data_len := length [ucast temp :: u8, ucast humidity],
       tx_gas_limit := 21000 + 68 * of_nat (length [ucast temp :: u8, ucast humidity])\<rparr> =
     reading_tx st ptr (sh_account w) addr temp humidity"
    by (cases "stk_tx st") (simp add: reading_tx_def tx_set_value_u64_def)
  then show ?thesis by (simp only: send_data_eth_def Let_def)
qed

section \<open>The two semaphores\<close>

text \<open>
  What holds in every state: the counts of the semaphores and whether there is an upload thread, by the step the
  shell is at.
\<close>

fun upload_inv :: "'s ksem \<Rightarrow> ('m, 'n, 's) upload \<Rightarrow> bool" where
  "upload_inv K w \<longleftrightarrow>
    (let sem = k_sem_count_get K (up_sem w); ext = k_sem_count_get K (up_exit_sem w); t = up_thread w in
     case up_pc w of
       S_wait \<Rightarrow> ext = 1 \<and> sem = (if t = T_none then 1 else 0)
     | S_reset \<Rightarrow> ext = 1 \<and> sem = 0 \<and> t = T_none
     | S_reset_exit \<Rightarrow> ext = 1 \<and> sem = 1 \<and> t = T_none
     | S_signal \<Rightarrow> ext = 0 \<and> sem = 0 \<and> t \<noteq> T_none \<and> t \<noteq> T_exit
     | S_create \<Rightarrow> ext = 0 \<and> sem = 0 \<and> t = T_none
     | S_not_running \<Rightarrow> ext = 0 \<and> sem = 0 \<and> t = T_none
     | _ \<Rightarrow> ext = 0 \<and> sem = (if t = T_none then 1 else 0) \<and> t \<noteq> T_exit)"

lemma sem_simps:
  assumes "sem_documented K"
  shows "k_sem_count_get K s = 0 \<Longrightarrow> k_sem_take K s = None" "k_sem_take K s = Some s' \<Longrightarrow> 0 < k_sem_count_get K s"
    "k_sem_take K s = Some s' \<Longrightarrow> k_sem_count_get K s' = k_sem_count_get K s - 1"
    "k_sem_take K s = None \<longleftrightarrow> k_sem_count_get K s = 0" "k_sem_count_get K (k_sem_give K s) = 1"
proof -
  note s = assms [unfolded sem_documented_def, rule_format, of s]
  show "k_sem_count_get K s = 0 \<Longrightarrow> k_sem_take K s = None" "k_sem_count_get K (k_sem_give K s) = 1" using s by blast+
  show "k_sem_take K s = Some s' \<Longrightarrow> 0 < k_sem_count_get K s" using s by fastforce
  then show "k_sem_take K s = Some s' \<Longrightarrow> k_sem_count_get K s' = k_sem_count_get K s - 1" using s by fastforce
  show "k_sem_take K s = None \<longleftrightarrow> k_sem_count_get K s = 0" using s by fastforce
qed

lemma upload_start_args_keeps:
  "upload_start_args ma argv w = Inr w' \<Longrightarrow> up_pc w = S_idle \<Longrightarrow>
   up_sem w' = up_sem w \<and> up_exit_sem w' = up_exit_sem w \<and> up_thread w' = up_thread w \<and> up_pc w' \<in> {S_idle, S_start} \<and>
   sh_account (up_shell w') = sh_account (up_shell w) \<and> sh_rpc (up_shell w') = sh_rpc (up_shell w)"
  unfolding upload_start_args_def
  by (auto simp: bindE_eq_Inr say_line_def say_def Let_def split: if_splits)

lemma shell_step_inv:
  assumes K: "sem_documented K" and inv: "upload_inv K w" and st: "upload_shell_step ma K c expired w = Inr (Some w')"
  shows "upload_inv K w' \<and> sh_account (up_shell w') = sh_account (up_shell w) \<and> sh_rpc (up_shell w') = sh_rpc (up_shell w) \<and>
    (up_thread w' = up_thread w \<or> up_thread w' = T_created)"
proof -
  note gives = sem_simps(5) [OF K] and none = sem_simps(4) [OF K]
  have taken: "\<And>s'. k_sem_take K (up_sem w) = Some s' \<Longrightarrow> 0 < k_sem_count_get K (up_sem w) \<and> k_sem_count_get K s' = k_sem_count_get K (up_sem w) - 1"
      "\<And>s'. k_sem_take K (up_exit_sem w) = Some s' \<Longrightarrow> 0 < k_sem_count_get K (up_exit_sem w) \<and> k_sem_count_get K s' = k_sem_count_get K (up_exit_sem w) - 1"
    using sem_simps(2,3) [OF K] by blast+
  show ?thesis
  proof (cases "up_pc w")
  case S_idle
  with st show ?thesis
  proof (cases c)
    case (Start argv)
    with S_idle st obtain "upload_start_args ma argv w = Inr w'" by (auto simp: upload_shell_step.simps bindE_eq_Inr)
    from upload_start_args_keeps [OF this S_idle] inv S_idle show ?thesis by (auto simp: Let_def split: if_splits)
  next
    case Stop
    with S_idle st inv show ?thesis by (auto simp: upload_shell_step.simps Let_def)
  qed
  next
    case S_start
    with st inv none [of "up_sem w"] show ?thesis
      by (auto simp: upload_shell_step.simps Let_def say_line_def say_def split: option.splits if_splits dest: taken)
  next
    case S_stop
    with st inv none [of "up_sem w"] show ?thesis
      by (auto simp: upload_shell_step.simps Let_def say_line_def say_def split: option.splits if_splits dest: taken)
  next
    case S_wait
    with st inv show ?thesis by (auto simp: upload_shell_step.simps Let_def split: if_splits dest: taken)
  next
    case S_reset_exit
    with st inv show ?thesis by (auto simp: upload_shell_step.simps Let_def split: if_splits dest: taken)
  qed (use st inv gives in \<open>auto simp: upload_shell_step.simps Let_def\<close>)
qed

lemma send_data_eth_result:
  "send_data_eth ma st ptr addr temp humidity w = Inr (ret, w') \<Longrightarrow> ret = 0 \<or> ret = -1"
  unfolding send_data_eth_tx by (auto simp: bindE_eq_Inr split: if_splits)

lemma thread_step_inv:
  assumes K: "sem_documented K" and inv: "upload_inv K w" and st: "upload_thread_step ma K st ptr expired w = Inr (Some w')"
  shows "upload_inv K w'"
proof (cases "up_thread w")
  case T_created
  with inv have "k_sem_count_get K (up_sem w) = 0" by (cases "up_pc w") (auto simp: Let_def)
  with sem_simps(1) [OF K] have "k_sem_take K (up_sem w) = None" by blast
  with T_created st inv show ?thesis
    by (cases "up_pc w") (auto simp: upload_thread_step.simps Let_def bindE_eq_Inr split: if_splits)
next
  case (T_check a)
  with st inv show ?thesis by (cases "up_pc w") (auto simp: upload_thread_step.simps Let_def split: if_splits)
next
  case (T_body a)
  with st have "up_sem w' = up_sem w \<and> up_exit_sem w' = up_exit_sem w \<and> up_pc w' = up_pc w \<and> up_thread w' = T_sleep a"
    by (auto simp: upload_thread_step.simps bindE_eq_Inr get_sensor_data_def split: if_splits)
  with T_body inv show ?thesis by (cases "up_pc w") (auto simp: Let_def)
next
  case T_exit
  with st inv sem_simps(5) [OF K] show ?thesis by (cases "up_pc w") (auto simp: upload_thread_step.simps Let_def)
qed (use st inv in \<open>cases "up_pc w"; auto simp: upload_thread_step.simps Let_def\<close>)+

lemma upload_step_inv:
  assumes "sem_documented K" "upload_step ma K w w'" "upload_inv K w"
  shows "upload_inv K w'"
  using assms(2)
proof cases
  case shell
  with shell_step_inv [OF assms(1,3)] show ?thesis by blast
next
  case thread
  with thread_step_inv [OF assms(1,3)] show ?thesis by blast
qed (use assms(3) in \<open>auto simp: Let_def\<close>)

lemma upload_reach_inv:
  assumes K: "sem_documented K" "k_sem_count_get K free = 1" "k_sem_count_get K taken = 0"
    and r: "upload_reach ma K (upload_init free taken sh) w"
  shows "upload_inv K w"
  using r
proof induction
  case start
  with K(2,3) show ?case by (simp add: upload_init_def)
next
  case (step w w')
  then show ?case using upload_step_inv [OF K(1)] by blast
qed

section \<open>Stopping\<close>

definition stopped :: "('m, 'n, 's) upload \<Rightarrow> bool" where
  "stopped w \<longleftrightarrow> up_pc w = S_idle \<and> up_thread w = T_none"

abbreviation upload_run :: "('m, 'n) machine \<Rightarrow> 's ksem \<Rightarrow> ('m, 'n, 's) upload \<Rightarrow> ('m, 'n, 's) upload \<Rightarrow> bool" where
  "upload_run ma K \<equiv> (upload_step ma K)\<^sup>*\<^sup>*"

lemma run_step: "upload_step ma K w w' \<Longrightarrow> \<exists>w''. upload_run ma K w' w'' \<and> stopped w'' \<Longrightarrow> \<exists>w''. upload_run ma K w w'' \<and> stopped w''"
  by (meson converse_rtranclp_into_rtranclp)

lemma stops_without_thread:
  assumes K: "sem_documented K" and inv: "upload_inv K w" and pc: "up_pc w = S_wait" "up_thread w = T_none"
  shows "\<exists>w'. upload_run ma K w w' \<and> stopped w'"
proof -
  from inv pc have "k_sem_count_get K (up_sem w) = 1" "k_sem_count_get K (up_exit_sem w) = 1" by (simp_all add: Let_def)
  then obtain s e where s: "k_sem_take K (up_sem w) = Some s" "k_sem_take K (up_exit_sem w) = Some e"
    using sem_simps(4) [OF K] by (metis one_neq_zero option.exhaust)
  let ?w1 = "w\<lparr>up_sem := s, up_pc := S_reset\<rparr>"
  let ?w2 = "?w1\<lparr>up_sem := k_sem_give K (up_sem ?w1), up_pc := S_reset_exit\<rparr>"
  let ?w3 = "?w2\<lparr>up_exit_sem := e, up_pc := S_idle\<rparr>"
  have a: "upload_step ma K w ?w1" by (rule upload_step.shell [of _ _ Stop False]) (simp add: upload_shell_step.simps pc s)
  have b: "upload_step ma K ?w1 ?w2" by (rule upload_step.shell [of _ _ Stop False]) (simp add: upload_shell_step.simps)
  have c: "upload_step ma K ?w2 ?w3" by (rule upload_step.shell [of _ _ Stop False]) (simp add: upload_shell_step.simps s)
  have "stopped ?w3" using pc by (simp add: stopped_def)
  then have "\<exists>w'. upload_run ma K ?w3 w' \<and> stopped w'" by blast
  from run_step [OF a run_step [OF b run_step [OF c this]]] show ?thesis .
qed

lemma stops_at_exit:
  assumes K: "sem_documented K" and inv: "upload_inv K w" and pc: "up_pc w = S_wait" "up_thread w = T_exit"
  shows "\<exists>w'. upload_run ma K w w' \<and> stopped w'"
proof -
  let ?w = "w\<lparr>up_sem := k_sem_give K (up_sem w), up_thread := T_none\<rparr>"
  have s: "upload_step ma K w ?w" by (rule upload_step.thread [of _ _ undefined 0 False]) (simp add: upload_thread_step.simps pc)
  from upload_step_inv [OF K s inv] have "upload_inv K ?w" .
  from run_step [OF s stops_without_thread [OF K this]] pc show ?thesis by simp
qed

lemma stops_at:
  assumes K: "sem_documented K" and inv: "upload_inv K w" and pc: "up_pc w = S_wait"
    and t: "up_thread w = T_exit \<or> (\<exists>a. up_thread w = T_check a)"
  shows "\<exists>w'. upload_run ma K w w' \<and> stopped w'"
proof -
  from t show ?thesis
  proof
    assume "up_thread w = T_exit"
    with stops_at_exit [OF K inv pc] show ?thesis .
  next
    assume "\<exists>a. up_thread w = T_check a"
    then obtain a where a: "up_thread w = T_check a" by blast
    let ?w = "w\<lparr>up_thread := T_exit\<rparr>"
    have s: "upload_step ma K w ?w"
      by (rule upload_step.thread [of _ _ undefined 0 False]) (use inv pc in \<open>simp add: upload_thread_step.simps a Let_def\<close>)
    from run_step [OF s stops_at_exit [OF K upload_step_inv [OF K s inv]]] pc show ?thesis by simp
  qed
qed

lemma stops_waiting:
  assumes K: "sem_documented K" and inv: "upload_inv K w" and pc: "up_pc w = S_wait" and as: "\<not> on_asserts ma"
    and t: "\<forall>a. up_thread w \<noteq> T_body a"
  shows "\<exists>w'. upload_run ma K w w' \<and> stopped w'"
proof (cases "up_thread w")
  case T_none
  with stops_without_thread [OF K inv pc] show ?thesis .
next
  case T_copy
  let ?w = "w\<lparr>up_thread := T_check (up_addr w)\<rparr>"
  have s: "upload_step ma K w ?w" by (rule upload_step.thread [of _ _ undefined 0 False]) (simp add: upload_thread_step.simps T_copy)
  from run_step [OF s stops_at [OF K upload_step_inv [OF K s inv]]] pc show ?thesis by simp
next
  case T_created
  let ?w = "w\<lparr>up_thread := T_copy\<rparr>" and ?v = "w\<lparr>up_thread := T_check (up_addr w)\<rparr>"
  have "k_sem_take K (up_sem w) = None" using sem_simps(1) [OF K] inv pc T_created by (simp add: Let_def)
  then have s: "upload_step ma K w ?w"
    using as by (intro upload_step.thread [of _ _ undefined 0 True]) (simp add: upload_thread_step.simps T_created)
  have v: "upload_step ma K ?w ?v" by (rule upload_step.thread [of _ _ undefined 0 False]) (simp add: upload_thread_step.simps)
  from run_step [OF s run_step [OF v stops_at [OF K upload_step_inv [OF K v upload_step_inv [OF K s inv]]]]] pc show ?thesis by simp
next
  case (T_sleep a)
  let ?w = "w\<lparr>up_thread := T_check a\<rparr>"
  have s: "upload_step ma K w ?w" by (rule upload_step.thread [of _ _ undefined 0 False]) (simp add: upload_thread_step.simps T_sleep)
  from run_step [OF s stops_at [OF K upload_step_inv [OF K s inv]]] pc show ?thesis by simp
qed (use stops_at [OF K inv pc] t in auto)

section \<open>Properties\<close>

text \<open>A semaphore with limit 1 that does what is documented, and the machine on it.\<close>

definition demo_sem :: "nat ksem" where
  "demo_sem = \<lparr>k_sem_count_get = (\<lambda>s. s), k_sem_take = (\<lambda>s. if s = 0 then None else Some (s - 1)), k_sem_give = (\<lambda>s. min 1 (s + 1))\<rparr>"

lemma demo_sem_documented: "sem_documented demo_sem"
  by (simp add: sem_documented_def demo_sem_def)

definition demo_upload :: "(thread \<times> nat, unit, nat) upload" where
  "demo_upload = upload_init 1 0 demo_shell"

abbreviation quiet_machine :: "(thread \<times> nat, unit) machine" where
  "quiet_machine \<equiv> demo_machine\<lparr>on_asserts := False\<rparr>"

definition demo_started :: "(thread \<times> nat, unit, nat) upload" where
  "demo_started = demo_upload\<lparr>up_addr := \<lparr>addr_a = replicate 20 0x11\<rparr>, up_sem := 0, up_thread := T_created\<rparr>"

lemma demo_start:
  "upload_reach ma demo_sem demo_upload (demo_started)"
proof -
  let ?argv = "[''start'', replicate 40 CHR ''1'']"
  have "hex_bytes (replicate 40 CHR ''1'') = Some (replicate 20 0x11)" "skip_0x (replicate 40 CHR ''1'') = replicate 40 CHR ''1''"
    by (simp_all add: numeral_eq_Suc map_hex_def skip_0x_def has_0x_def)
  then have "hextobin (replicate 40 CHR ''1'') (replicate 20 0) 20 = Inr (20, replicate 20 0x11)"
    using recipient_parsed [of "replicate 40 CHR ''1''" "replicate 20 0x11" "replicate 20 0"] by simp
  then have "upload_shell_step ma demo_sem (Start ?argv) False demo_upload =
      Inr (Some (demo_upload\<lparr>up_addr := \<lparr>addr_a = replicate 20 0x11\<rparr>, up_interval := DEFAULT_UPLOAD_INTERVAL, up_pc := S_start\<rparr>))" (is "_ = Inr (Some ?w1)")
    by (simp add: upload_shell_step.simps demo_upload_def upload_init_def upload_start_args_def arg_def)
  then have s1: "upload_step ma demo_sem demo_upload ?w1" by (rule upload_step.shell)
  let ?w2 = "?w1\<lparr>up_sem := 0, up_pc := S_create\<rparr>"
  have s2: "upload_step ma demo_sem ?w1 ?w2"
    by (rule upload_step.shell [of _ _ Stop False]) (simp add: upload_shell_step.simps demo_sem_def demo_upload_def upload_init_def)
  have "upload_step ma demo_sem ?w2 (?w2\<lparr>up_thread := T_created, up_pc := S_idle\<rparr>)"
    by (rule upload_step.shell [of _ _ Stop False]) (simp add: upload_shell_step.simps)
  then have s3: "upload_step ma demo_sem ?w2 demo_started" by (simp add: demo_started_def demo_upload_def upload_init_def)
  show ?thesis by (intro upload_reach.step [OF _ s3] upload_reach.step [OF _ s2] upload_reach.step [OF _ s1] upload_reach.start)
qed

lemma upload_asserted:
  assumes K: "sem_documented K" "k_sem_count_get K free = 1" "k_sem_count_get K taken = 0" and as: "on_asserts ma"
    and r: "upload_reach ma K (upload_init free taken sh) w"
  shows "upload_inv K w \<and> up_thread w \<in> {T_none, T_created} \<and> sh_account (up_shell w) = sh_account sh \<and> sh_rpc (up_shell w) = sh_rpc sh"
  using r
proof induction
  case start
  with K(2,3) show ?case by (simp add: upload_init_def)
next
  case (step w w')
  from step.hyps(2) show ?case
  proof cases
    case (shell c expired)
    with shell_step_inv [OF K(1) _ shell] step.IH show ?thesis by auto
  next
    case (thread st ptr expired)
    have False
    proof (cases "up_thread w")
      case T_created
      with step.IH have "k_sem_count_get K (up_sem w) = 0" by (cases "up_pc w") (auto simp: Let_def)
      with sem_simps(1) [OF K(1)] thread T_created as show False by (simp add: upload_thread_step.simps split: if_splits)
    qed (use step.IH thread in \<open>auto simp: upload_thread_step.simps\<close>)
    then show ?thesis ..
  qed (use step.IH in \<open>auto simp: Let_def\<close>)
qed

text \<open>
  C13: the upload service with assertions. In every reachable state the thread has not got past its first
  statement: \<open>upload_start\<close> holds the semaphore that \<open>upload_main\<close> takes again, so the attempt runs into its
  timeout and stops the program at the assertion, and no reading was ever sent.
\<close>

theorem upload_asserts_never_send:
  assumes "sem_documented K" "k_sem_count_get K free = 1" "k_sem_count_get K taken = 0" "on_asserts ma"
    and "upload_reach ma K (upload_init free taken sh) w"
  shows "up_thread w \<in> {T_none, T_created} \<and> sh_account (up_shell w) = sh_account sh \<and> sh_rpc (up_shell w) = sh_rpc sh \<and>
    (up_thread w = T_created \<longrightarrow> upload_thread_step ma K st ptr False w = Inr None \<and>
       upload_thread_step ma K st ptr True w = Inl Assertion_failed)"
proof -
  from upload_asserted [OF assms] have i: "upload_inv K w" "up_thread w \<in> {T_none, T_created}"
      "sh_account (up_shell w) = sh_account sh" "sh_rpc (up_shell w) = sh_rpc sh" by blast+
  have "upload_thread_step ma K st ptr False w = Inr None \<and> upload_thread_step ma K st ptr True w = Inl Assertion_failed"
    if "up_thread w = T_created"
  proof -
    from that i(1) have "k_sem_count_get K (up_sem w) = 0" by (cases "up_pc w") (auto simp: Let_def)
    with sem_simps(1) [OF assms(1)] that assms(4) show ?thesis by (simp add: upload_thread_step.simps)
  qed
  with i(2-4) show ?thesis by blast
qed

theorem upload_asserts_never_send_witness:
  "upload_thread_step demo_machine demo_sem demo_stack 4096 True demo_started = Inl Assertion_failed"
proof -
  have "upload_reach demo_machine demo_sem (upload_init 1 0 demo_shell) demo_started"
    using demo_start by (simp add: demo_upload_def)
  from upload_asserts_never_send [OF demo_sem_documented _ _ _ this]
  show ?thesis by (simp add: demo_sem_def demo_machine_def demo_started_def)
qed

text \<open>
  C11: one upload thread. In every reachable state, with or without assertions: between commands the thread's
  semaphore is free exactly when there is no thread, and the exit semaphore is not set; a thread is only
  created when there is none; and the thread leaves its loop only while \<open>upload_stop\<close> waits for it.
\<close>

theorem upload_one_thread:
  assumes "sem_documented K" "k_sem_count_get K free = 1" "k_sem_count_get K taken = 0"
    and "upload_reach ma K (upload_init free taken sh) w"
  shows "(up_pc w = S_idle \<longrightarrow> k_sem_count_get K (up_exit_sem w) = 0 \<and> (k_sem_count_get K (up_sem w) = 1 \<longleftrightarrow> up_thread w = T_none)) \<and>
    (up_pc w = S_create \<longrightarrow> up_thread w = T_none) \<and> (up_thread w = T_exit \<longrightarrow> up_pc w = S_wait) \<and>
    k_sem_count_get K (up_sem w) \<le> 1 \<and> k_sem_count_get K (up_exit_sem w) \<le> 1"
proof -
  have "upload_inv K w" by (rule upload_reach_inv [OF assms])
  then show ?thesis by (cases "up_pc w") (auto simp: Let_def)
qed

theorem upload_one_thread_witness:
  "up_thread demo_started \<noteq> T_none \<and> k_sem_count_get demo_sem (up_sem demo_started) \<noteq> 1"
proof -
  have "upload_reach demo_machine demo_sem (upload_init 1 0 demo_shell) demo_started"
    using demo_start by (simp add: demo_upload_def)
  from upload_one_thread [OF demo_sem_documented _ _ this]
  show ?thesis by (simp add: demo_sem_def demo_started_def demo_upload_def upload_init_def)
qed

text \<open>
  C12: stopping, in a build without assertions (with them the thread never gets that far, as shown above). From
  every reachable state in which \<open>upload_stop\<close> waits for the thread, the machine can go on to a state in which
  the command has returned, the thread is gone and both semaphores are as they were at the start: 1 and 0. When
  the thread is just sending a reading, this needs that the transmission can return.
\<close>

theorem upload_stop_completes:
  assumes "sem_documented K" "k_sem_count_get K free = 1" "k_sem_count_get K taken = 0" "\<not> on_asserts ma"
    and "upload_reach ma K (upload_init free taken sh) w" "up_pc w = S_wait"
    and "\<And>a. up_thread w = T_body a \<Longrightarrow> \<exists>st ptr expired w'. upload_thread_step ma K st ptr expired w = Inr (Some w')"
  shows "\<exists>w'. upload_run ma K w w' \<and> up_pc w' = S_idle \<and> up_thread w' = T_none \<and>
    k_sem_count_get K (up_sem w') = 1 \<and> k_sem_count_get K (up_exit_sem w') = 0"
proof -
  have inv: "upload_inv K w" by (rule upload_reach_inv [OF assms(1-3,5)])
  have "\<exists>w'. upload_run ma K w w' \<and> stopped w'"
  proof (cases "\<exists>a. up_thread w = T_body a")
    case True
    with assms(7) obtain a st ptr expired w1 where a: "up_thread w = T_body a"
        and w1: "upload_thread_step ma K st ptr expired w = Inr (Some w1)" by blast
    then have s: "upload_step ma K w w1" by (intro upload_step.thread)
    from a w1 have "up_thread w1 = T_sleep a" "up_pc w1 = up_pc w"
      by (auto simp: upload_thread_step.simps bindE_eq_Inr get_sensor_data_def split: if_splits)
    with run_step [OF s stops_waiting [OF assms(1) upload_step_inv [OF assms(1) s inv] _ assms(4)]] assms(6)
    show ?thesis by simp
  next
    case False
    then show ?thesis using stops_waiting [OF assms(1) inv assms(6,4)] by blast
  qed
  then obtain w' where w': "upload_run ma K w w'" "stopped w'" by blast
  from w'(1) inv have "upload_inv K w'"
    by (induction rule: rtranclp_induct) (use upload_step_inv [OF assms(1)] in blast)+
  with w' show ?thesis by (intro exI [of _ w']) (simp add: stopped_def Let_def)
qed

theorem upload_stop_completes_witness:
  "\<exists>w. upload_reach quiet_machine demo_sem demo_upload w \<and> up_thread w = T_created \<and>
    (\<exists>w'. upload_run quiet_machine demo_sem w w' \<and> up_pc w' = S_idle \<and> up_thread w' = T_none \<and> k_sem_count_get demo_sem (up_exit_sem w') = 0)"
proof -
  let ?w1 = "demo_started\<lparr>up_pc := S_stop\<rparr>" and ?w2 = "demo_started\<lparr>up_pc := S_signal\<rparr>"
  let ?w3 = "demo_started\<lparr>up_pc := S_wait, up_exit_sem := 1\<rparr>"
  have i: "up_pc demo_started = S_idle" "up_sem demo_started = 0" "up_exit_sem demo_started = 0" "up_thread demo_started = T_created"
    by (simp_all add: demo_started_def demo_upload_def upload_init_def)
  have s1: "upload_step quiet_machine demo_sem demo_started ?w1"
    by (rule upload_step.shell [of _ _ Stop False]) (simp add: upload_shell_step.simps i)
  have s2: "upload_step quiet_machine demo_sem ?w1 ?w2"
    by (rule upload_step.shell [of _ _ Stop True]) (simp add: upload_shell_step.simps i demo_sem_def)
  have s3: "upload_step quiet_machine demo_sem ?w2 ?w3"
    by (rule upload_step.shell [of _ _ Stop False]) (simp add: upload_shell_step.simps i demo_sem_def)
  have r: "upload_reach quiet_machine demo_sem demo_upload ?w3"
    by (intro upload_reach.step [OF _ s3] upload_reach.step [OF _ s2] upload_reach.step [OF _ s1] demo_start)
  have "\<exists>w'. upload_run quiet_machine demo_sem ?w3 w' \<and> up_pc w' = S_idle \<and> up_thread w' = T_none \<and>
      k_sem_count_get demo_sem (up_sem w') = 1 \<and> k_sem_count_get demo_sem (up_exit_sem w') = 0"
    by (rule upload_stop_completes [OF demo_sem_documented _ _ _ r [unfolded demo_upload_def]])
      (simp_all add: demo_sem_def i)
  then obtain w' where "upload_run quiet_machine demo_sem ?w3 w'" "up_pc w' = S_idle" "up_thread w' = T_none"
    "k_sem_count_get demo_sem (up_exit_sem w') = 0" by blast
  moreover have "up_thread ?w3 = T_created" by (simp add: i)
  ultimately show ?thesis using r by blast
qed

text \<open>
  C14: a reading on the wire. \<open>_send_data_eth\<close> sends a signed transaction that decodes to the account's nonce,
  the constant gas price and limit, the destination, no value, and the low bytes of temperature and humidity;
  when the node answers with a hash, the account's nonce goes up by one.
\<close>

theorem send_data_eth_sends:
  assumes "length (addr_a addr) = 20" "shell_ready ma st w"
    and "signs ma (acc_privkey (sh_account w)) (reading_tx st ptr (sh_account w) addr temp humidity) rs pby"
  shows "\<exists>bytes. rlp_decode_tx bytes = Some [min_bytes (unat (acc_nonce (sh_account w))), min_bytes 100000000, min_bytes 21136,
      addr_a addr, [], [ucast temp, ucast humidity], min_bytes (unat (pby + 27)), take 32 rs, drop 32 rs] \<and>
    (\<forall>kvs i hs. good_reply (on_lbits ma) kvs i hs \<longrightarrow>
       answers (on_platform ma) (raw_request (w_req_id (rpc_web3 (sh_rpc w))) bytes) (document kvs) \<longrightarrow>
       (\<exists>w'. send_data_eth ma st ptr addr temp humidity w = Inr (0, w') \<and>
         sh_account w' = (sh_account w)\<lparr>acc_nonce := acc_nonce (sh_account w) + 1\<rparr> \<and> sh_out w' = sh_out w))"
proof -
  note p = reading_payload [OF assms(1), of st ptr "sh_account w" temp humidity]
  from p(2) have "length (tx_payload (reading_tx st ptr (sh_account w) addr temp humidity) None) \<noteq> 55"
      "length (tx_payload (reading_tx st ptr (sh_account w) addr temp humidity) None) \<le> 110" by linarith+
  from sign_and_send_answered [OF p(1) this assms(3,2)] obtain bytes where
    b: "rlp_decode_tx bytes = Some (tx_fields (reading_tx st ptr (sh_account w) addr temp humidity) None @
        [min_bytes (unat (pby + 27)), take 32 rs, drop 32 rs])"
      "\<forall>kvs i hs. good_reply (on_lbits ma) kvs i hs \<longrightarrow>
       answers (on_platform ma) (raw_request (w_req_id (rpc_web3 (sh_rpc w))) bytes) (document kvs) \<longrightarrow>
       (\<exists>x w'. sign_and_send ma st (reading_tx st ptr (sh_account w) addr temp humidity) w = Inr (0, x, w') \<and> val256 x = hex_val hs \<and>
         sh_account w' = sh_account w \<and> sh_out w' = sh_out w)"
    by (elim exE conjE) (rule that)
  show ?thesis
  proof (intro exI [of _ bytes] conjI allI impI)
    fix kvs i hs
    assume a: "good_reply (on_lbits ma) kvs i hs"
      "answers (on_platform ma) (raw_request (w_req_id (rpc_web3 (sh_rpc w))) bytes) (document kvs)"
    from b(2) a obtain x w' where "sign_and_send ma st (reading_tx st ptr (sh_account w) addr temp humidity) w = Inr (0, x, w')"
      "sh_account w' = sh_account w" "sh_out w' = sh_out w" by blast
    then show "\<exists>w'. send_data_eth ma st ptr addr temp humidity w = Inr (0, w') \<and>
         sh_account w' = (sh_account w)\<lparr>acc_nonce := acc_nonce (sh_account w) + 1\<rparr> \<and> sh_out w' = sh_out w"
      by (simp add: send_data_eth_tx)
  qed (use b(1) in \<open>simp add: reading_fields\<close>)
qed

theorem send_data_eth_sends_witness:
  "\<exists>w'. send_data_eth demo_machine demo_stack 4096 \<lparr>addr_a = replicate 20 9\<rparr> 21 (-1) demo_shell = Inr (0, w') \<and>
    acc_nonce (sh_account w') = 1"
proof -
  have d: "length (addr_a \<lparr>addr_a = replicate 20 9\<rparr>) = 20" "good_reply (on_lbits demo_machine) demo_reply ''0'' ''2a''"
      "acc_nonce (sh_account demo_shell) = 0"
    using demo_good(1) by (simp_all add: demo_machine_def demo_shell_def account_init_def)
  have ans: "answers (on_platform demo_machine) msg (document demo_reply)" for msg
    using demo_answers [OF demo_good(2)] by (simp add: demo_machine_def)
  from send_data_eth_sends [OF d(1) demo_shell_ready demo_signs, of 21 "-1" 4096] d(2) ans
  obtain w' where "send_data_eth demo_machine demo_stack 4096 \<lparr>addr_a = replicate 20 9\<rparr> 21 (-1) demo_shell = Inr (0, w')"
      "sh_account w' = (sh_account demo_shell)\<lparr>acc_nonce := acc_nonce (sh_account demo_shell) + 1\<rparr>" by blast
  with d(3) show ?thesis by (intro exI [of _ w'] conjI) simp_all
qed

end
