(* ===== verification/Web3Shell.thy ===== *)
theory Web3Shell
  imports Wallet
begin

text \<open>
  \<open>zephyr-wallet/web3_shell.c\<close>: the shell commands over the remote calls. The commands run on the same state as
  those of the wallet; \<open>databuf\<close> and \<open>hash\<close> are the uninitialised arrays of the stack frames.
\<close>

section \<open>Definitions\<close>

definition web3_shell_blockNumber :: "('m, 'n) machine \<Rightarrow> stack \<Rightarrow> string list \<Rightarrow> ('m, 'n) shell \<Rightarrow> ('m, 'n) command_result" where
  "web3_shell_blockNumber ma st argv w =
    bindE (on_rpc st (web3_eth_blockNumber (on_platform ma) (on_asserts ma) (on_lbits ma) (stk_thread st) (stk_toks st)
        (stk_res st) (stk_u256 st) 0) w) (\<lambda>(_, blk_num, w).
    Inr (0, say_line (signed_digits (sint blk_num)) w))"

definition web3_shell_estimateGas :: "string list \<Rightarrow> ('m, 'n) shell \<Rightarrow> ('m, 'n) command_result" where
  "web3_shell_estimateGas argv w = Inr (0, say_line ''not implemented'' w)"

text \<open>The commands that take an address differ in the call only; they ignore its return value.\<close>

definition web3_shell_getBalance :: "('m, 'n) machine \<Rightarrow> stack \<Rightarrow> string list \<Rightarrow> ('m, 'n) shell \<Rightarrow> ('m, 'n) command_result" where
  "web3_shell_getBalance ma st argv w =
    (if length argv < 1 then Inr (0, say_line ''missing argument: address'' w)
     else bindE (arg argv 1) (\<lambda>str.
       bindE (hextobin str (replicate 20 0) 20) (\<lambda>(ret, address).
       if ret < 0 then Inr (0, say_line ''invalid argument: address'' w)
       else bindE (on_rpc st (web3_eth_getBalance (on_platform ma) (on_asserts ma) (on_lbits ma) (stk_thread st) (stk_toks st)
           (stk_res st) \<lparr>addr_a = address\<rparr> (stk_u256 st)) w) (\<lambda>(_, out, w).
         print_and_return (printk_uint256 out) w))))"

definition web3_shell_getTransactionCount :: "('m, 'n) machine \<Rightarrow> stack \<Rightarrow> string list \<Rightarrow> ('m, 'n) shell \<Rightarrow> ('m, 'n) command_result" where
  "web3_shell_getTransactionCount ma st argv w =
    (if length argv < 1 then Inr (0, say_line ''missing argument: address'' w)
     else bindE (arg argv 1) (\<lambda>str.
       bindE (hextobin str (replicate 20 0) 20) (\<lambda>(ret, address).
       if ret < 0 then Inr (0, say_line ''invalid argument: address'' w)
       else bindE (on_rpc st (web3_eth_getTransactionCount (on_platform ma) (on_asserts ma) (on_lbits ma) (stk_thread st) (stk_toks st)
           (stk_res st) \<lparr>addr_a = address\<rparr> (stk_u256 st)) w) (\<lambda>(_, out, w).
         print_and_return (printk_uint256 out) w))))"

definition web3_shell_sendRawTransaction ::
    "('m, 'n) machine \<Rightarrow> stack \<Rightarrow> u8 list \<Rightarrow> string list \<Rightarrow> ('m, 'n) shell \<Rightarrow> ('m, 'n) command_result" where
  "web3_shell_sendRawTransaction ma st databuf argv w =
    (if length argv < 1 then Inr (0, say_line ''missing argument: data'' w)
     else bindE (arg argv 1) (\<lambda>str.
       bindE (hextobin str databuf 128) (\<lambda>(data_len, databuf).
       if data_len < 0 then Inr (0, say_line ''invalid argument: data'' w)
       else bindE (on_rpc st (web3_eth_sendRawTransaction (on_platform ma) (on_asserts ma) (on_lbits ma) (stk_thread st) (stk_toks st)
           (stk_res st) (Some databuf) (nat data_len) (stk_u256 st)) w) (\<lambda>(ret, tx_hash, w).
         if ret < 0 then Inr (0, say_line ''eth_sendRawTransaction failed'' w)
         else print_and_return (printk_uint256 tx_hash) w))))"

text \<open>The last line of the command prints a 64-bit and an 8-bit number with \<open>%d\<close> each, which C leaves undefined.\<close>

definition web3_shell_getTransactionReceipt ::
    "('m, 'n) machine \<Rightarrow> stack \<Rightarrow> u8 list \<Rightarrow> tx_receipt_t \<Rightarrow> string list \<Rightarrow> ('m, 'n) shell \<Rightarrow> ('m, 'n) command_result" where
  "web3_shell_getTransactionReceipt ma st hash receipt argv w =
    (if length argv \<noteq> 2 then Inr (0, say_line ''missing argument: txhash'' w)
     else bindE (arg argv 1) (\<lambda>str.
       bindE (hextobin str hash 32) (\<lambda>(n, hash).
       if n \<noteq> 32 then Inr (0, say_line ''invalid argument: txhash'' w)
       else bindE (on_rpc st (web3_eth_getTransactionReceipt (on_platform ma) (on_asserts ma) (on_lbits ma) (stk_thread st) (stk_toks st)
           (stk_res st) \<lparr>hash_h = hash\<rparr> receipt) w) (\<lambda>(ret, receipt, w).
         if ret < 0 then Inr (0, say_line ''eth_getTransactionReceipt failed'' w)
         else Inl Undefined))))"

section \<open>Properties\<close>

lemma web3_shell_getBalance_answered:
  assumes to: "hex_bytes (skip_0x str) = Some bs" "length bs = 20" and ready: "shell_ready ma st w" and reply: "good_reply (on_lbits ma) kvs i hs"
    and func: "func = ''eth_getBalance'' \<and> run = web3_shell_getBalance \<or> func = ''eth_getTransactionCount'' \<and> run = web3_shell_getTransactionCount"
    and msg: "msg = json_text (request func (w_req_id (rpc_web3 (sh_rpc w))) [hex_json bs, JStr ''latest''])"
      "length msg < w_buf_size (rpc_web3 (sh_rpc w))" "answers (on_platform ma) msg (document kvs)"
  shows "\<exists>w'. run ma st [cmd, str] w = Inr (0, w') \<and> sh_out w' = sh_out w @ ''0x'' @ digits 16 (hex_val hs) @ [LF] \<and> sh_account w' = sh_account w"
proof -
  let ?a = "\<lparr>addr_a = bs\<rparr>"
  have len: "length (addr_a ?a) = 20" using to(2) by simp
  have calls: "find_call (on_asserts ma) call_map ''eth_getBalance'' = Inr eth_getBalance"
      "find_call (on_asserts ma) call_map ''eth_getTransactionCount'' = Inr eth_getTransactionCount" by (simp_all add: call_map_def)
  have b: "writes_request (eth_getBalance ?a) ''eth_getBalance'' [hex_json bs, JStr ''latest'']"
      "writes_request (eth_getTransactionCount ?a) ''eth_getTransactionCount'' [hex_json bs, JStr ''latest'']"
    unfolding eth_getBalance_def eth_getTransactionCount_def using writes_address [OF len] by simp_all
  have r: "rpc_ready (on_platform ma) (on_asserts ma) (stk_thread st) (sh_rpc w)" "length (stk_toks st) = 64"
    using ready by (simp_all add: shell_ready_def)
  have h: "hextobin str (replicate 20 0) 20 = Inr (20, bs)" using recipient_parsed [OF to, of "replicate 20 0"] by simp
  from func show ?thesis
  proof
    assume f: "func = ''eth_getBalance'' \<and> run = web3_shell_getBalance"
    with msg have m: "length (json_text (request ''eth_getBalance'' (w_req_id (rpc_web3 (sh_rpc w))) [hex_json bs, JStr ''latest''])) < w_buf_size (rpc_web3 (sh_rpc w))"
      "answers (on_platform ma) (json_text (request ''eth_getBalance'' (w_req_id (rpc_web3 (sh_rpc w))) [hex_json bs, JStr ''latest''])) (document kvs)"
      by simp_all
    obtain x rpc where "web3_eth_getBalance (on_platform ma) (on_asserts ma) (on_lbits ma) (stk_thread st) (stk_toks st)
        (stk_res st) ?a (stk_u256 st) (sh_rpc w) = Inr (0, x, rpc)" "val256 x = hex_val hs"
      using address_call [OF calls(1) b(1) r(1) reply r(2) m, of "stk_res st" "stk_u256 st"] unfolding web3_eth_getBalance_def by blast
    with f h show ?thesis by (simp add: web3_shell_getBalance_def arg_def on_rpc_def print_and_return_def printk_uint256_text say_def)
  next
    assume f: "func = ''eth_getTransactionCount'' \<and> run = web3_shell_getTransactionCount"
    with msg have m: "length (json_text (request ''eth_getTransactionCount'' (w_req_id (rpc_web3 (sh_rpc w))) [hex_json bs, JStr ''latest''])) < w_buf_size (rpc_web3 (sh_rpc w))"
      "answers (on_platform ma) (json_text (request ''eth_getTransactionCount'' (w_req_id (rpc_web3 (sh_rpc w))) [hex_json bs, JStr ''latest''])) (document kvs)"
      by simp_all
    obtain x rpc where "web3_eth_getTransactionCount (on_platform ma) (on_asserts ma) (on_lbits ma) (stk_thread st) (stk_toks st)
        (stk_res st) ?a (stk_u256 st) (sh_rpc w) = Inr (0, x, rpc)" "val256 x = hex_val hs"
      using address_call [OF calls(2) b(2) r(1) reply r(2) m, of "stk_res st" "stk_u256 st"] unfolding web3_eth_getTransactionCount_def by blast
    with f h show ?thesis by (simp add: web3_shell_getTransactionCount_def arg_def on_rpc_def print_and_return_def printk_uint256_text say_def)
  qed
qed

text \<open>
  Arguments the commands do not survive. Called without their argument, the three commands that check
  \<open>argc < 1\<close> read behind the end of \<open>argv\<close> (the name of the command is counted in \<open>argc\<close>); and raw transactions of
  the full 128 bytes of \<open>databuf\<close> never come back from \<open>hextobin\<close>.
\<close>

lemma web3_shell_arguments:
  assumes "length databuf = 128"
  shows "web3_shell_getBalance ma st [cmd] w = Inl Out_of_bounds \<and> web3_shell_getTransactionCount ma st [cmd] w = Inl Out_of_bounds \<and>
    web3_shell_sendRawTransaction ma st databuf [cmd] w = Inl Out_of_bounds \<and>
    (\<forall>str. length str = 256 \<longrightarrow> (\<forall>c \<in> set str. 0 \<le> map_hex c) \<longrightarrow> web3_shell_sendRawTransaction ma st databuf [cmd, str] w = Inl No_return)"
proof (intro conjI allI impI)
  fix str :: string
  assume str: "length str = 256" "\<forall>c \<in> set str. 0 \<le> map_hex c"
  then have s: "skip_0x str = str" using map_hex_no_0x by (simp add: skip_0x_def)
  have "hextobin str databuf 128 = Inl No_return"
    by (rule hextobin_diverges) (use str assms in \<open>simp_all add: s\<close>)
  then show "web3_shell_sendRawTransaction ma st databuf [cmd, str] w = Inl No_return"
    by (simp add: web3_shell_sendRawTransaction_def arg_def)
qed (simp_all add: web3_shell_getBalance_def web3_shell_getTransactionCount_def web3_shell_sendRawTransaction_def arg_def)

lemma web3_shell_arguments_witness:
  "web3_shell_sendRawTransaction demo_machine demo_stack (replicate 128 0) [''eth_sendRawTransaction'', replicate 256 CHR ''a''] demo_shell = Inl No_return"
  using web3_shell_arguments [of "replicate 128 0" demo_machine demo_stack "''eth_sendRawTransaction''" demo_shell]
  by (simp add: map_hex_def)

end
