(* ===== verification/Spec2Isabelle.thy ===== *)
theory Spec2Isabelle
  imports Transaction AbiData Erc20 Sawtooth SawtoothError SupplyChain Upload Web3Shell
begin

text \<open>
  The AnyLedger wallet, a crypto wallet for microcontrollers that run Zephyr: a verification development
  of its C code.

  The program. \<open>helpers/\<close> holds the wide integers, the hexadecimal and RLP encodings and a copy of the
  JSON tokeniser jsmn. On them \<open>eth/\<close> builds what an Ethereum node understands: call data of contracts,
  signed transactions, JSON-RPC requests and the decoders of the responses. \<open>sawtooth/\<close> does the same for
  Hyperledger Sawtooth with protocol buffers. \<open>zephyr-wallet/\<close> is the application: an HTTP client shared by
  all threads, the remote calls, the shell commands of the wallet and of ERC-20 tokens, and a thread that
  uploads sensor readings as transactions. \<open>examples/sawtooth-fish-supply/\<close> is a second application on the same
  modules, which registers catches of fish on a Sawtooth ledger.

  Theories and code. Paths are relative to \<open>src/\<close>.

  \<^item> \<open>Prelude\<close>: integers of C at their width, the \<open>outcome\<close> of a C function (a result, or one of the faults
    out-of-bounds access, failed assertion, undefined behaviour, no return), bounded memory.
  \<^item> \<open>Limbs\<close>, \<open>BigintContract\<close>, \<open>UInt128\<close>, \<open>UInt256\<close>, \<open>UIntBytes\<close>, \<open>UIntText\<close>: \<open>helpers/uint256.c\<close>. A number is two
    limbs, as in the code; \<open>val128\<close> and \<open>val256\<close> are their values. The division, the bit counters and the
    printing exist in the code once per width; the locales \<open>bigint\<close>, \<open>bit_counter\<close> and \<open>bigint_text\<close> state what
    they need of the width's operations and are interpreted on both.
  \<^item> \<open>HexBin\<close>: \<open>helpers/hextobin.c\<close>. \<open>Rlp\<close>: \<open>helpers/rlp_encoder.c\<close>, against a reference encoder and decoder.
  \<^item> \<open>Sign\<close>, \<open>Transaction\<close>: \<open>eth/sign.c\<close>, \<open>eth/address.c\<close>, \<open>eth/transaction.c\<close>. \<open>AbiData\<close>: \<open>eth/data.c\<close>; the array of
    32-byte items is an interpretation of the locale \<open>slots\<close>.
  \<^item> \<open>Jsmn\<close>, \<open>JsmnPrint\<close>: \<open>helpers/jsmn.c\<close>, its memory safety and, on the text of a document, its tokens.
  \<^item> \<open>Jsonp\<close>, \<open>JsonpDecode\<close>: \<open>eth/web3_jsonp.c\<close>. \<open>Web3\<close>: \<open>eth/web3.c\<close>, the request builders with \<open>vsnprintf\<close>.
  \<^item> \<open>HttpService\<close>: \<open>zephyr-wallet/http_service.c\<close>, threads interleaved by the step relation \<open>http_step\<close>.
    \<open>Web3Rpc\<close>: \<open>web3_rpc.c\<close>, which composes requests, client and decoders.
  \<^item> \<open>ShellUtils\<close>: \<open>utils.c\<close>, \<open>helpers/fp2str.c\<close>, \<open>helpers/math.c\<close>. \<open>Wallet\<close>, \<open>Erc20\<close>, \<open>Web3Shell\<close>: the commands of
    \<open>wallet.c\<close>, \<open>erc20_shell.c\<close>, \<open>web3_shell.c\<close> over the state \<open>shell\<close> (account, statics of the remote calls,
    \<open>errno\<close>, console); \<open>erc20\<close> extends it by the table of tokens.
  \<^item> \<open>Upload\<close>: \<open>upload.c\<close>, \<open>sensor_service.c\<close>. The commands and the thread are state machines from one use of a
    semaphore to the next, interleaved by \<open>upload_step\<close>.
  \<^item> \<open>Protobuf\<close>: the interface of nanopb and the wire format, with a reader. \<open>Sawtooth\<close>: \<open>sawtooth/encoders.c\<close>,
    \<open>st_transaction.c\<close>. \<open>SawtoothError\<close>: \<open>error_parser.c\<close>.
  \<^item> \<open>FishEncoders\<close>: \<open>payload/fish_encoders.c\<close>, \<open>payload/payload.c\<close> of the example, with a reader of records. \<open>SupplyChain\<close>:
    \<open>sign_and_encode\<close> and the commands of \<open>app/sawtooth_shell.c\<close>, over the state \<open>sc_state\<close> (its statics and the shell).

  What the lemmas show. For the integers, the value of every operation (and where a carry is misplaced);
  for encoders, that a reference decoder reads back what was encoded, and what happens to memory
  otherwise; for the tokeniser, totality and safety on any bytes and exact tokens on documents; for
  requests and remote calls, the exact text sent and the number received; for the HTTP client and the
  upload service, invariants of all interleavings; for the commands, the signed transaction that is sent
  and the text printed. Error branches are proved with the same care; where the code is wrong, a lemma
  states what it does instead.

  Loops. Loops whose counter the code bounds are \<open>fun\<close> or \<open>function\<close> with a measure. Loops that may not end
  are option values, where \<open>None\<close> is not returning: the division is a \<open>while_option\<close>, \<open>hextobin\<close>, the main loop of
  the tokeniser and \<open>fp2str\<close> are \<open>partial_function (option)\<close>. That they return, and when not, is proved. The
  reader of protocol buffers consumes at least one byte per field; no fuel is used.

  Parameters. Code that is not in the repository enters as an argument: the hash functions and the
  secp256k1 curve of trezor-crypto, mutexes, semaphores and the HTTP library of Zephyr, nanopb, the call
  data functions that the ABI compiler generates. What the properties use of them is a named
  predicate on the argument (\<open>pb_documented\<close>, \<open>sem_documented\<close> and the like), each with an instance. The
  content of uninitialised locals is an argument too, as are the width of \<open>long\<close> and what a remote call leaves in
  \<open>errno\<close>. Assertions are on, except that the HTTP client, the remote calls, the upload and the supply chain
  take it as a flag whether they are; \<open>size_t\<close> has 64 bits, and the width of \<open>long\<close> where a command converts to it. \<open>printk\<close> and
  \<open>shell_fprintf\<close> append to the console.

  Not modelled. \<open>lwm2m_client.c\<close>, \<open>sntp_shell.c\<close>, \<open>shell_modules.c\<close>, the \<open>main.c\<close> files and the \<open>compat\<close> files only call
  into Zephyr or register callbacks there; \<open>app/demo_shell.c\<close> of the example types fixed commands into the shell;
  \<open>abi_compiler\<close>, the tests and the tools are not C code of the wallet. Scheduling is any
  interleaving of the modelled steps: no preemption inside a step, and no fairness.
\<close>

end
